(* ===== verification/Fluxon_Prelude.thy ===== *)
theory Fluxon_Prelude
  imports Main "HOL-Library.Monad_Syntax" "HOL-Library.Sublist"
begin

text \<open>
  What the component theories share: the machine-integer operations of the Rust code on
  bounded naturals, the encoding of panics, and generic lemmas on options, maps and sums.

  \<^item> Unsigned machine integers are naturals together with the bound \<open>2 ^ w\<close> that every
    operation of the source respects. \<open>checked_add\<close>, \<open>checked_sub\<close>,
    \<open>saturating_add\<close>, \<open>saturating_mul\<close> and \<open>wrapping_add\<close> take the bound
    (or need none) and are the Rust methods of the same names. \<open>saturating_sub\<close> is the
    subtraction of naturals.
  \<^item> A function that can panic (\<open>assert!\<close>, \<open>expect\<close>, \<open>unwrap\<close>, an arithmetic
    overflow in a build with overflow checks) returns an \<open>option\<close>; \<open>None\<close> is the
    panic. Theorems about such a function say that it returns.
  \<^item> A \<open>Result\<close> is a sum, \<open>Inl\<close> the error.
\<close>

section \<open>Machine integers\<close>

type_synonym u64 = nat
type_synonym u32 = nat
type_synonym usize = nat
type_synonym i64 = int

abbreviation u64_bound :: nat where
  "u64_bound \<equiv> 18446744073709551616"

abbreviation u32_bound :: nat where
  "u32_bound \<equiv> 4294967296"

lemma u64_bound_power: "u64_bound = 2 ^ 64"
  by simp

lemma u32_bound_power: "u32_bound = 2 ^ 32"
  by simp

definition checked_add :: "nat \<Rightarrow> nat \<Rightarrow> nat \<Rightarrow> nat option" where
  "checked_add bound a b = (if a + b < bound then Some (a + b) else None)"

definition checked_sub :: "nat \<Rightarrow> nat \<Rightarrow> nat option" where
  "checked_sub a b = (if b \<le> a then Some (a - b) else None)"

definition checked_mul :: "nat \<Rightarrow> nat \<Rightarrow> nat \<Rightarrow> nat option" where
  "checked_mul bound a b = (if a * b < bound then Some (a * b) else None)"

definition saturating_add :: "nat \<Rightarrow> nat \<Rightarrow> nat \<Rightarrow> nat" where
  "saturating_add bound a b = min (a + b) (bound - 1)"

definition saturating_mul :: "nat \<Rightarrow> nat \<Rightarrow> nat \<Rightarrow> nat" where
  "saturating_mul bound a b = min (a * b) (bound - 1)"

definition wrapping_add :: "nat \<Rightarrow> nat \<Rightarrow> nat \<Rightarrow> nat" where
  "wrapping_add bound a b = (a + b) mod bound"

named_theorems machine_arith

lemma checked_add_Some [machine_arith]:
  "checked_add bound a b = Some c \<longleftrightarrow> c = a + b \<and> a + b < bound"
  by (auto simp: checked_add_def)

lemma checked_add_None [machine_arith]:
  "checked_add bound a b = None \<longleftrightarrow> bound \<le> a + b"
  by (auto simp: checked_add_def)

lemma checked_sub_Some [machine_arith]:
  "checked_sub a b = Some c \<longleftrightarrow> b \<le> a \<and> c = a - b"
  by (auto simp: checked_sub_def)

lemma checked_sub_None [machine_arith]:
  "checked_sub a b = None \<longleftrightarrow> a < b"
  by (auto simp: checked_sub_def)

lemma saturating_add_le: "saturating_add bound a b \<le> a + b"
  by (simp add: saturating_add_def)

lemma saturating_add_exact [machine_arith]:
  "a + b < bound \<Longrightarrow> saturating_add bound a b = a + b"
  by (simp add: saturating_add_def)

lemma saturating_add_bound: "0 < bound \<Longrightarrow> saturating_add bound a b < bound"
  by (simp add: saturating_add_def)

lemma saturating_mul_exact [machine_arith]:
  "a * b < bound \<Longrightarrow> saturating_mul bound a b = a * b"
  by (simp add: saturating_mul_def)

lemma wrapping_add_exact [machine_arith]:
  "a + b < bound \<Longrightarrow> wrapping_add bound a b = a + b"
  by (simp add: wrapping_add_def)

section \<open>Panics\<close>

text \<open>\<open>assert!(b)\<close>: the computation goes on only when the condition holds.\<close>

definition assert_or_panic :: "bool \<Rightarrow> unit option" where
  "assert_or_panic b = (if b then Some () else None)"

lemma assert_or_panic_simps [simp]:
  "assert_or_panic True = Some ()"
  "assert_or_panic False = None"
  by (simp_all add: assert_or_panic_def)

lemma assert_or_panic_Some [simp]: "assert_or_panic b = Some u \<longleftrightarrow> b"
  by (simp add: assert_or_panic_def)

text \<open>\<open>Vec::with_capacity(count)\<close> of elements of \<open>element_bytes\<close> bytes panics with a capacity
  overflow when the vector would have more than \<open>isize::MAX\<close> bytes. Running out of memory aborts the
  process and is not modelled.\<close>

definition vec_with_capacity :: "nat \<Rightarrow> usize \<Rightarrow> unit option" where
  "vec_with_capacity element_bytes count = assert_or_panic (count * element_bytes < 2 ^ 63)"

lemma vec_with_capacity_Some [simp]:
  "vec_with_capacity element_bytes count = Some u \<longleftrightarrow> count * element_bytes < 2 ^ 63"
  by (simp add: vec_with_capacity_def)

section \<open>Sums, options and maps\<close>

lemma bind_option_Some:
  "x \<bind> f = Some y \<longleftrightarrow> (\<exists>a. x = Some a \<and> f a = Some y)"
  by (rule Option.bind_eq_Some_conv)

section \<open>Counting in finite maps\<close>

text \<open>The number of entries of a finite map whose value satisfies a predicate.\<close>

definition map_count :: "('a \<Rightarrow> 'b option) \<Rightarrow> ('b \<Rightarrow> bool) \<Rightarrow> nat" where
  "map_count m P = card {x. \<exists>v. m x = Some v \<and> P v}"

lemma map_count_finite:
  assumes "finite (dom m)"
  shows "finite {x. \<exists>v. m x = Some v \<and> P v}"
  by (rule finite_subset [OF _ assms]) auto

lemma map_count_empty [simp]: "map_count Map.empty P = 0"
  by (simp add: map_count_def)

lemma map_count_delete:
  assumes "finite (dom m)" and "m k = Some v"
  shows "map_count (m(k := None)) P + of_bool (P v) = map_count m P"
proof -
  let ?S = "{x. \<exists>v. m x = Some v \<and> P v}"
  have "{x. \<exists>v. (m(k := None)) x = Some v \<and> P v} = ?S - {k}" by auto
  moreover have "k \<in> ?S \<longleftrightarrow> P v" using assms(2) by simp
  ultimately show ?thesis
    using card_Suc_Diff1 [OF map_count_finite [OF assms(1), of P], of k]
    by (cases "P v") (simp_all add: map_count_def)
qed

lemma map_count_insert:
  assumes "finite (dom m)" and "m k = None"
  shows "map_count (m(k \<mapsto> v)) P = map_count m P + of_bool (P v)"
proof -
  have "(m(k \<mapsto> v))(k := None) = m" using assms(2) by (simp add: fun_upd_idem)
  then show ?thesis using map_count_delete [of "m(k \<mapsto> v)" k v P] assms by simp
qed

lemma map_count_update:
  assumes "finite (dom m)" and "m k = Some v"
  shows "map_count (m(k \<mapsto> v')) P + of_bool (P v) = map_count m P + of_bool (P v')"
  using map_count_delete [OF assms, of P] map_count_insert [of "m(k := None)" k v' P] assms(1) by simp

lemma map_count_0:
  "finite (dom m) \<Longrightarrow> map_count m P = 0 \<longleftrightarrow> (\<forall>x v. m x = Some v \<longrightarrow> \<not> P v)"
  using map_count_finite [of m P] by (auto simp: map_count_def)

lemma map_count_cong:
  assumes "\<And>x v. m x = Some v \<Longrightarrow> P v = Q v"
  shows "map_count m P = map_count m Q"
  using assms by (auto simp: map_count_def intro!: arg_cong [of _ _ card])

section \<open>Lists\<close>

lemma length_filter_update:
  "i < length xs \<Longrightarrow>
   length (filter P (xs[i := y])) + of_bool (P (xs ! i)) = length (filter P xs) + of_bool (P y)"
proof (induction xs arbitrary: i)
  case (Cons x xs)
  then show ?case by (cases i) auto
qed simp

lemma length_filter_update_same:
  "i < length xs \<Longrightarrow> P y = P (xs ! i) \<Longrightarrow>
   length (filter P (xs[i := y])) = length (filter P xs)"
  using length_filter_update [of i xs P y] by simp

end
