(* ===== verification/Prefix_Index.thy ===== *)
theory Prefix_Index
  imports Fluxon_Prelude
begin

text \<open>
  The master's prefix index (\<open>fluxon_kv/src/master_kv_router/count_prefix_index.rs\<close>):
  a byte trie that counts, for every prefix, the keys below it, together with the current
  version of every counted key. Route publication and reclaim reach it from separate
  actors, so the same event can come twice or late.

  A key is its UTF-8 byte sequence (\<open>string\<close>, a list of 8-bit characters); a
  \<open>HashMap\<close> is a partial function. \<open>None\<close> is the panic of a counter that would
  pass \<open>u64::MAX\<close>.
\<close>

section \<open>Model\<close>

type_synonym key_version = "u64 \<times> u32"

datatype pnode = PNode (pcount: u64) (pchildren: "char \<Rightarrow> pnode option")

definition pnode_new :: pnode where
  "pnode_new = PNode 0 (\<lambda>_. None)"

record prefix_radix_tree =
  root :: pnode
  versions :: "string \<Rightarrow> key_version option"

definition prefix_tree_new :: prefix_radix_tree where
  "prefix_tree_new = \<lparr>root = pnode_new, versions = Map.empty\<rparr>"

text \<open>The counting loop of \<open>insert\<close>: the node's count, then the child for the next byte.\<close>

fun insert_path :: "pnode \<Rightarrow> string \<Rightarrow> pnode option" where
  "insert_path (PNode c ch) [] =
     do { c' \<leftarrow> checked_add u64_bound c 1; Some (PNode c' ch) }"
| "insert_path (PNode c ch) (b # bs) =
     do { c' \<leftarrow> checked_add u64_bound c 1;
          child \<leftarrow> insert_path (case ch b of None \<Rightarrow> pnode_new | Some n \<Rightarrow> n) bs;
          Some (PNode c' (ch(b \<mapsto> child))) }"

definition prefix_insert ::
  "prefix_radix_tree \<Rightarrow> string \<Rightarrow> key_version \<Rightarrow> (prefix_radix_tree \<times> bool) option" where
  "prefix_insert t key version =
     (case versions t key of
        Some current \<Rightarrow>
          Some (if current \<noteq> version then t\<lparr>versions := (versions t)(key \<mapsto> version)\<rparr> else t,
                False)
      | None \<Rightarrow>
          do { r \<leftarrow> insert_path (root t) key;
               Some (t\<lparr>root := r, versions := (versions t)(key \<mapsto> version)\<rparr>, True) })"

fun path_present :: "pnode \<Rightarrow> string \<Rightarrow> bool" where
  "path_present n [] = True"
| "path_present n (b # bs) =
     (case pchildren n b of None \<Rightarrow> False | Some child \<Rightarrow> path_present child bs)"

fun remove_inner :: "pnode \<Rightarrow> string \<Rightarrow> pnode \<times> bool" where
  "remove_inner (PNode c ch) [] = (PNode (c - 1) ch, c - 1 = 0)"
| "remove_inner (PNode c ch) (b # bs) =
     (case ch b of
        None \<Rightarrow> (PNode (c - 1) ch, c - 1 = 0)
      | Some child \<Rightarrow>
          (let (child', should_prune) = remove_inner child bs
           in (PNode (c - 1) (if should_prune then ch(b := None) else ch(b \<mapsto> child')),
               c - 1 = 0)))"

definition prefix_remove ::
  "prefix_radix_tree \<Rightarrow> string \<Rightarrow> key_version \<Rightarrow> prefix_radix_tree \<times> bool" where
  "prefix_remove t key version =
     (if versions t key \<noteq> Some version then (t, False)
      else if \<not> path_present (root t) key
      then (t\<lparr>versions := (versions t)(key := None)\<rparr>, False)
      else (t\<lparr>versions := (versions t)(key := None), root := fst (remove_inner (root t) key)\<rparr>,
            True))"

fun count_from :: "pnode \<Rightarrow> string \<Rightarrow> u64" where
  "count_from n [] = pcount n"
| "count_from n (b # bs) =
     (case pchildren n b of None \<Rightarrow> 0 | Some child \<Rightarrow> count_from child bs)"

definition count_prefix :: "prefix_radix_tree \<Rightarrow> string \<Rightarrow> u64" where
  "count_prefix t p = count_from (root t) p"

section \<open>The trie represents a set of keys\<close>

text \<open>
  \<open>represents n K\<close>: below \<open>n\<close> exactly the keys \<open>K\<close> are counted, and no child
  without a key is kept.
\<close>

definition tails :: "char \<Rightarrow> string set \<Rightarrow> string set" where
  "tails b K = {k. b # k \<in> K}"

lemma in_tails [simp]: "k \<in> tails b K \<longleftrightarrow> b # k \<in> K"
  by (simp add: tails_def)

inductive represents :: "pnode \<Rightarrow> string set \<Rightarrow> bool" where
  represents_node:
  "finite K \<Longrightarrow> c = card K \<Longrightarrow>
   (\<And>b. ch b = None \<Longrightarrow> tails b K = {}) \<Longrightarrow>
   (\<And>b n. ch b = Some n \<Longrightarrow> tails b K \<noteq> {} \<and> represents n (tails b K)) \<Longrightarrow>
   represents (PNode c ch) K"

inductive_simps represents_simps: "represents (PNode c ch) K"

definition prefix_index_inv :: "prefix_radix_tree \<Rightarrow> bool" where
  "prefix_index_inv t \<longleftrightarrow> represents (root t) (dom (versions t))"

lemma finite_tails: "finite K \<Longrightarrow> finite (tails b K)"
  unfolding tails_def
  by (rule finite_vimageI [of K "\<lambda>k. b # k", unfolded vimage_def]) (auto simp: inj_on_def)

lemma represents_finite: "represents n K \<Longrightarrow> finite K"
  by (auto elim: represents.cases)

lemma represents_count: "represents n K \<Longrightarrow> pcount n = card K"
  by (auto elim: represents.cases)

lemma represents_new: "represents pnode_new {}"
  by (auto simp: pnode_new_def represents_simps)

lemma tails_insert_Cons: "tails b (insert (c # ks) K) = (if b = c then insert ks (tails b K) else tails b K)"
  by auto

lemma tails_insert_Nil: "tails b (insert [] K) = tails b K"
  by auto

lemma tails_remove_Cons: "tails b (K - {c # ks}) = (if b = c then tails b K - {ks} else tails b K)"
  by auto

lemma tails_remove_Nil: "tails b (K - {[]}) = tails b K"
  by auto

lemmas tails_simps = tails_insert_Cons tails_insert_Nil tails_remove_Cons tails_remove_Nil

lemma card_tails_le: "finite K \<Longrightarrow> card (tails b K) \<le> card K"
  by (rule card_inj_on_le [of "\<lambda>k. b # k"]) (auto simp: inj_on_def)

lemma represents_insert_path:
  "represents n K \<Longrightarrow> key \<notin> K \<Longrightarrow> Suc (card K) < u64_bound \<Longrightarrow>
   \<exists>n'. insert_path n key = Some n' \<and> represents n' (insert key K)"
proof (induction n key arbitrary: K rule: insert_path.induct)
  case (1 c ch)
  then show ?case
    by (auto simp: checked_add_def represents_simps tails_insert_Nil)
next
  case (2 c ch b bs)
  let ?child = "case ch b of None \<Rightarrow> pnode_new | Some n \<Rightarrow> n"
  from "2.prems" have fin: "finite K" and c: "c = card K"
    by (auto simp: represents_simps)
  have child: "represents ?child (tails b K)"
    using "2.prems"(1) by (cases "ch b") (auto simp: represents_simps represents_new)
  have "Suc (card (tails b K)) < u64_bound"
    using card_tails_le [OF fin, of b] "2.prems"(3) by linarith
  with "2.IH" [OF _ child] "2.prems" c obtain n' where
    n': "insert_path ?child bs = Some n'" "represents n' (insert bs (tails b K))"
    by (auto simp: checked_add_def)
  have "represents (PNode (Suc c) (ch(b \<mapsto> n'))) (insert (b # bs) K)"
    using "2.prems"(1,2) n'(2) by (auto simp: represents_simps tails_simps split: if_splits)
  with n'(1) "2.prems"(3) c show ?case
    by (auto simp: checked_add_def)
qed

lemma represents_child:
  assumes "represents (PNode c ch) K" and "b # bs \<in> K"
  obtains child where "ch b = Some child" and "represents child (tails b K)" and "bs \<in> tails b K"
proof (cases "ch b")
  case None
  with assms(1) have "tails b K = {}" by (auto simp: represents_simps)
  with assms(2) have False by (metis empty_iff in_tails)
  then show ?thesis ..
next
  case (Some child)
  with assms show ?thesis using that by (auto simp: represents_simps)
qed

lemma represents_path_present: "represents n K \<Longrightarrow> key \<in> K \<Longrightarrow> path_present n key"
proof (induction n key arbitrary: K rule: path_present.induct)
  case (2 n b bs)
  then obtain c ch where n: "n = PNode c ch" by (cases n)
  with "2.prems" obtain child where
    "ch b = Some child" "represents child (tails b K)" "bs \<in> tails b K"
    by (auto elim: represents_child)
  with n "2.IH" [of child "tails b K"] show ?case by simp
qed simp

lemma represents_remove_inner:
  "represents n K \<Longrightarrow> key \<in> K \<Longrightarrow>
   represents (fst (remove_inner n key)) (K - {key}) \<and>
   snd (remove_inner n key) = (K - {key} = {})"
proof (induction n key arbitrary: K rule: remove_inner.induct)
  case (1 c ch)
  then have fin: "finite K" and c: "c = card K" by (auto simp: represents_simps)
  with "1.prems"(2) have cd: "c - 1 = card (K - {[]})" by (simp add: card_Diff_singleton)
  with fin have "(c - 1 = 0) = (K - {[]} = {})" by simp
  moreover from "1.prems"(1) cd have "represents (PNode (c - 1) ch) (K - {[]})"
    by (auto simp: represents_simps tails_remove_Nil)
  ultimately show ?case by simp
next
  case (2 c ch b bs)
  from "2.prems" obtain child where ch: "ch b = Some child"
    and child: "represents child (tails b K)" "bs \<in> tails b K"
    by (rule represents_child)
  obtain child' prune where r: "remove_inner child bs = (child', prune)"
    by (cases "remove_inner child bs")
  from "2.IH" [OF ch child] r
  have sub: "represents child' (tails b K - {bs})" "prune = (tails b K - {bs} = {})"
    by auto
  have fin: "finite K" and c: "c = card K" using "2.prems"(1) by (auto simp: represents_simps)
  have cd: "c - 1 = card (K - {b # bs})"
    using "2.prems"(2) fin c by (simp add: card_Diff_singleton)
  have "represents (PNode (c - 1) (if prune then ch(b := None) else ch(b \<mapsto> child'))) (K - {b # bs})"
    using "2.prems"(1) fin sub cd by (auto simp: represents_simps tails_simps)
  moreover have "(c - 1 = 0) = (K - {b # bs} = {})"
    using cd fin by simp
  ultimately show ?case using ch r by simp
qed

lemma represents_count_from:
  "represents n K \<Longrightarrow> count_from n p = card {k \<in> K. prefix p k}"
proof (induction n p arbitrary: K rule: count_from.induct)
  case (1 n)
  then show ?case by (simp add: represents_count)
next
  case (2 n b bs)
  obtain c ch where n: "n = PNode c ch" by (cases n)
  have eq: "{k \<in> K. prefix (b # bs) k} = (\<lambda>k. b # k) ` {k \<in> tails b K. prefix bs k}"
    by (auto simp: image_iff prefix_def)
  have card: "card {k \<in> K. prefix (b # bs) k} = card {k \<in> tails b K. prefix bs k}"
    unfolding eq by (rule card_image) simp
  show ?case
  proof (cases "ch b")
    case None
    with "2.prems" n have "tails b K = {}" by (auto simp: represents_simps)
    with card n None show ?thesis by simp
  next
    case (Some child)
    with "2.prems" n have "represents child (tails b K)" by (auto simp: represents_simps)
    with "2.IH" [of child "tails b K"] n Some
    have "count_from n (b # bs) = card {k \<in> tails b K. prefix bs k}" by simp
    with card show ?thesis by simp
  qed
qed

lemma prefix_index_inv_new: "prefix_index_inv prefix_tree_new"
  by (simp add: prefix_index_inv_def prefix_tree_new_def represents_new)

lemma prefix_insert_new_key:
  assumes "prefix_index_inv t" and "versions t key = None"
    and "Suc (card (dom (versions t))) < u64_bound"
  obtains r where
    "prefix_insert t key v =
       Some (t\<lparr>root := r, versions := (versions t)(key \<mapsto> v)\<rparr>, True)"
    and "represents r (insert key (dom (versions t)))"
proof -
  from assms have "represents (root t) (dom (versions t))" "key \<notin> dom (versions t)"
    by (auto simp: prefix_index_inv_def)
  from represents_insert_path [OF this assms(3)] obtain r where
    "insert_path (root t) key = Some r" "represents r (insert key (dom (versions t)))"
    by blast
  with assms(2) that show ?thesis by (simp add: prefix_insert_def)
qed

lemma prefix_insert_known_key:
  "versions t key = Some old \<Longrightarrow>
   prefix_insert t key v = Some (t\<lparr>versions := (versions t)(key \<mapsto> v)\<rparr>, False)"
  by (auto simp: prefix_insert_def fun_upd_idem)

lemma prefix_remove_current:
  assumes "prefix_index_inv t" and "versions t key = Some v"
  shows "prefix_remove t key v =
           (t\<lparr>versions := (versions t)(key := None), root := fst (remove_inner (root t) key)\<rparr>, True)"
    and "represents (fst (remove_inner (root t) key)) (dom (versions t) - {key})"
proof -
  have rep: "represents (root t) (dom (versions t))" "key \<in> dom (versions t)"
    using assms by (auto simp: prefix_index_inv_def)
  show "prefix_remove t key v =
      (t\<lparr>versions := (versions t)(key := None), root := fst (remove_inner (root t) key)\<rparr>, True)"
    using assms(2) represents_path_present [OF rep] by (simp add: prefix_remove_def)
  show "represents (fst (remove_inner (root t) key)) (dom (versions t) - {key})"
    using represents_remove_inner [OF rep] by blast
qed

lemma prefix_remove_stale:
  "versions t key \<noteq> Some v \<Longrightarrow> prefix_remove t key v = (t, False)"
  by (simp add: prefix_remove_def)

section \<open>Events in any order\<close>

text \<open>
  The index as its actors drive it: a sequence of publish and reclaim events. The abstract
  state is the map from keys to versions; \<open>prefix_abs\<close> is what an event should do to it.
\<close>

datatype prefix_event = Published string key_version | Reclaimed string key_version

fun prefix_step :: "prefix_radix_tree \<Rightarrow> prefix_event \<Rightarrow> prefix_radix_tree option" where
  "prefix_step t (Published key v) = map_option fst (prefix_insert t key v)"
| "prefix_step t (Reclaimed key v) = Some (fst (prefix_remove t key v))"

fun prefix_run :: "prefix_radix_tree \<Rightarrow> prefix_event list \<Rightarrow> prefix_radix_tree option" where
  "prefix_run t [] = Some t"
| "prefix_run t (e # es) = do { t' \<leftarrow> prefix_step t e; prefix_run t' es }"

fun prefix_abs :: "(string \<Rightarrow> key_version option) \<Rightarrow> prefix_event \<Rightarrow> (string \<Rightarrow> key_version option)" where
  "prefix_abs m (Published key v) = m(key \<mapsto> v)"
| "prefix_abs m (Reclaimed key v) = (if m key = Some v then m(key := None) else m)"

lemma prefix_step_refines:
  assumes inv: "prefix_index_inv t" and room: "Suc (card (dom (versions t))) < u64_bound"
  shows "\<exists>t'. prefix_step t e = Some t' \<and> prefix_index_inv t' \<and>
              versions t' = prefix_abs (versions t) e"
proof (cases e)
  case (Published key v)
  show ?thesis
  proof (cases "versions t key")
    case None
    from prefix_insert_new_key [OF inv None room, of v] obtain r where
      "prefix_insert t key v = Some (t\<lparr>root := r, versions := (versions t)(key \<mapsto> v)\<rparr>, True)"
      "represents r (insert key (dom (versions t)))"
      by blast
    then show ?thesis using Published by (auto simp: prefix_index_inv_def)
  next
    case (Some old)
    then have "dom ((versions t)(key \<mapsto> v)) = dom (versions t)" by auto
    with Some inv Published show ?thesis
      by (simp add: prefix_insert_known_key prefix_index_inv_def insert_absorb domI)
  qed
next
  case (Reclaimed key v)
  show ?thesis
  proof (cases "versions t key = Some v")
    case True
    with prefix_remove_current [OF inv True] Reclaimed show ?thesis
      by (auto simp: prefix_index_inv_def)
  next
    case False
    with inv Reclaimed show ?thesis by (simp add: prefix_remove_stale)
  qed
qed

lemma prefix_abs_card:
  "finite (dom m) \<Longrightarrow> finite (dom (prefix_abs m e)) \<and> card (dom (prefix_abs m e)) \<le> Suc (card (dom m))"
  by (cases e) (auto simp: card_insert_if card_Diff1_le intro: le_SucI)

lemma prefix_run_refines:
  "prefix_index_inv t \<Longrightarrow> card (dom (versions t)) + length es < u64_bound \<Longrightarrow>
   \<exists>t'. prefix_run t es = Some t' \<and> prefix_index_inv t' \<and>
        versions t' = fold (\<lambda>e m. prefix_abs m e) es (versions t)"
proof (induction es arbitrary: t)
  case Nil
  then show ?case by simp
next
  case (Cons e es)
  then have "Suc (card (dom (versions t))) < u64_bound" by simp
  from prefix_step_refines [OF Cons.prems(1) this, of e] obtain t' where
    t': "prefix_step t e = Some t'" "prefix_index_inv t'" "versions t' = prefix_abs (versions t) e"
    by blast
  have "finite (dom (versions t))"
    using Cons.prems(1) by (auto simp: prefix_index_inv_def dest: represents_finite)
  then have "card (dom (versions t')) + length es < u64_bound"
    using Cons.prems(2) prefix_abs_card [of "versions t" e] t'(3) by simp
  with Cons.IH [OF t'(2)] t' show ?case by simp
qed


section \<open>Properties\<close>

text \<open>The contract the type documents for its callers: a key is inserted only while it is absent, and
  removed only while it is present, at its current version.\<close>

fun balanced :: "(string \<Rightarrow> key_version option) \<Rightarrow> prefix_event list \<Rightarrow> bool" where
  "balanced m [] = True"
| "balanced m (Published key v # es) = (m key = None \<and> balanced (m(key \<mapsto> v)) es)"
| "balanced m (Reclaimed key v # es) = (m key = Some v \<and> balanced (m(key := None)) es)"

text \<open>C12: Take a sequence of fewer than \<open>2 ^ 64\<close> publish and reclaim events on the empty
  index. When it is balanced, as the type asks of its callers, the index processes it without a
  panic. Whatever the sequence, duplicated and late events included, a run that returns has kept the
  versions of the abstract map, in which a repeated publication changes the version only and a
  reclaim removes a key only at its current version, and counts for every prefix exactly the kept
  keys with that prefix.\<close>

theorem prefix_index_counts:
  assumes "length es < u64_bound"
  shows "(balanced Map.empty es \<longrightarrow> (\<exists>t. prefix_run prefix_tree_new es = Some t)) \<and>
    (\<forall>t. prefix_run prefix_tree_new es = Some t \<longrightarrow>
       versions t = fold (\<lambda>e m. prefix_abs m e) es Map.empty \<and>
       (\<forall>p. count_prefix t p = card {k \<in> dom (versions t). prefix p k}))"
proof -
  from prefix_run_refines [OF prefix_index_inv_new, of es] assms obtain t where
    t: "prefix_run prefix_tree_new es = Some t" "prefix_index_inv t"
       "versions t = fold (\<lambda>e m. prefix_abs m e) es Map.empty"
    by (auto simp: prefix_tree_new_def)
  from t(2) have "\<forall>p. count_prefix t p = card {k \<in> dom (versions t). prefix p k}"
    by (simp add: count_prefix_def prefix_index_inv_def represents_count_from)
  with t show ?thesis by simp
qed

theorem prefix_index_counts_witness:
  "\<exists>t. prefix_run prefix_tree_new
         [Published ''ab'' (1, 0), Published ''ac'' (1, 0), Reclaimed ''ab'' (1, 0),
          Published ''ab'' (2, 0)] = Some t \<and>
       versions t = [''ac'' \<mapsto> (1, 0), ''ab'' \<mapsto> (2, 0)] \<and>
       count_prefix t ''a'' = card {k \<in> dom (versions t). prefix ''a'' k}"
  using prefix_index_counts
    [of "[Published ''ab'' (1, 0), Published ''ac'' (1, 0), Reclaimed ''ab'' (1, 0),
          Published ''ab'' (2, 0)]"]
  by (auto simp: fun_eq_iff)



end
