(* ===== verification/Key_Activity.thy ===== *)
theory Key_Activity
  imports Fluxon_Prelude "HOL-Library.AList"
begin

text \<open>
  The per-key activity table of the master (\<open>fluxon_kv/src/master_kv_router/mod.rs\<close>,
  \<open>MasterKeyActivityTable\<close> and its leases) and the table of prepared gets
  (\<open>PreparedGetRequesterTable\<close>). A put, a get or a replica transfer of a key holds a
  lease; an owner reclaim of the key installs a fence, and the two exclude each other.

  A \<open>HashMap\<close> that the code iterates over is an association list with distinct keys.
  Every operation that runs under one lock is one function; \<open>release_now\<close>, which runs
  in three critical sections (the compare-exchange of \<open>released\<close>, the clearing of the
  pins, the table's \<open>release\<close>), is three steps, so that a sequence of events is an
  interleaving of the threads. \<open>None\<close> is a panic.
\<close>

section \<open>Model\<close>

subsection \<open>Reclaim items\<close>

datatype owner_reclaim_backing =
    Allocation
  | CommittedSlot u64 u64 u64
  | UnindexedAllocation u64 u64 u64 u64

datatype owner_reclaim_reason =
  OwnerCapacityEviction | MasterAllocationCapacity | PostReadDuplicate

record owner_reclaim_item =
  item_key :: string
  item_put_id :: "u64 \<times> u32"
  item_epoch :: u64
  item_backing :: owner_reclaim_backing
  item_reason :: owner_reclaim_reason

subsection \<open>The activity table\<close>

datatype activity_kind = Put | Get | Replica

record activity_state =
  puts :: u32
  gets :: u32
  replicas :: u32
  reclaim :: "owner_reclaim_item option"

definition activity_default :: activity_state where
  "activity_default = \<lparr>puts = 0, gets = 0, replicas = 0, reclaim = None\<rparr>"

type_synonym activity_table = "(string \<times> activity_state) list"

record activity_snapshot =
  snap_puts :: u32
  snap_gets :: u32
  snap_replicas :: u32
  reclaim_installed :: bool

fun counter :: "activity_kind \<Rightarrow> activity_state \<Rightarrow> u32" where
  "counter Put s = puts s"
| "counter Get s = gets s"
| "counter Replica s = replicas s"

fun set_counter :: "activity_kind \<Rightarrow> u32 \<Rightarrow> activity_state \<Rightarrow> activity_state" where
  "set_counter Put n s = s\<lparr>puts := n\<rparr>"
| "set_counter Get n s = s\<lparr>gets := n\<rparr>"
| "set_counter Replica n s = s\<lparr>replicas := n\<rparr>"

definition state_or_default :: "activity_table \<Rightarrow> string \<Rightarrow> activity_state" where
  "state_or_default t key = (case map_of t key of None \<Rightarrow> activity_default | Some s \<Rightarrow> s)"

text \<open>\<open>reserve\<close>: the new table, and whether a lease is handed out. The entry is created
  before the checks, as \<open>entry(..).or_default()\<close> does.\<close>

definition activity_reserve ::
  "activity_table \<Rightarrow> string \<Rightarrow> activity_kind \<Rightarrow> bool \<Rightarrow> (activity_table \<times> bool) option" where
  "activity_reserve t key kind reject_same_kind_if_active =
     (let s = state_or_default t key; t' = AList.update key s t
      in if reclaim s \<noteq> None then Some (t', False)
         else if reject_same_kind_if_active \<and> 0 < counter kind s then Some (t', False)
         else do { n \<leftarrow> checked_add u32_bound (counter kind s) 1;
                   Some (AList.update key (set_counter kind n s) t', True) })"

definition state_idle :: "activity_state \<Rightarrow> bool" where
  "state_idle s \<longleftrightarrow> puts s = 0 \<and> gets s = 0 \<and> replicas s = 0"

definition activity_release :: "activity_table \<Rightarrow> string \<Rightarrow> activity_kind \<Rightarrow> activity_table option" where
  "activity_release t key kind =
     do { s \<leftarrow> map_of t key;
          n \<leftarrow> checked_sub (counter kind s) 1;
          (let s' = set_counter kind n s
           in Some (if state_idle s' \<and> reclaim s' = None then AList.delete key t
                    else AList.update key s' t)) }"

definition try_install_reclaim ::
  "activity_table \<Rightarrow> owner_reclaim_item \<Rightarrow> activity_table \<times> (activity_snapshot + unit)" where
  "try_install_reclaim t item =
     (let s = state_or_default t (item_key item); t' = AList.update (item_key item) s t
      in if puts s \<noteq> 0 \<or> gets s \<noteq> 0 \<or> replicas s \<noteq> 0 \<or> reclaim s \<noteq> None
         then (t', Inl \<lparr>snap_puts = puts s, snap_gets = gets s, snap_replicas = replicas s,
                        reclaim_installed = (reclaim s \<noteq> None)\<rparr>)
         else (AList.update (item_key item) (s\<lparr>reclaim := Some item\<rparr>) t', Inr ()))"

definition is_quiescent :: "activity_table \<Rightarrow> string \<Rightarrow> bool" where
  "is_quiescent t key =
     (case map_of t key of None \<Rightarrow> True | Some s \<Rightarrow> state_idle s \<and> reclaim s = None)"

definition reclaim_matches :: "activity_table \<Rightarrow> owner_reclaim_item \<Rightarrow> bool" where
  "reclaim_matches t item =
     (case map_of t (item_key item) of None \<Rightarrow> False | Some s \<Rightarrow> reclaim s = Some item)"

definition clear_reclaim :: "activity_table \<Rightarrow> owner_reclaim_item \<Rightarrow> activity_table \<times> bool" where
  "clear_reclaim t item =
     (case map_of t (item_key item) of
        None \<Rightarrow> (t, False)
      | Some s \<Rightarrow>
          if reclaim s \<noteq> Some item then (t, False)
          else (if state_idle s then AList.delete (item_key item) t
                else AList.update (item_key item) (s\<lparr>reclaim := None\<rparr>) t, True))"

record activity_observe_snapshot =
  active_keys :: u64
  put_keys :: u64
  get_keys :: u64
  replica_keys :: u64
  reclaim_keys :: u64
  inflight_puts :: u64
  inflight_gets :: u64
  inflight_replicas :: u64

definition observe_snapshot :: "activity_table \<Rightarrow> activity_observe_snapshot" where
  "observe_snapshot t =
     fold (\<lambda>s o'. o'\<lparr>
         put_keys := put_keys o' + (if puts s \<noteq> 0 then 1 else 0),
         get_keys := get_keys o' + (if gets s \<noteq> 0 then 1 else 0),
         replica_keys := replica_keys o' + (if replicas s \<noteq> 0 then 1 else 0),
         reclaim_keys := reclaim_keys o' + (if reclaim s \<noteq> None then 1 else 0),
         inflight_puts := saturating_add u64_bound (inflight_puts o') (puts s),
         inflight_gets := saturating_add u64_bound (inflight_gets o') (gets s),
         inflight_replicas := saturating_add u64_bound (inflight_replicas o') (replicas s)\<rparr>)
       (map snd t)
       \<lparr>active_keys = length t, put_keys = 0, get_keys = 0, replica_keys = 0, reclaim_keys = 0,
        inflight_puts = 0, inflight_gets = 0, inflight_replicas = 0\<rparr>"

subsection \<open>Leases and the interleaving of their holders\<close>

text \<open>Where the one thread that won the compare-exchange of \<open>release_now\<close> stands.\<close>

datatype release_phase = NotReleased | ClearingPins | ReleasingTable | ReleaseDone

record activity_lease =
  lease_key :: string
  lease_kind :: activity_kind
  cache_pins :: "nat list"
  released :: bool
  phase :: release_phase

record activity_system =
  states :: activity_table
  leases :: "activity_lease list"

datatype activity_event =
    Reserve string activity_kind bool
  | AttachCachePin nat nat
  | ReleaseCompareExchange nat
  | ReleaseClearPins nat
  | ReleaseTable nat
  | InstallReclaim owner_reclaim_item
  | ClearReclaim owner_reclaim_item

definition new_lease :: "string \<Rightarrow> activity_kind \<Rightarrow> activity_lease" where
  "new_lease key kind =
     \<lparr>lease_key = key, lease_kind = kind, cache_pins = [], released = False,
      phase = NotReleased\<rparr>"

definition attach_cache_pin :: "activity_lease \<Rightarrow> nat \<Rightarrow> activity_lease" where
  "attach_cache_pin l pin = (if released l then l else l\<lparr>cache_pins := cache_pins l @ [pin]\<rparr>)"

definition release_compare_exchange :: "activity_lease \<Rightarrow> activity_lease" where
  "release_compare_exchange l =
     (if released l then l else l\<lparr>released := True, phase := ClearingPins\<rparr>)"

fun activity_step :: "activity_system \<Rightarrow> activity_event \<Rightarrow> activity_system option" where
  "activity_step sys (Reserve key kind reject) =
     do { (t, ok) \<leftarrow> activity_reserve (states sys) key kind reject;
          Some (sys\<lparr>states := t,
                    leases := (if ok then leases sys @ [new_lease key kind] else leases sys)\<rparr>) }"
| "activity_step sys (AttachCachePin i pin) =
     Some (if i < length (leases sys)
           then sys\<lparr>leases := (leases sys)[i := attach_cache_pin (leases sys ! i) pin]\<rparr>
           else sys)"
| "activity_step sys (ReleaseCompareExchange i) =
     Some (if i < length (leases sys)
           then sys\<lparr>leases := (leases sys)[i := release_compare_exchange (leases sys ! i)]\<rparr>
           else sys)"
| "activity_step sys (ReleaseClearPins i) =
     Some (if i < length (leases sys) \<and> phase (leases sys ! i) = ClearingPins
           then sys\<lparr>leases := (leases sys)
                  [i := (leases sys ! i)\<lparr>cache_pins := [], phase := ReleasingTable\<rparr>]\<rparr>
           else sys)"
| "activity_step sys (ReleaseTable i) =
     (if i < length (leases sys) \<and> phase (leases sys ! i) = ReleasingTable
      then do { t \<leftarrow> activity_release (states sys) (lease_key (leases sys ! i))
                      (lease_kind (leases sys ! i));
                Some (sys\<lparr>states := t,
                          leases := (leases sys)[i := (leases sys ! i)\<lparr>phase := ReleaseDone\<rparr>]\<rparr>) }
      else Some sys)"
| "activity_step sys (InstallReclaim item) =
     Some (sys\<lparr>states := fst (try_install_reclaim (states sys) item)\<rparr>)"
| "activity_step sys (ClearReclaim item) =
     Some (sys\<lparr>states := fst (clear_reclaim (states sys) item)\<rparr>)"

fun activity_run :: "activity_system \<Rightarrow> activity_event list \<Rightarrow> activity_system option" where
  "activity_run sys [] = Some sys"
| "activity_run sys (e # es) = do { sys' \<leftarrow> activity_step sys e; activity_run sys' es }"

definition activity_init :: activity_system where
  "activity_init = \<lparr>states = [], leases = []\<rparr>"

subsection \<open>Prepared gets\<close>

text \<open>\<open>PreparedGetRequesterTable\<close>: at most one prepared get per key and requester. A
  lease's \<open>release_now\<close> is again two critical sections.\<close>

type_synonym prepared_get_key = "string \<times> string"

record prepared_get_lease =
  identity :: prepared_get_key
  get_id :: u64
  prepared_released :: bool
  table_left :: bool

record prepared_get_system =
  active :: "prepared_get_key \<Rightarrow> u64 option"
  prepared_leases :: "prepared_get_lease list"

definition prepared_reserve ::
  "prepared_get_system \<Rightarrow> string \<Rightarrow> string \<Rightarrow> u64 \<Rightarrow> prepared_get_system" where
  "prepared_reserve p key requester g =
     (if active p (key, requester) \<noteq> None then p
      else p\<lparr>active := (active p)((key, requester) \<mapsto> g),
             prepared_leases := prepared_leases p @
               [\<lparr>identity = (key, requester), get_id = g, prepared_released = False,
                 table_left = False\<rparr>]\<rparr>)"

definition prepared_release_swap :: "prepared_get_system \<Rightarrow> nat \<Rightarrow> prepared_get_system" where
  "prepared_release_swap p i =
     (if i < length (prepared_leases p)
      then p\<lparr>prepared_leases :=
               (prepared_leases p)[i := (prepared_leases p ! i)\<lparr>prepared_released := True\<rparr>]\<rparr>
      else p)"

definition prepared_release_table :: "prepared_get_system \<Rightarrow> nat \<Rightarrow> prepared_get_system" where
  "prepared_release_table p i =
     (if i < length (prepared_leases p) \<and> prepared_released (prepared_leases p ! i) \<and>
         \<not> table_left (prepared_leases p ! i)
      then (let l = prepared_leases p ! i
            in p\<lparr>active := (if active p (identity l) = Some (get_id l)
                            then (active p)(identity l := None) else active p),
                 prepared_leases := (prepared_leases p)[i := l\<lparr>table_left := True\<rparr>]\<rparr>)
      else p)"

datatype prepared_event =
  PreparedReserve string string u64 | PreparedSwap nat | PreparedLeave nat

fun prepared_step :: "prepared_event \<Rightarrow> prepared_get_system \<Rightarrow> prepared_get_system" where
  "prepared_step (PreparedReserve key requester g) p = prepared_reserve p key requester g"
| "prepared_step (PreparedSwap i) p = prepared_release_swap p i"
| "prepared_step (PreparedLeave i) p = prepared_release_table p i"

definition prepared_init :: prepared_get_system where
  "prepared_init = \<lparr>active = Map.empty, prepared_leases = []\<rparr>"

definition prepared_run :: "prepared_event list \<Rightarrow> prepared_get_system" where
  "prepared_run es = fold prepared_step es prepared_init"

section \<open>Invariant\<close>

text \<open>A lease is outstanding until its release has reached the table.\<close>

definition holds_key :: "string \<Rightarrow> activity_kind \<Rightarrow> activity_lease \<Rightarrow> bool" where
  "holds_key key kind l \<longleftrightarrow> lease_key l = key \<and> lease_kind l = kind \<and> phase l \<noteq> ReleaseDone"

definition outstanding :: "activity_lease list \<Rightarrow> string \<Rightarrow> activity_kind \<Rightarrow> nat" where
  "outstanding ls key kind = length (filter (holds_key key kind) ls)"

definition lease_ok :: "activity_lease \<Rightarrow> bool" where
  "lease_ok l \<longleftrightarrow> (phase l = NotReleased \<longleftrightarrow> \<not> released l) \<and>
     (phase l = ReleasingTable \<or> phase l = ReleaseDone \<longrightarrow> cache_pins l = [])"

definition state_ok :: "string \<Rightarrow> activity_state \<Rightarrow> bool" where
  "state_ok key s \<longleftrightarrow> \<not> (state_idle s \<and> reclaim s = None) \<and>
     (\<forall>item. reclaim s = Some item \<longrightarrow> state_idle s \<and> item_key item = key)"

definition activity_inv :: "activity_system \<Rightarrow> bool" where
  "activity_inv sys \<longleftrightarrow>
     distinct (map fst (states sys)) \<and>
     (\<forall>key s. map_of (states sys) key = Some s \<longrightarrow> state_ok key s) \<and>
     (\<forall>key kind. counter kind (state_or_default (states sys) key) = outstanding (leases sys) key kind) \<and>
     (\<forall>l \<in> set (leases sys). lease_ok l)"

lemma counter_set_counter [simp]:
  "counter kind (set_counter kind' n s) = (if kind = kind' then n else counter kind s)"
  by (cases kind; cases kind') simp_all

lemma reclaim_set_counter [simp]: "reclaim (set_counter kind n s) = reclaim s"
  by (cases kind) simp_all

lemma counter_reclaim_update [simp]: "counter kind (s\<lparr>reclaim := r\<rparr>) = counter kind s"
  by (cases kind) simp_all

lemma counter_default [simp]: "counter kind activity_default = 0"
  by (cases kind) (simp_all add: activity_default_def)

lemma reclaim_default [simp]: "reclaim activity_default = None"
  by (simp add: activity_default_def)

lemma state_idle_counter: "state_idle s \<longleftrightarrow> (\<forall>kind. counter kind s = 0)"
proof
  assume "state_idle s"
  then show "\<forall>kind. counter kind s = 0"
    using counter.elims by (metis state_idle_def)
next
  assume "\<forall>kind. counter kind s = 0"
  then have "counter Put s = 0" "counter Get s = 0" "counter Replica s = 0" by blast+
  then show "state_idle s" by (simp add: state_idle_def)
qed

lemma state_or_default_update [simp]:
  "state_or_default (AList.update k s t) key = (if key = k then s else state_or_default t key)"
  by (simp add: state_or_default_def update_conv')

lemma state_or_default_delete [simp]:
  "state_or_default (AList.delete k t) key =
     (if key = k then activity_default else state_or_default t key)"
  by (simp add: state_or_default_def delete_conv')

lemma state_or_default_Some: "map_of t key = Some s \<Longrightarrow> state_or_default t key = s"
  by (simp add: state_or_default_def)

lemma distinct_keys_alist [simp]:
  "distinct (map fst t) \<Longrightarrow> distinct (map fst (AList.update k s t))"
  "distinct (map fst t) \<Longrightarrow> distinct (map fst (AList.delete k t))"
  by (simp_all add: distinct_update distinct_delete)

lemma outstanding_append:
  "outstanding (ls @ [new_lease k kd]) key kind =
     outstanding ls key kind + of_bool (k = key \<and> kd = kind)"
  by (auto simp: outstanding_def holds_key_def new_lease_def)

lemma outstanding_update_same:
  "i < length ls \<Longrightarrow> (\<And>key kind. holds_key key kind l = holds_key key kind (ls ! i)) \<Longrightarrow>
   outstanding (ls[i := l]) key kind = outstanding ls key kind"
  unfolding outstanding_def by (rule length_filter_update_same) auto

lemma outstanding_le: "outstanding ls key kind \<le> length ls"
  by (simp add: outstanding_def)

lemma outstanding_release:
  assumes "i < length ls" and "phase (ls ! i) \<noteq> ReleaseDone"
  shows "outstanding (ls[i := (ls ! i)\<lparr>phase := ReleaseDone\<rparr>]) key kind =
         outstanding ls key kind - of_bool (lease_key (ls ! i) = key \<and> lease_kind (ls ! i) = kind)"
  using length_filter_update [OF assms(1), of "holds_key key kind" "(ls ! i)\<lparr>phase := ReleaseDone\<rparr>"]
    assms(2)
  by (auto simp: outstanding_def holds_key_def split: if_splits)

lemma outstanding_pos:
  assumes "i < length ls" and "phase (ls ! i) \<noteq> ReleaseDone"
  shows "0 < outstanding ls (lease_key (ls ! i)) (lease_kind (ls ! i))"
proof -
  have "ls ! i \<in> set (filter (holds_key (lease_key (ls ! i)) (lease_kind (ls ! i))) ls)"
    using assms by (simp add: holds_key_def)
  then show ?thesis unfolding outstanding_def using length_pos_if_in_set by fast
qed

lemma lease_ok_steps [simp]:
  "lease_ok (new_lease key kind)"
  "lease_ok l \<Longrightarrow> lease_ok (attach_cache_pin l pin)"
  "lease_ok l \<Longrightarrow> lease_ok (release_compare_exchange l)"
  "lease_ok l \<Longrightarrow> phase l = ClearingPins \<Longrightarrow>
   lease_ok (l\<lparr>cache_pins := [], phase := ReleasingTable\<rparr>)"
  "lease_ok l \<Longrightarrow> phase l = ReleasingTable \<Longrightarrow> lease_ok (l\<lparr>phase := ReleaseDone\<rparr>)"
  by (auto simp: lease_ok_def new_lease_def attach_cache_pin_def release_compare_exchange_def)

lemma holds_key_steps [simp]:
  "holds_key key kind (attach_cache_pin l pin) = holds_key key kind l"
  "lease_ok l \<Longrightarrow> holds_key key kind (release_compare_exchange l) = holds_key key kind l"
  "phase l = ClearingPins \<Longrightarrow>
   holds_key key kind (l\<lparr>cache_pins := [], phase := ReleasingTable\<rparr>) = holds_key key kind l"
  by (auto simp: holds_key_def attach_cache_pin_def release_compare_exchange_def lease_ok_def)

section \<open>Every step preserves the invariant\<close>

definition table_inv :: "activity_table \<Rightarrow> activity_lease list \<Rightarrow> bool" where
  "table_inv t ls \<longleftrightarrow>
     distinct (map fst t) \<and>
     (\<forall>key s. map_of t key = Some s \<longrightarrow> state_ok key s) \<and>
     (\<forall>key kind. counter kind (state_or_default t key) = outstanding ls key kind)"

lemma activity_inv_table:
  "activity_inv sys \<longleftrightarrow> table_inv (states sys) (leases sys) \<and> (\<forall>l \<in> set (leases sys). lease_ok l)"
  by (auto simp: activity_inv_def table_inv_def)

lemma table_inv_cong:
  "table_inv t ls \<Longrightarrow> (\<And>key kind. outstanding ls' key kind = outstanding ls key kind) \<Longrightarrow>
   table_inv t ls'"
  by (simp add: table_inv_def)

lemma table_inv_state:
  assumes "table_inv t ls"
  shows "\<And>key kind. counter kind (state_or_default t key) = outstanding ls key kind"
    and "\<And>key item. reclaim (state_or_default t key) = Some item \<Longrightarrow>
           state_idle (state_or_default t key) \<and> item_key item = key"
    and "\<And>key. map_of t key = None \<longleftrightarrow>
           state_idle (state_or_default t key) \<and> reclaim (state_or_default t key) = None"
proof -
  note inv = assms [unfolded table_inv_def]
  show "counter kind (state_or_default t key) = outstanding ls key kind" for key kind
    using inv by blast
  show "state_idle (state_or_default t key) \<and> item_key item = key"
    if "reclaim (state_or_default t key) = Some item" for key item
    using that inv by (cases "map_of t key") (auto simp: state_or_default_def state_ok_def)
  show "map_of t key = None \<longleftrightarrow>
      state_idle (state_or_default t key) \<and> reclaim (state_or_default t key) = None" for key
    using inv
    by (cases "map_of t key") (auto simp: state_or_default_def state_ok_def state_idle_counter)
qed

lemma table_inv_update:
  assumes "table_inv t ls" and "state_ok key s"
    and "\<And>k kd. outstanding ls' k kd = (if k = key then counter kd s else outstanding ls k kd)"
  shows "table_inv (AList.update key s t) ls'"
  using assms by (simp add: table_inv_def update_conv')

lemma table_inv_delete:
  assumes "table_inv t ls"
    and "\<And>k kd. outstanding ls' k kd = (if k = key then 0 else outstanding ls k kd)"
  shows "table_inv (AList.delete key t) ls'"
  using assms by (simp add: table_inv_def delete_conv')

lemma table_inv_touch:
  assumes inv: "table_inv t ls"
    and busy: "\<not> (state_idle (state_or_default t key) \<and> reclaim (state_or_default t key) = None)"
  shows "table_inv (AList.update key (state_or_default t key) t) ls"
proof (rule table_inv_update [OF inv])
  show "state_ok key (state_or_default t key)"
    using busy table_inv_state(2) [OF inv, of key] by (auto simp: state_ok_def)
qed (simp add: table_inv_state(1) [OF inv])

lemma activity_reserve_inv:
  assumes inv: "table_inv t ls" and room: "Suc (length ls) < u32_bound"
  shows "\<exists>t' ok. activity_reserve t key kind reject = Some (t', ok) \<and>
     table_inv t' (if ok then ls @ [new_lease key kind] else ls)"
proof -
  let ?s = "state_or_default t key"
  have count: "counter kind ?s = outstanding ls key kind"
    by (rule table_inv_state(1) [OF inv])
  consider (refused) "reclaim ?s \<noteq> None \<or> (reject \<and> 0 < counter kind ?s)"
    | (granted) "reclaim ?s = None" "\<not> (reject \<and> 0 < counter kind ?s)"
    by blast
  then show ?thesis
  proof cases
    case refused
    then have "\<not> (state_idle ?s \<and> reclaim ?s = None)"
      by (metis state_idle_counter less_numeral_extra(3))
    note table_inv_touch [OF inv this]
    moreover have "activity_reserve t key kind reject = Some (AList.update key ?s t, False)"
      unfolding activity_reserve_def Let_def using refused by argo
    ultimately show ?thesis by auto
  next
    case granted
    let ?s' = "set_counter kind (counter kind ?s + 1) ?s"
    have ok: "checked_add u32_bound (counter kind ?s) 1 = Some (counter kind ?s + 1)"
      unfolding count checked_add_Some using outstanding_le [of ls key kind] room by linarith
    have not_idle: "\<not> state_idle ?s'"
      by (cases kind) (simp_all add: state_idle_def)
    have "state_ok key ?s'"
      using granted(1) not_idle by (simp add: state_ok_def)
    then have "table_inv (AList.update key ?s' t) (ls @ [new_lease key kind])"
      by (rule table_inv_update [OF inv])
        (simp add: outstanding_append table_inv_state(1) [OF inv])
    moreover have "activity_reserve t key kind reject = Some (AList.update key ?s' t, True)"
      using granted ok by (simp add: activity_reserve_def Let_def update_last)
    ultimately show ?thesis by auto
  qed
qed

lemma activity_release_inv:
  assumes inv: "table_inv t ls" and i: "i < length ls" "phase (ls ! i) \<noteq> ReleaseDone"
  shows "\<exists>t'. activity_release t (lease_key (ls ! i)) (lease_kind (ls ! i)) = Some t' \<and>
     table_inv t' (ls[i := (ls ! i)\<lparr>phase := ReleaseDone\<rparr>])"
proof -
  let ?k = "lease_key (ls ! i)" and ?kd = "lease_kind (ls ! i)"
  let ?s = "state_or_default t ?k"
  have pos: "0 < counter ?kd ?s"
    using outstanding_pos [OF i] table_inv_state(1) [OF inv] by simp
  then have "\<not> state_idle ?s" by (auto simp: state_idle_counter)
  then obtain s where s: "map_of t ?k = Some s" "?s = s"
    using table_inv_state(3) [OF inv, of ?k] by (auto simp: state_or_default_def)
  have none: "reclaim s = None"
    using table_inv_state(2) [OF inv, of ?k] s \<open>\<not> state_idle ?s\<close> by (cases "reclaim s") auto
  let ?s' = "set_counter ?kd (counter ?kd s - 1) s"
  note out = outstanding_release [OF i] table_inv_state(1) [OF inv, symmetric]
  have cnt: "outstanding (ls[i := (ls ! i)\<lparr>phase := ReleaseDone\<rparr>]) k kd =
      (if k = ?k then counter kd ?s' else outstanding ls k kd)" for k kd
    using s by (simp add: out)
  have "table_inv (if state_idle ?s' then AList.delete ?k t else AList.update ?k ?s' t)
          (ls[i := (ls ! i)\<lparr>phase := ReleaseDone\<rparr>])"
  proof (cases "state_idle ?s'")
    case True
    with cnt have "outstanding (ls[i := (ls ! i)\<lparr>phase := ReleaseDone\<rparr>]) k kd =
        (if k = ?k then 0 else outstanding ls k kd)" for k kd
      by (simp only: state_idle_counter simp_thms split: if_split)
    from table_inv_delete [OF inv this] True show ?thesis by simp
  next
    case False
    with none have "state_ok ?k ?s'" by (simp add: state_ok_def)
    from table_inv_update [OF inv this cnt] False show ?thesis by simp
  qed
  with s pos none show ?thesis
    by (auto simp: activity_release_def Let_def machine_arith checked_sub_def)
qed

lemma try_install_reclaim_inv:
  assumes inv: "table_inv t ls"
  shows "table_inv (fst (try_install_reclaim t item)) ls"
proof (cases "state_idle (state_or_default t (item_key item)) \<and>
              reclaim (state_or_default t (item_key item)) = None")
  case True
  let ?s = "state_or_default t (item_key item)"
  have "state_ok (item_key item) (?s\<lparr>reclaim := Some item\<rparr>)"
    using True by (simp add: state_ok_def state_idle_def)
  then have "table_inv (AList.update (item_key item) (?s\<lparr>reclaim := Some item\<rparr>) t) ls"
    by (rule table_inv_update [OF inv]) (simp add: table_inv_state(1) [OF inv])
  with True show ?thesis by (simp add: try_install_reclaim_def Let_def state_idle_def update_last)
next
  case False
  from table_inv_touch [OF inv False] False show ?thesis
    by (auto simp: try_install_reclaim_def Let_def state_idle_def)
qed

lemma clear_reclaim_inv:
  assumes inv: "table_inv t ls"
  shows "table_inv (fst (clear_reclaim t item)) ls"
proof (cases "map_of t (item_key item)")
  case (Some s)
  show ?thesis
  proof (cases "reclaim s = Some item")
    case True
    then have idle: "state_idle s"
      using table_inv_state(2) [OF inv, of "item_key item"] Some by (auto simp: state_or_default_def)
    then have "outstanding ls (item_key item) kind = 0" for kind
      using Some table_inv_state(1) [OF inv, of kind "item_key item"]
      by (simp add: state_or_default_def state_idle_counter)
    then have "table_inv (AList.delete (item_key item) t) ls"
      by (intro table_inv_delete [OF inv]) simp
    with Some True idle show ?thesis by (simp add: clear_reclaim_def)
  qed (use Some inv in \<open>simp add: clear_reclaim_def\<close>)
qed (use inv in \<open>simp add: clear_reclaim_def\<close>)

lemma activity_step_inv:
  assumes inv: "activity_inv sys" and room: "Suc (length (leases sys)) < u32_bound"
  shows "\<exists>sys'. activity_step sys e = Some sys' \<and> activity_inv sys' \<and>
     length (leases sys') \<le> Suc (length (leases sys))"
proof -
  have tab: "table_inv (states sys) (leases sys)"
    and ok: "\<And>l. l \<in> set (leases sys) \<Longrightarrow> lease_ok l"
    using inv by (auto simp: activity_inv_table)
  have upd: "activity_inv (sys\<lparr>leases := (leases sys)[i := l]\<rparr>)"
    if "i < length (leases sys)" "lease_ok l"
      "\<And>key kind. holds_key key kind l = holds_key key kind (leases sys ! i)" for i l
    using that ok table_inv_cong [OF tab outstanding_update_same [OF that(1,3)]]
    by (auto simp: activity_inv_table dest: set_update_subset_insert [THEN subsetD])
  show ?thesis
  proof (cases e)
    case (Reserve key kind reject)
    from activity_reserve_inv [OF tab room, of key kind reject] obtain t' granted where
      "activity_reserve (states sys) key kind reject = Some (t', granted)"
      "table_inv t' (if granted then leases sys @ [new_lease key kind] else leases sys)"
      by blast
    with Reserve ok show ?thesis by (auto simp: activity_inv_table)
  next
    case (AttachCachePin i pin)
    with inv ok upd [of i "attach_cache_pin (leases sys ! i) pin"] show ?thesis by auto
  next
    case (ReleaseCompareExchange i)
    with inv ok upd [of i "release_compare_exchange (leases sys ! i)"] show ?thesis by auto
  next
    case (ReleaseClearPins i)
    with inv ok upd [of i "(leases sys ! i)\<lparr>cache_pins := [], phase := ReleasingTable\<rparr>"]
    show ?thesis by auto
  next
    case (ReleaseTable i)
    show ?thesis
    proof (cases "i < length (leases sys) \<and> phase (leases sys ! i) = ReleasingTable")
      case True
      then have "i < length (leases sys)" "phase (leases sys ! i) \<noteq> ReleaseDone" by auto
      from activity_release_inv [OF tab this] obtain t' where
        "activity_release (states sys) (lease_key (leases sys ! i)) (lease_kind (leases sys ! i)) = Some t'"
        "table_inv t' ((leases sys)[i := (leases sys ! i)\<lparr>phase := ReleaseDone\<rparr>])"
        by blast
      with ReleaseTable True ok show ?thesis
        by (auto simp: activity_inv_table dest: set_update_subset_insert [THEN subsetD])
    qed (use ReleaseTable inv in auto)
  next
    case (InstallReclaim item)
    with tab ok try_install_reclaim_inv [OF tab, of item] show ?thesis
      by (simp add: activity_inv_table)
  next
    case (ClearReclaim item)
    with tab ok clear_reclaim_inv [OF tab, of item] show ?thesis
      by (simp add: activity_inv_table)
  qed
qed

lemma activity_run_inv:
  "activity_inv sys \<Longrightarrow> length (leases sys) + length es < u32_bound \<Longrightarrow>
   \<exists>sys'. activity_run sys es = Some sys' \<and> activity_inv sys'"
proof (induction es arbitrary: sys)
  case (Cons e es)
  then have "Suc (length (leases sys)) < u32_bound" by simp
  from activity_step_inv [OF Cons.prems(1) this, of e] obtain sys' where
    "activity_step sys e = Some sys'" "activity_inv sys'"
    "length (leases sys') \<le> Suc (length (leases sys))"
    by blast
  with Cons.IH [of sys'] Cons.prems(2) show ?case by simp
qed simp

lemma activity_run_leases:
  "activity_run sys es = Some sys' \<Longrightarrow> length (leases sys') \<le> length (leases sys) + length es"
proof (induction es arbitrary: sys)
  case (Cons e es)
  then obtain sys1 where step: "activity_step sys e = Some sys1" "activity_run sys1 es = Some sys'"
    by (auto simp: bind_option_Some)
  then have "length (leases sys1) \<le> Suc (length (leases sys))"
    by (cases e) (auto simp: bind_option_Some split: if_splits)
  with Cons.IH [OF step(2)] show ?case by simp
qed simp

lemma activity_inv_init: "activity_inv activity_init"
  by (simp add: activity_inv_def activity_init_def state_or_default_def outstanding_def)

section \<open>The reclaim fence\<close>

lemma reclaim_matches_default:
  "reclaim_matches t item \<longleftrightarrow> reclaim (state_or_default t (item_key item)) = Some item"
  by (auto simp: reclaim_matches_def state_or_default_def split: option.split)

lemma activity_reserve_fenced:
  assumes "activity_reserve t key kind reject = Some (t', ok)"
    and "reclaim (state_or_default t k) = Some item"
  shows "reclaim (state_or_default t' k) = Some item"
  using assms by (auto simp: activity_reserve_def Let_def bind_option_Some split: if_splits)

lemma activity_release_fenced:
  assumes "activity_release t key kind = Some t'" and "reclaim (state_or_default t k) = Some item"
  shows "reclaim (state_or_default t' k) = Some item"
  using assms
  by (auto simp: activity_release_def Let_def bind_option_Some state_or_default_Some split: if_splits)

lemma try_install_reclaim_fenced:
  assumes "reclaim (state_or_default t k) = Some item"
  shows "reclaim (state_or_default (fst (try_install_reclaim t item')) k) = Some item"
  using assms by (auto simp: try_install_reclaim_def Let_def)

lemma clear_reclaim_fenced:
  assumes "reclaim (state_or_default t (item_key item)) = Some item" and "item' \<noteq> item"
  shows "reclaim (state_or_default (fst (clear_reclaim t item')) (item_key item)) = Some item"
  using assms
  by (auto simp: clear_reclaim_def state_or_default_Some split: option.split)

lemma activity_step_fenced:
  assumes "activity_step sys e = Some sys'" and "reclaim_matches (states sys) item"
    and "e \<noteq> ClearReclaim item"
  shows "reclaim_matches (states sys') item"
  using assms
  by (cases e)
    (auto simp: reclaim_matches_default bind_option_Some try_install_reclaim_fenced
       clear_reclaim_fenced activity_reserve_fenced activity_release_fenced split: if_splits)

lemma activity_run_fenced:
  "activity_run sys es = Some sys' \<Longrightarrow> reclaim_matches (states sys) item \<Longrightarrow>
   ClearReclaim item \<notin> set es \<Longrightarrow> reclaim_matches (states sys') item"
proof (induction es arbitrary: sys)
  case (Cons e es)
  then obtain sys1 where "activity_step sys e = Some sys1" "activity_run sys1 es = Some sys'"
    by (auto simp: bind_option_Some)
  with Cons activity_step_fenced [of sys e sys1 item] show ?case by auto
qed simp

lemma activity_run_append:
  "activity_run sys (es @ es') = do { sys' \<leftarrow> activity_run sys es; activity_run sys' es' }"
  by (induction es arbitrary: sys) (auto split: Option.bind_split)

section \<open>Totals of the metrics snapshot\<close>

fun inflight :: "activity_kind \<Rightarrow> activity_observe_snapshot \<Rightarrow> u64" where
  "inflight Put o' = inflight_puts o'"
| "inflight Get o' = inflight_gets o'"
| "inflight Replica o' = inflight_replicas o'"

lemma inflight_fold:
  "inflight kind (fold (\<lambda>s o'. o'\<lparr>
         put_keys := p s o', get_keys := g s o', replica_keys := r s o', reclaim_keys := c s o',
         inflight_puts := saturating_add u64_bound (inflight_puts o') (puts s),
         inflight_gets := saturating_add u64_bound (inflight_gets o') (gets s),
         inflight_replicas := saturating_add u64_bound (inflight_replicas o') (replicas s)\<rparr>) ss o0) =
   fold (\<lambda>s n. saturating_add u64_bound n (counter kind s)) ss (inflight kind o0)"
  by (induction ss arbitrary: o0; cases kind) simp_all

lemma fold_saturating_add:
  "n + sum_list (map f xs) < bound \<Longrightarrow>
   fold (\<lambda>s n. saturating_add bound n (f s)) xs n = n + sum_list (map f xs)"
  by (induction xs arbitrary: n) (simp_all add: machine_arith)

lemma sum_outstanding:
  assumes "finite K" and "\<And>l. l \<in> set ls \<Longrightarrow> phase l \<noteq> ReleaseDone \<Longrightarrow> lease_key l \<in> K"
  shows "(\<Sum>k\<in>K. outstanding ls k kind) =
         length (filter (\<lambda>l. lease_kind l = kind \<and> phase l \<noteq> ReleaseDone) ls)"
  using assms(2)
proof (induction ls)
  case Nil
  then show ?case by (simp add: outstanding_def)
next
  case (Cons l ls)
  have split: "outstanding (l # ls) k kind = of_bool (holds_key k kind l) + outstanding ls k kind" for k
    by (simp add: outstanding_def)
  have "(\<Sum>k\<in>K. of_bool (holds_key k kind l)) =
      (if lease_kind l = kind \<and> phase l \<noteq> ReleaseDone then 1 else 0 :: nat)"
  proof (cases "lease_kind l = kind \<and> phase l \<noteq> ReleaseDone")
    case True
    then have "holds_key k kind l \<longleftrightarrow> k = lease_key l" for k by (auto simp: holds_key_def)
    then have "(\<Sum>k\<in>K. of_bool (holds_key k kind l)) = (\<Sum>k\<in>K. if k = lease_key l then 1 else 0 :: nat)"
      by (simp add: of_bool_def)
    also have "\<dots> = 1" using True Cons.prems [of l] assms(1) by (simp add: sum.delta)
    finally show ?thesis using True by simp
  qed (auto simp: holds_key_def)
  with Cons show ?case by (simp add: split sum.distrib)
qed

lemma inflight_outstanding:
  assumes inv: "activity_inv sys" and small: "length (leases sys) < u64_bound"
  shows "inflight kind (observe_snapshot (states sys)) =
     length (filter (\<lambda>l. lease_kind l = kind \<and> phase l \<noteq> ReleaseDone) (leases sys))"
    (is "_ = ?n")
proof -
  let ?t = "states sys" and ?ls = "leases sys"
  have tab: "table_inv ?t ?ls" using inv by (simp add: activity_inv_table)
  have keys: "lease_key l \<in> set (map fst ?t)" if "l \<in> set ?ls" "phase l \<noteq> ReleaseDone" for l
  proof (rule ccontr)
    assume "lease_key l \<notin> set (map fst ?t)"
    then have "map_of ?t (lease_key l) = None" by (simp add: map_of_eq_None_iff)
    then have "outstanding ?ls (lease_key l) (lease_kind l) = 0"
      using table_inv_state(1) [OF tab, of "lease_kind l" "lease_key l"]
      by (simp add: state_or_default_def)
    then show False using that by (auto simp: outstanding_def holds_key_def filter_empty_conv)
  qed
  have dist: "distinct (map fst ?t)" using tab by (simp add: table_inv_def)
  have "sum_list (map (counter kind) (map snd ?t)) =
      sum_list (map (\<lambda>k. outstanding ?ls k kind) (map fst ?t))"
    unfolding map_map o_def table_inv_state(1) [OF tab, symmetric]
    by (intro arg_cong [of _ _ sum_list] map_cong refl)
      (auto simp: state_or_default_def map_of_is_SomeI [OF dist] split_beta)
  also have "\<dots> = (\<Sum>k\<in>set (map fst ?t). outstanding ?ls k kind)"
    using dist by (rule sum_list_distinct_conv_sum_set)
  also have "\<dots> = ?n"
    using keys by (intro sum_outstanding) auto
  finally have total: "sum_list (map (counter kind) (map snd ?t)) = ?n" .
  have "?n < u64_bound" using small le_less_trans [OF length_filter_le] by blast
  then have "fold (\<lambda>s n. saturating_add u64_bound n (counter kind s)) (map snd ?t) 0 = ?n"
    using fold_saturating_add [of 0 "counter kind" "map snd ?t" u64_bound] total by simp
  then show ?thesis
    unfolding observe_snapshot_def inflight_fold by (cases kind) simp_all
qed

section \<open>Prepared gets\<close>

text \<open>The lease at a position, while its release has not reached the table.\<close>

definition prepared_live :: "prepared_get_system \<Rightarrow> nat \<Rightarrow> (prepared_get_key \<times> u64) option" where
  "prepared_live p i =
     (if i < length (prepared_leases p) \<and> \<not> table_left (prepared_leases p ! i)
      then Some (identity (prepared_leases p ! i), get_id (prepared_leases p ! i)) else None)"

definition prepared_inv :: "prepared_get_system \<Rightarrow> bool" where
  "prepared_inv p \<longleftrightarrow>
     (\<forall>key g. active p key = Some g \<longleftrightarrow> (\<exists>i. prepared_live p i = Some (key, g))) \<and>
     (\<forall>i j key g h. prepared_live p i = Some (key, g) \<longrightarrow> prepared_live p j = Some (key, h) \<longrightarrow> i = j)"

lemma prepared_live_reserve:
  "active p (key, requester) = None \<Longrightarrow>
   prepared_live (prepared_reserve p key requester g) =
     (prepared_live p)(length (prepared_leases p) \<mapsto> ((key, requester), g))"
  by (rule ext) (simp add: prepared_live_def prepared_reserve_def nth_append)

lemma prepared_live_swap: "prepared_live (prepared_release_swap p i) = prepared_live p"
  by (rule ext) (simp add: prepared_live_def prepared_release_swap_def nth_list_update)

lemma prepared_live_leave:
  "i < length (prepared_leases p) \<and> prepared_released (prepared_leases p ! i) \<and>
     \<not> table_left (prepared_leases p ! i) \<Longrightarrow>
   prepared_live (prepared_release_table p i) = (prepared_live p)(i := None)"
  by (rule ext)
    (simp add: prepared_live_def prepared_release_table_def Let_def nth_list_update)

lemma prepared_live_None: "prepared_live p (length (prepared_leases p)) = None"
  by (simp add: prepared_live_def)

lemma prepared_reserve_inv:
  assumes inv: "prepared_inv p"
  shows "prepared_inv (prepared_reserve p key requester g)"
proof (cases "active p (key, requester)")
  case None
  have free: "prepared_live p i \<noteq> Some ((key, requester), h)" for i h
    using None inv unfolding prepared_inv_def by (metis option.distinct(1))
  show ?thesis
    using inv free prepared_live_None [of p]
    unfolding prepared_inv_def prepared_live_reserve [OF None]
    by (auto simp: prepared_reserve_def None split: if_splits) (metis option.distinct(1))+
qed (use inv in \<open>simp add: prepared_reserve_def\<close>)

lemma prepared_release_swap_inv:
  assumes "prepared_inv p"
  shows "prepared_inv (prepared_release_swap p i)"
  using assms unfolding prepared_inv_def prepared_live_swap
  by (simp add: prepared_release_swap_def)

lemma prepared_release_table_inv:
  assumes inv: "prepared_inv p"
  shows "prepared_inv (prepared_release_table p i)"
proof (cases "i < length (prepared_leases p) \<and> prepared_released (prepared_leases p ! i) \<and>
    \<not> table_left (prepared_leases p ! i)")
  case True
  let ?l = "prepared_leases p ! i"
  have live: "prepared_live p i = Some (identity ?l, get_id ?l)"
    using True by (simp add: prepared_live_def)
  then have act: "active p (identity ?l) = Some (get_id ?l)"
    using inv unfolding prepared_inv_def by blast
  have other: "prepared_live p j = Some (identity ?l, h) \<Longrightarrow> j = i" for j h
    using inv live unfolding prepared_inv_def by blast
  have eq: "active (prepared_release_table p i) = (active p)(identity ?l := None)"
    using True act by (simp add: prepared_release_table_def Let_def)
  show ?thesis
    using inv other live unfolding prepared_inv_def prepared_live_leave [OF True] eq
    by (simp add: fun_upd_apply) (metis option.inject prod.inject)
qed (use inv in \<open>auto simp: prepared_release_table_def\<close>)

lemma prepared_run_inv: "prepared_inv p \<Longrightarrow> prepared_inv (fold prepared_step es p)"
proof (induction es arbitrary: p)
  case (Cons e es)
  then have "prepared_inv (prepared_step e p)"
    by (cases e) (simp_all add: prepared_reserve_inv prepared_release_swap_inv prepared_release_table_inv)
  with Cons.IH show ?case by simp
qed simp

lemma prepared_inv_init: "prepared_inv prepared_init"
  by (simp add: prepared_inv_def prepared_init_def prepared_live_def)

section \<open>Properties\<close>

text \<open>C4: from the empty table, every interleaving of fewer than \<open>2 ^ 32\<close> steps of
  reserving, pinning, releasing and reclaiming runs without a panic: no counter overflows or
  underflows and no release misses its state. In every state it reaches, each counter of a key
  is the number of outstanding leases of that kind; while a reclaim is installed on a key no
  lease of the key is outstanding; a key is in the table exactly when something is outstanding
  on it; and a lease whose release is finished holds no cache pin.\<close>

theorem activity_exclusion:
  assumes "length es < u32_bound"
  shows "\<exists>sys. activity_run activity_init es = Some sys \<and>
     (\<forall>key kind. counter kind (state_or_default (states sys) key) = outstanding (leases sys) key kind) \<and>
     (\<forall>key kind. reclaim (state_or_default (states sys) key) \<noteq> None \<longrightarrow>
        outstanding (leases sys) key kind = 0) \<and>
     (\<forall>key. is_quiescent (states sys) key \<longleftrightarrow> map_of (states sys) key = None) \<and>
     (\<forall>l \<in> set (leases sys). phase l = ReleaseDone \<longrightarrow> cache_pins l = [])"
proof -
  from activity_run_inv [OF activity_inv_init, of es] assms obtain sys where
    sys: "activity_run activity_init es = Some sys" "activity_inv sys"
    by (auto simp: activity_init_def)
  then have tab: "table_inv (states sys) (leases sys)" and ok: "\<forall>l \<in> set (leases sys). lease_ok l"
    by (auto simp: activity_inv_table)
  have "outstanding (leases sys) key kind = 0"
    if "reclaim (state_or_default (states sys) key) \<noteq> None" for key kind
    using that table_inv_state(1) [OF tab, of kind key] table_inv_state(2) [OF tab]
    by (metis not_None_eq state_idle_counter)
  moreover have "is_quiescent (states sys) key \<longleftrightarrow> map_of (states sys) key = None" for key
    using table_inv_state(3) [OF tab, of key]
    by (auto simp: is_quiescent_def state_or_default_def split: option.split)
  ultimately show ?thesis
    using sys(1) table_inv_state(1) [OF tab] ok by (auto simp: lease_ok_def)
qed

theorem activity_exclusion_witness:
  "\<exists>sys. activity_run activity_init
      [Reserve ''k'' Put False, AttachCachePin 0 7, ReleaseCompareExchange 0, AttachCachePin 0 8,
       ReleaseClearPins 0, ReleaseTable 0] = Some sys \<and>
     (\<forall>key. is_quiescent (states sys) key \<longleftrightarrow> map_of (states sys) key = None)"
  using activity_exclusion
    [of "[Reserve ''k'' Put False, AttachCachePin 0 7, ReleaseCompareExchange 0, AttachCachePin 0 8,
          ReleaseClearPins 0, ReleaseTable 0]"]
  by (auto simp del: activity_run.simps)

text \<open>C21: once a reclaim is installed on a key, no interleaving of further steps lifts the
  fence or hands out a lease of the key, short of clearing that very item: clearing an older
  or different item has no effect, and an operation on the key is refused.\<close>

theorem reclaim_fence_persists:
  assumes "activity_run activity_init es = Some sys" and "reclaim_matches (states sys) item"
    and "ClearReclaim item \<notin> set es'" and "length es + length es' < u32_bound"
  shows "\<exists>sys'. activity_run sys es' = Some sys' \<and> reclaim_matches (states sys') item \<and>
     (\<forall>kind. outstanding (leases sys') (item_key item) kind = 0)"
proof -
  from activity_run_inv [OF activity_inv_init, of "es @ es'"] assms(1,4) obtain sys' where
    run: "activity_run sys es' = Some sys'" and inv: "activity_inv sys'"
    by (auto simp: activity_init_def activity_run_append)
  have fence: "reclaim_matches (states sys') item"
    using activity_run_fenced [OF run assms(2,3)] .
  have tab: "table_inv (states sys') (leases sys')"
    using inv by (simp add: activity_inv_table)
  have "outstanding (leases sys') (item_key item) kind = 0" for kind
    using fence table_inv_state(1) [OF tab, of kind "item_key item"] table_inv_state(2) [OF tab]
    by (metis reclaim_matches_default state_idle_counter)
  with run fence show ?thesis by blast
qed

text \<open>An item for the witness.\<close>

definition sample_item :: "u64 \<Rightarrow> owner_reclaim_item" where
  "sample_item e = \<lparr>item_key = ''k'', item_put_id = (5, 0), item_epoch = e,
     item_backing = Allocation, item_reason = OwnerCapacityEviction\<rparr>"

theorem reclaim_fence_persists_witness:
  "\<exists>sys sys'. activity_run activity_init [InstallReclaim (sample_item 2)] = Some sys \<and>
     activity_run sys [Reserve ''k'' Get False, ClearReclaim (sample_item 1)] = Some sys' \<and>
     reclaim_matches (states sys') (sample_item 2)"
proof -
  let ?sys = "\<lparr>states = [(''k'', activity_default\<lparr>reclaim := Some (sample_item 2)\<rparr>)], leases = []\<rparr>"
  have run: "activity_run activity_init [InstallReclaim (sample_item 2)] = Some ?sys"
    by (simp add: activity_init_def try_install_reclaim_def state_or_default_def sample_item_def
        activity_default_def)
  moreover have "reclaim_matches (states ?sys) (sample_item 2)"
    by (simp add: reclaim_matches_def sample_item_def)
  moreover have "sample_item 1 \<noteq> sample_item 2" by (simp add: sample_item_def)
  ultimately show ?thesis
    using reclaim_fence_persists [OF run, of "sample_item 2"
        "[Reserve ''k'' Get False, ClearReclaim (sample_item 1)]"]
    by auto
qed

text \<open>C36: the inflight totals of the metrics snapshot are exactly the numbers of outstanding
  leases of each kind, in every state that fewer than \<open>2 ^ 32\<close> steps reach.\<close>

theorem observe_snapshot_totals:
  assumes "length es < u32_bound"
  shows "\<exists>sys. activity_run activity_init es = Some sys \<and>
     (\<forall>kind. inflight kind (observe_snapshot (states sys)) =
        length (filter (\<lambda>l. lease_kind l = kind \<and> phase l \<noteq> ReleaseDone) (leases sys)))"
proof -
  from activity_run_inv [OF activity_inv_init, of es] assms obtain sys where
    sys: "activity_run activity_init es = Some sys" "activity_inv sys"
    by (auto simp: activity_init_def)
  have "length (leases sys) < u64_bound"
    using activity_run_leases [OF sys(1)] assms by (simp add: activity_init_def)
  with sys inflight_outstanding show ?thesis by blast
qed

theorem observe_snapshot_totals_witness:
  "\<exists>sys. activity_run activity_init [Reserve ''k'' Get False, Reserve ''l'' Get False] = Some sys \<and>
     inflight Get (observe_snapshot (states sys)) =
       length (filter (\<lambda>l. lease_kind l = Get \<and> phase l \<noteq> ReleaseDone) (leases sys))"
  using observe_snapshot_totals [of "[Reserve ''k'' Get False, Reserve ''l'' Get False]"]
  by (auto simp del: activity_run.simps inflight.simps)

text \<open>C35: whatever the interleaving of reserving and releasing prepared gets, the table names
  for every key and requester exactly the get whose lease has not left the table, and there is
  at most one such lease.\<close>

theorem prepared_get_single:
  "(active (prepared_run es) key = Some g \<longleftrightarrow> (\<exists>i. prepared_live (prepared_run es) i = Some (key, g))) \<and>
     (prepared_live (prepared_run es) i = Some (key, g) \<and> prepared_live (prepared_run es) j = Some (key, h) \<longrightarrow>
        i = j \<and> g = h)"
proof -
  have "prepared_inv (prepared_run es)"
    unfolding prepared_run_def by (rule prepared_run_inv [OF prepared_inv_init])
  then show ?thesis unfolding prepared_inv_def by (metis option.inject prod.inject)
qed

theorem prepared_get_single_witness:
  "active (prepared_run [PreparedReserve ''k'' ''n'' 3, PreparedReserve ''k'' ''n'' 4])
     (''k'', ''n'') = Some 3"
  using prepared_get_single
    [of "[PreparedReserve ''k'' ''n'' 3, PreparedReserve ''k'' ''n'' 4]" "(''k'', ''n'')" 3 0 0 3]
  by (auto simp: prepared_run_def prepared_live_def prepared_reserve_def prepared_init_def)

end
