(* ===== verification/Owner_Segment.thy ===== *)
theory Owner_Segment
  imports Fluxon_Prelude
begin

text \<open>
  The owner-to-owner transfer protocol's shared vocabulary
  (\<open>fluxon_kv/src/owner_segment.rs\<close>): owner generations, physical slot descriptors, the
  capabilities that authorize one exact transfer, the request and response items, the caller's
  acknowledgement window per peer (\<open>OwnerTransferPeerTracker\<close>) and the replay loop after
  an ambiguous transport result (\<open>replay_owner_segment_batch_until_definitive\<close>).

  Errors keep their code; the human-readable detail text is not modelled. A \<open>BTreeSet\<close> is
  a list without duplicates; a \<open>DashMap\<close> is a partial function. The
  transport call of the replay loop and its liveness checks are parameters: the outcome of the
  attempts, by number.
\<close>

section \<open>Identities and slots\<close>

type_synonym node_id_string = string
type_synonym put_id_for_a_key = "u64 \<times> u32"

record owner_generation =
  gen_node_id :: node_id_string
  gen_node_start_time :: i64

definition owner_generation_is_initialized :: "owner_generation \<Rightarrow> bool" where
  "owner_generation_is_initialized g \<longleftrightarrow> gen_node_id g \<noteq> [] \<and> gen_node_start_time g \<noteq> 0"

datatype owner_slot_scope = LocalExclusiveScope | GlobalSharedScope

datatype owner_target_disposition =
  EphemeralCaller | LocalExclusive | GlobalShared | TransientSsdRead

datatype owner_transfer_op_kind = GetOp | PutOp | ReplicaAppendOp | SsdLoadOp | RepairOp

record owner_transfer_op_id =
  op_coordinator :: owner_generation
  op_sequence :: u64
  op_kind :: owner_transfer_op_kind

definition owner_transfer_op_id_is_initialized :: "owner_transfer_op_id \<Rightarrow> bool" where
  "owner_transfer_op_id_is_initialized o' \<longleftrightarrow>
     owner_generation_is_initialized (op_coordinator o') \<and> op_sequence o' \<noteq> 0"

record owner_lease_id =
  lease_owner :: owner_generation
  lease_sequence :: u64

definition owner_lease_id_is_initialized :: "owner_lease_id \<Rightarrow> bool" where
  "owner_lease_id_is_initialized l \<longleftrightarrow>
     owner_generation_is_initialized (lease_owner l) \<and> lease_sequence l \<noteq> 0"

record owner_slot_desc =
  slot_owner :: owner_generation
  slot_allocation_id :: u64
  slot_segment_offset :: u64
  slot_capacity_bytes :: u64
  slot_addr :: u64
  slot_base_addr :: u64
  slot_len :: u64
  slot_registration_epoch :: u64

definition slot_end_addr :: "owner_slot_desc \<Rightarrow> u64 option" where
  "slot_end_addr s = checked_add u64_bound (slot_addr s) (slot_capacity_bytes s)"

definition geometry_matches :: "owner_slot_desc \<Rightarrow> owner_slot_desc \<Rightarrow> bool" where
  "geometry_matches s other \<longleftrightarrow>
     slot_owner s = slot_owner other \<and>
     slot_allocation_id s = slot_allocation_id other \<and>
     slot_segment_offset s = slot_segment_offset other \<and>
     slot_capacity_bytes s = slot_capacity_bytes other \<and>
     slot_addr s = slot_addr other \<and>
     slot_base_addr s = slot_base_addr other"

definition slot_is_valid :: "owner_slot_desc \<Rightarrow> bool" where
  "slot_is_valid s \<longleftrightarrow>
     owner_generation_is_initialized (slot_owner s) \<and>
     slot_allocation_id s \<noteq> 0 \<and>
     slot_capacity_bytes s \<noteq> 0 \<and>
     slot_len s \<le> slot_capacity_bytes s \<and>
     slot_registration_epoch s \<noteq> 0 \<and>
     slot_addr s = (case checked_add u64_bound (slot_base_addr s) (slot_segment_offset s) of
                      None \<Rightarrow> u64_bound - 1
                    | Some a \<Rightarrow> a)"

record put_atomic_group_member =
  member_key :: string
  member_put_id :: put_id_for_a_key

type_synonym put_atomic_group = "put_atomic_group_member list"

section \<open>Capabilities\<close>

record owner_source_route_token =
  src_key :: string
  src_put_id :: put_id_for_a_key
  src_route_epoch :: u64
  src_source :: owner_slot_desc
  src_atomic_batch :: "put_atomic_group option"
  src_plan_nonce :: u64

record owner_source_read_capability =
  rc_operation :: owner_transfer_op_id
  rc_target_owner :: owner_generation
  rc_target_attempt :: u32
  rc_route :: owner_source_route_token

definition source_read_is_valid_for ::
  "owner_source_read_capability \<Rightarrow> owner_transfer_op_id \<Rightarrow> owner_generation \<Rightarrow> u32 \<Rightarrow> u64 \<Rightarrow> bool" where
  "source_read_is_valid_for c operation target_owner target_attempt len \<longleftrightarrow>
     rc_operation c = operation \<and>
     rc_target_owner c = target_owner \<and>
     rc_target_attempt c = target_attempt \<and>
     target_attempt \<noteq> 0 \<and>
     slot_owner (src_source (rc_route c)) = op_coordinator operation \<and>
     slot_is_valid (src_source (rc_route c)) \<and>
     slot_len (src_source (rc_route c)) = len \<and>
     src_route_epoch (rc_route c) \<noteq> 0 \<and>
     src_plan_nonce (rc_route c) = op_sequence operation"

record owner_ssd_source_route_token =
  ssd_key :: string
  ssd_put_id :: put_id_for_a_key
  ssd_owner :: owner_generation
  ssd_len :: u64
  ssd_atomic_batch :: "put_atomic_group option"
  ssd_plan_nonce :: u64

datatype owner_get_source_capability =
    InvalidSource
  | MemorySource owner_source_route_token
  | SsdSource owner_ssd_source_route_token

fun get_source_owner :: "owner_get_source_capability \<Rightarrow> owner_generation option" where
  "get_source_owner InvalidSource = None"
| "get_source_owner (MemorySource token) = Some (slot_owner (src_source token))"
| "get_source_owner (SsdSource token) = Some (ssd_owner token)"

fun get_source_len :: "owner_get_source_capability \<Rightarrow> u64" where
  "get_source_len InvalidSource = 0"
| "get_source_len (MemorySource token) = slot_len (src_source token)"
| "get_source_len (SsdSource token) = ssd_len token"

fun get_source_plan_nonce :: "owner_get_source_capability \<Rightarrow> u64" where
  "get_source_plan_nonce InvalidSource = 0"
| "get_source_plan_nonce (MemorySource token) = src_plan_nonce token"
| "get_source_plan_nonce (SsdSource token) = ssd_plan_nonce token"

record owner_target_route_token =
  tgt_key :: string
  tgt_put_id :: put_id_for_a_key
  tgt_operation :: owner_transfer_op_id
  tgt_target_owner :: owner_generation
  tgt_prior_route_epoch :: u64
  tgt_policy_epoch :: u64
  tgt_atomic_batch :: "put_atomic_group option"
  tgt_plan_nonce :: u64

datatype owner_route_commit_mode = AsyncCommit | SyncCommit

datatype owner_transfer_direction = RdmaRead | RdmaWrite | IpcCopy | LocalCopy | ZeroCopy

record owner_transfer_receipt =
  rcpt_completion_id :: u64
  rcpt_direction :: owner_transfer_direction
  rcpt_bytes :: u64
  rcpt_source :: "owner_slot_desc option"
  rcpt_target :: owner_slot_desc
  rcpt_source_registration_epoch :: u64
  rcpt_target_registration_epoch :: u64

record owner_target_write_capability =
  wc_operation :: owner_transfer_op_id
  wc_lease_id :: owner_lease_id
  wc_slot :: owner_slot_desc

definition target_write_is_valid_for ::
  "owner_target_write_capability \<Rightarrow> owner_transfer_op_id \<Rightarrow> u64 \<Rightarrow> bool" where
  "target_write_is_valid_for c operation len \<longleftrightarrow>
     wc_operation c = operation \<and>
     owner_lease_id_is_initialized (wc_lease_id c) \<and>
     lease_owner (wc_lease_id c) = slot_owner (wc_slot c) \<and>
     slot_is_valid (wc_slot c) \<and>
     slot_len (wc_slot c) = len \<and>
     len \<le> slot_capacity_bytes (wc_slot c)"

record owner_external_gpu_write_capability =
  gpu_operation :: owner_transfer_op_id
  gpu_requester :: owner_generation
  gpu_addr :: u64
  gpu_capacity_bytes :: u64
  gpu_registration_id :: u64

definition external_gpu_is_valid_for ::
  "owner_external_gpu_write_capability \<Rightarrow> owner_transfer_op_id \<Rightarrow> u64 \<Rightarrow> bool" where
  "external_gpu_is_valid_for c operation len \<longleftrightarrow>
     gpu_operation c = operation \<and>
     gpu_requester c = op_coordinator operation \<and>
     owner_generation_is_initialized (gpu_requester c) \<and>
     gpu_addr c \<noteq> 0 \<and>
     len \<le> gpu_capacity_bytes c \<and>
     checked_add u64_bound (gpu_addr c) (gpu_capacity_bytes c) \<noteq> None \<and>
     gpu_registration_id c \<noteq> 0"

datatype owner_get_destination_capability =
    InvalidDestination
  | OwnerSlot owner_target_write_capability
  | ExternalGpu owner_external_gpu_write_capability

fun destination_is_valid_for ::
  "owner_get_destination_capability \<Rightarrow> owner_transfer_op_id \<Rightarrow> u64 \<Rightarrow> bool" where
  "destination_is_valid_for InvalidDestination operation len = False"
| "destination_is_valid_for (OwnerSlot c) operation len = target_write_is_valid_for c operation len"
| "destination_is_valid_for (ExternalGpu c) operation len = external_gpu_is_valid_for c operation len"

record owner_get_transfer_receipt =
  get_rcpt_completion_id :: u64
  get_rcpt_direction :: owner_transfer_direction
  get_rcpt_bytes :: u64
  get_rcpt_source :: owner_slot_desc
  get_rcpt_destination :: owner_get_destination_capability

section \<open>Manifest entries\<close>

record owner_manifest_key =
  mk_key :: string
  mk_put_id :: put_id_for_a_key

datatype owner_slot_physical_state =
  ReservedPhysical | DataReadyPhysical | RoutePendingPhysical | CommittedPhysical | ReclaimingPhysical

record owner_slot_manifest_entry =
  me_key :: string
  me_put_id :: put_id_for_a_key
  me_slot :: owner_slot_desc
  me_scope :: "owner_slot_scope option"
  me_disposition :: owner_target_disposition
  me_route_epoch :: u64
  me_physical_state :: owner_slot_physical_state

section \<open>Items of a batch\<close>

datatype owner_transfer_outcome = TransferSuccess | TransferFailed | TransferCancelled

datatype owner_target_lease_state_view =
  PreparedView | DataReadyView | RoutePendingView | CommittedView | AbortedView

datatype owner_transfer_error_code =
    InvalidArgument | StaleGeneration | NotFound | Conflict | Busy | NoSpace | Reclaiming
  | RouteCommitRequired | Internal | StalePlan

record owner_transfer_item_error =
  err_code :: owner_transfer_error_code

datatype owner_segment_transfer_item =
    InvalidItem
  | GetToTarget owner_transfer_op_id owner_get_source_capability owner_get_destination_capability
  | PutFromSource owner_transfer_op_id u32 owner_target_route_token owner_source_read_capability
      owner_target_disposition owner_route_commit_mode
  | PrepareTarget owner_transfer_op_id owner_generation string put_id_for_a_key u64
      owner_target_disposition "put_atomic_group option"
  | CommitTarget owner_transfer_op_id owner_lease_id owner_transfer_receipt
      "owner_target_route_token option"
  | AbortTarget owner_transfer_op_id owner_lease_id string

fun item_op_id :: "owner_segment_transfer_item \<Rightarrow> owner_transfer_op_id option" where
  "item_op_id InvalidItem = None"
| "item_op_id (GetToTarget op _ _) = Some op"
| "item_op_id (PutFromSource op _ _ _ _ _) = Some op"
| "item_op_id (PrepareTarget op _ _ _ _ _ _) = Some op"
| "item_op_id (CommitTarget op _ _ _) = Some op"
| "item_op_id (AbortTarget op _ _) = Some op"

fun caches_replay_terminal :: "owner_segment_transfer_item \<Rightarrow> bool" where
  "caches_replay_terminal (GetToTarget _ _ _) = True"
| "caches_replay_terminal (PutFromSource _ _ _ _ _ _) = True"
| "caches_replay_terminal _ = False"

datatype owner_segment_transfer_outcome =
    InvalidOutcome
  | SourceAcquired owner_lease_id owner_slot_desc
  | SourceReleased
  | GetToTargetCompleted owner_get_transfer_receipt
  | PutFromSourceCompleted u32 owner_slot_desc owner_slot_desc owner_transfer_receipt u64
  | PutFromSourceAcceptedRoutePending u32 owner_slot_desc owner_slot_desc owner_transfer_receipt
  | TargetPrepared owner_lease_id owner_slot_desc owner_target_lease_state_view
  | TargetDataReady owner_lease_id owner_slot_desc
  | TargetCommitPending owner_lease_id owner_slot_desc
  | TargetCommitted owner_lease_id owner_slot_desc u64
  | TargetAborted
  | ErrorOutcome owner_transfer_item_error

abbreviation error_outcome :: "owner_transfer_error_code \<Rightarrow> owner_segment_transfer_outcome" where
  "error_outcome c \<equiv> ErrorOutcome \<lparr>err_code = c\<rparr>"

record owner_segment_transfer_item_resp =
  resp_terminal_sequence :: u64
  resp_op_id :: "owner_transfer_op_id option"
  resp_outcome :: owner_segment_transfer_outcome

record owner_segment_transfer_request_item =
  req_terminal_sequence :: u64
  req_item :: owner_segment_transfer_item

record owner_segment_transfer_req =
  req_caller_generation :: owner_generation
  req_ack_stream_id :: u64
  req_terminal_ack_watermark :: u64
  req_items :: "owner_segment_transfer_request_item list"

section \<open>The caller's acknowledgement window\<close>

record owner_transfer_ack_window =
  ack_mark :: u64
  completed_after_gap :: "u64 list"

record owner_transfer_peer_state =
  next_terminal_sequence :: u64
  ack :: owner_transfer_ack_window

definition peer_default :: owner_transfer_peer_state where
  "peer_default = \<lparr>next_terminal_sequence = 0, ack = \<lparr>ack_mark = 0, completed_after_gap = []\<rparr>\<rparr>"

record owner_transfer_peer_tracker =
  ack_stream_id :: u64
  peers :: "owner_generation \<Rightarrow> owner_transfer_peer_state option"

definition tracker_new :: "u64 \<Rightarrow> owner_transfer_peer_tracker option" where
  "tracker_new stream =
     do { assert_or_panic (stream \<noteq> 0); Some \<lparr>ack_stream_id = stream, peers = Map.empty\<rparr> }"

definition peer_or_default ::
  "owner_transfer_peer_tracker \<Rightarrow> owner_generation \<Rightarrow> owner_transfer_peer_state" where
  "peer_or_default t target = (case peers t target of None \<Rightarrow> peer_default | Some p \<Rightarrow> p)"

text \<open>The sequences of one batch: \<open>fetch_add\<close> wraps, the \<open>checked_add\<close> on its result panics.\<close>

fun number_items ::
  "u64 \<Rightarrow> owner_segment_transfer_item list \<Rightarrow>
   (u64 \<times> owner_segment_transfer_request_item list) option" where
  "number_items n [] = Some (n, [])"
| "number_items n (item # rest) =
     (if caches_replay_terminal item
      then do { terminal_sequence \<leftarrow> checked_add u64_bound n 1;
                (n', out) \<leftarrow> number_items (wrapping_add u64_bound n 1) rest;
                Some (n', \<lparr>req_terminal_sequence = terminal_sequence, req_item = item\<rparr> # out) }
      else do { (n', out) \<leftarrow> number_items n rest;
                Some (n', \<lparr>req_terminal_sequence = 0, req_item = item\<rparr> # out) })"

definition prepare_request ::
  "owner_transfer_peer_tracker \<Rightarrow> owner_generation \<Rightarrow> owner_generation \<Rightarrow>
   owner_segment_transfer_item list \<Rightarrow>
   (owner_transfer_peer_tracker \<times> owner_segment_transfer_req) option" where
  "prepare_request t caller target items =
     (let peer = peer_or_default t target in do {
        (n, out) \<leftarrow> number_items (next_terminal_sequence peer) items;
        Some (t\<lparr>peers := (peers t)(target \<mapsto> peer\<lparr>next_terminal_sequence := n\<rparr>)\<rparr>,
              \<lparr>req_caller_generation = caller, req_ack_stream_id = ack_stream_id t,
               req_terminal_ack_watermark = ack_mark (ack peer), req_items = out\<rparr>) })"

function advance :: "owner_transfer_ack_window \<Rightarrow> owner_transfer_ack_window" where
  "advance a =
     (case checked_add u64_bound (ack_mark a) 1 of
        None \<Rightarrow> a
      | Some next \<Rightarrow>
          if next \<in> set (completed_after_gap a)
          then advance (a\<lparr>completed_after_gap := removeAll next (completed_after_gap a), ack_mark := next\<rparr>)
          else a)"
  by pat_completeness auto
termination
  by (relation "measure (\<lambda>a. length (completed_after_gap a))") (auto intro!: length_removeAll_less)

declare advance.simps [simp del]

definition ack_watermark :: "owner_transfer_peer_tracker \<Rightarrow> owner_generation \<Rightarrow> u64" where
  "ack_watermark t target = (case peers t target of None \<Rightarrow> 0 | Some p \<Rightarrow> ack_mark (ack p))"

definition record_terminal ::
  "owner_transfer_peer_tracker \<Rightarrow> owner_generation \<Rightarrow> u64 \<Rightarrow> owner_transfer_peer_tracker \<times> u64" where
  "record_terminal t target terminal_sequence =
     (if terminal_sequence = 0 then (t, ack_watermark t target)
      else let peer = peer_or_default t target; a = ack peer in
           if terminal_sequence \<le> ack_mark a
           then (t\<lparr>peers := (peers t)(target \<mapsto> peer)\<rparr>, ack_mark a)
           else let a' = advance (a\<lparr>completed_after_gap :=
                                     List.insert terminal_sequence (completed_after_gap a)\<rparr>)
                in (t\<lparr>peers := (peers t)(target \<mapsto> peer\<lparr>ack := a'\<rparr>)\<rparr>, ack_mark a'))"

section \<open>Replaying an ambiguous batch\<close>

abbreviation OWNER_SEGMENT_TRANSFER_RETRY_INITIAL :: nat where
  "OWNER_SEGMENT_TRANSFER_RETRY_INITIAL \<equiv> 10"

abbreviation OWNER_SEGMENT_TRANSFER_RETRY_MAX :: nat where
  "OWNER_SEGMENT_TRANSFER_RETRY_MAX \<equiv> 1000"

text \<open>
  \<open>call i\<close> is the result of the \<open>i\<close>th attempt, \<open>is_running i\<close> and
  \<open>owner_is_current i\<close> what the liveness checks after it say; durations are milliseconds.
  The result carries the sleeps, in order.
\<close>

partial_function (option) replay_from ::
  "(nat \<Rightarrow> 'e + 'r) \<Rightarrow> (nat \<Rightarrow> bool) \<Rightarrow> (nat \<Rightarrow> bool) \<Rightarrow> nat \<Rightarrow> nat \<Rightarrow> nat list \<Rightarrow>
   (('e + 'r) \<times> nat list) option" where
  "replay_from call is_running owner_is_current i retry_delay sleeps =
     (case call i of
        Inr responses \<Rightarrow> Some (Inr responses, sleeps)
      | Inl error \<Rightarrow>
          if \<not> is_running i \<or> \<not> owner_is_current i then Some (Inl error, sleeps)
          else replay_from call is_running owner_is_current (Suc i)
                 (min (2 * retry_delay) OWNER_SEGMENT_TRANSFER_RETRY_MAX)
                 (sleeps @ [retry_delay]))"

definition replay_owner_segment_batch_until_definitive ::
  "(nat \<Rightarrow> 'e + 'r) \<Rightarrow> (nat \<Rightarrow> bool) \<Rightarrow> (nat \<Rightarrow> bool) \<Rightarrow> (('e + 'r) \<times> nat list) option" where
  "replay_owner_segment_batch_until_definitive call is_running owner_is_current =
     replay_from call is_running owner_is_current 0 OWNER_SEGMENT_TRANSFER_RETRY_INITIAL []"

end
