(* ===== verification/Small_Float.thy ===== *)
theory Small_Float
  imports Fluxon_Prelude
begin

unbundle bit_operations_syntax

text \<open>
  The size classes of the offset allocator (\<open>vendor/offset-allocator/src/small_float.rs\<close>
  and \<open>ext.rs\<close>): a block size is a tiny float with a three-bit mantissa, rounded up when a
  block is requested and rounded down when a free block is filed. The lemmas show that
  the two roundings are the lower and the upper adjoint of the size of a class, so that every
  block of a bin at or above the rounded-up request fits the request. The size of a class is the
  value of \<open>float_to_uint\<close> for the classes below 240; class 240, to which requests above
  \<open>0xF0000000\<close> are rounded, does not fit a \<open>u32\<close> and is decoded as 0.
\<close>

section \<open>Model\<close>

abbreviation MANTISSA_BITS :: nat where
  "MANTISSA_BITS \<equiv> 3"

abbreviation MANTISSA_VALUE :: nat where
  "MANTISSA_VALUE \<equiv> 8"

abbreviation MANTISSA_MASK :: nat where
  "MANTISSA_MASK \<equiv> 7"

text \<open>\<open>31 - leading_zeros\<close> of a positive 32-bit number.\<close>

fun highest_set_bit :: "nat \<Rightarrow> nat" where
  "highest_set_bit n = (if n < 2 then 0 else Suc (highest_set_bit (n div 2)))"

declare highest_set_bit.simps [simp del]

definition uint_to_float_round_up :: "nat \<Rightarrow> nat" where
  "uint_to_float_round_up sz =
     (if sz < MANTISSA_VALUE then sz
      else let mantissa_start_bit = highest_set_bit sz - MANTISSA_BITS;
               exp = mantissa_start_bit + 1;
               mantissa = drop_bit mantissa_start_bit sz AND MANTISSA_MASK;
               low_bits_mask = push_bit mantissa_start_bit 1 - 1;
               mantissa = (if sz AND low_bits_mask \<noteq> 0 then mantissa + 1 else mantissa)
           in push_bit MANTISSA_BITS exp + mantissa)"

definition uint_to_float_round_down :: "nat \<Rightarrow> nat" where
  "uint_to_float_round_down sz =
     (if sz < MANTISSA_VALUE then sz
      else let mantissa_start_bit = highest_set_bit sz - MANTISSA_BITS;
               exp = mantissa_start_bit + 1;
               mantissa = drop_bit mantissa_start_bit sz AND MANTISSA_MASK
           in push_bit MANTISSA_BITS exp OR mantissa)"

text \<open>The shift of a \<open>u32\<close> drops the bits that leave the word, and a shift by the width or more panics.\<close>

definition shl_u32 :: "u32 \<Rightarrow> nat \<Rightarrow> u32 option" where
  "shl_u32 x k = (if k < 32 then Some (take_bit 32 (push_bit k x)) else None)"

definition float_to_uint :: "u32 \<Rightarrow> u32 option" where
  "float_to_uint float_value =
     (let exponent = drop_bit MANTISSA_BITS float_value;
          mantissa = float_value AND MANTISSA_MASK
      in if exponent = 0 then Some mantissa else shl_u32 (mantissa OR MANTISSA_VALUE) (exponent - 1))"

definition min_allocator_size :: "u32 \<Rightarrow> u32 option" where
  "min_allocator_size needed_object_size =
     float_to_uint (uint_to_float_round_up needed_object_size)"

section \<open>Arithmetic form\<close>

lemma highest_set_bit_bounds:
  "0 < n \<Longrightarrow> 2 ^ highest_set_bit n \<le> n \<and> n < 2 ^ Suc (highest_set_bit n)"
proof (induction n rule: highest_set_bit.induct)
  case (1 n)
  show ?case
  proof (cases "n < 2")
    case True
    with 1 show ?thesis by (simp add: highest_set_bit.simps)
  next
    case False
    then have "0 < n div 2" by auto
    with 1 False have ih: "2 ^ highest_set_bit (n div 2) \<le> n div 2"
        "n div 2 < 2 * 2 ^ highest_set_bit (n div 2)" by auto
    have "highest_set_bit n = Suc (highest_set_bit (n div 2))"
      using False highest_set_bit.simps [of n] by simp
    then show ?thesis using ih by simp linarith
  qed
qed

lemma and_mantissa_mask: "n AND MANTISSA_MASK = n mod 8" for n :: nat
proof -
  have "n AND MANTISSA_MASK = take_bit 3 n"
    unfolding take_bit_eq_mask by (simp add: mask_eq_exp_minus_1)
  then show ?thesis by (simp add: take_bit_eq_mod)
qed

lemma or_disjoint_nat: "push_bit 3 e OR m = 8 * e + m" if "m < 8" for e m :: nat
proof -
  have "push_bit 3 e AND m = 0"
  proof (rule bit_eqI)
    fix i
    have "bit m i \<Longrightarrow> i < 3"
    proof (rule ccontr)
      assume "bit m i" "\<not> i < 3"
      then have "2 ^ i \<le> m" by (metis bit_nat_iff bit_iff_odd div_less even_zero not_less)
      moreover have "(2::nat) ^ 3 \<le> 2 ^ i" using \<open>\<not> i < 3\<close> by (intro power_increasing) auto
      ultimately show False using that by simp
    qed
    then show "bit (push_bit 3 e AND m) i = bit 0 i" by (auto simp: bit_and_iff bit_push_bit_iff)
  qed
  then show ?thesis by (simp add: disjunctive_add_eq_or [symmetric] push_bit_eq_mult)
qed

text \<open>The size a class stands for, without the width of the machine word.\<close>

definition class_size :: "nat \<Rightarrow> nat" where
  "class_size v = (if v < 8 then v else (8 + v mod 8) * 2 ^ (v div 8 - 1))"

lemmas class_size_arith = class_size_def

lemma float_to_uint_class:
  assumes "v < 8 * 33"
  shows "float_to_uint v = Some (class_size v mod u32_bound)"
proof -
  have m: "v mod 8 OR 8 = 8 + v mod 8"
    using or_disjoint_nat [of "v mod 8" 1] by (simp add: or.commute push_bit_eq_mult)
  have "v mod u32_bound = v" "v div 8 - 1 < 32" using assms by auto
  then show ?thesis
    by (simp add: float_to_uint_def shl_u32_def class_size_def Let_def and_mantissa_mask drop_bit_eq_div
        push_bit_eq_mult take_bit_eq_mod div_eq_0_iff m)
qed

lemma class_size_at:
  assumes "8 \<le> q" and "q \<le> 16"
  shows "class_size (8 * k + q) = q * 2 ^ k"
proof (cases "q = 16")
  case True
  have "8 * k + 16 = 8 * (k + 2) + (0 :: nat)" by simp
  then have "(8 * k + 16) div 8 = k + 2" "(8 * k + 16) mod 8 = 0" by simp_all
  with True show ?thesis by (simp add: class_size_arith)
next
  case False
  define r where "r = q - 8"
  with False assms have r: "r < 8" "q = 8 + r" by simp_all
  then have "8 * k + q = 8 * (k + 1) + r" by simp
  with r have "(8 * k + q) div 8 = k + 1" "(8 * k + q) mod 8 = r"
    by (simp_all only: div_mult_self4 mod_mult_self4 div_less mod_less add_0_right)
  with assms r show ?thesis by (simp add: class_size_arith)
qed

text \<open>The scale of a normalized size: \<open>2 ^ (k + 3) \<le> n < 2 ^ (k + 4)\<close>.\<close>

definition scale :: "nat \<Rightarrow> nat" where
  "scale n = highest_set_bit n - 3"

lemma scale_quotient:
  assumes "8 \<le> n"
  shows "8 \<le> n div 2 ^ scale n" and "n div 2 ^ scale n < 16"
proof -
  from assms highest_set_bit_bounds [of n]
  have b: "2 ^ highest_set_bit n \<le> n" "n < 2 ^ Suc (highest_set_bit n)" by auto
  have "3 \<le> highest_set_bit n"
  proof (rule ccontr)
    assume "\<not> 3 \<le> highest_set_bit n"
    then have "(2::nat) ^ Suc (highest_set_bit n) \<le> 2 ^ 3" by (intro power_increasing) auto
    with b assms show False by simp
  qed
  then have h: "highest_set_bit n = scale n + 3" by (simp add: scale_def)
  have "8 * 2 ^ scale n \<le> n" "n < 16 * 2 ^ scale n"
    using b unfolding h by (simp_all add: power_add)
  then show "8 \<le> n div 2 ^ scale n" "n div 2 ^ scale n < 16"
    by (simp_all add: less_eq_div_iff_mult_less_eq div_less_iff_less_mult)
qed

lemma round_down_arith:
  assumes "8 \<le> n"
  shows "uint_to_float_round_down n = 8 * scale n + n div 2 ^ scale n"
proof -
  let ?q = "n div 2 ^ scale n"
  have q: "8 \<le> ?q" "?q < 16" by (rule scale_quotient [OF assms])+
  then have "?q mod 8 = ?q - 8" by (simp add: mod_if [of ?q 8] mod_if [of "?q - 8" 8])
  with q assms or_disjoint_nat [of "?q - 8" "scale n + 1"] show ?thesis
    by (simp add: uint_to_float_round_down_def Let_def and_mantissa_mask drop_bit_eq_div
        scale_def [symmetric])
qed

lemma and_low_bits: "n AND (push_bit k 1 - 1) = n mod 2 ^ k" for n :: nat
  by (simp add: push_bit_eq_mult take_bit_eq_mod [symmetric] take_bit_eq_mask mask_eq_exp_minus_1)

lemma round_up_arith:
  assumes "8 \<le> n"
  shows "uint_to_float_round_up n =
     8 * scale n + (n div 2 ^ scale n + (if n mod 2 ^ scale n = 0 then 0 else 1))"
proof -
  let ?q = "n div 2 ^ scale n"
  have q: "8 \<le> ?q" "?q < 16" by (rule scale_quotient [OF assms])+
  then have "?q mod 8 = ?q - 8" by (simp add: mod_if [of ?q 8] mod_if [of "?q - 8" 8])
  with q assms show ?thesis
    unfolding uint_to_float_round_up_def Let_def and_low_bits
    by (simp add: and_mantissa_mask drop_bit_eq_div scale_def [symmetric] push_bit_eq_mult)
qed

section \<open>The roundings are adjoint to \<open>class_size\<close>\<close>

lemma class_size_Suc: "class_size v < class_size (Suc v)"
proof (cases "v < 8")
  case True
  then show ?thesis
    by (cases "v = 7") (auto simp: class_size_arith)
next
  case False
  define k where "k = v div 8 - 1"
  define q where "q = v mod 8 + 8"
  have "v div 8 = k + 1" using False by (simp add: k_def)
  then have v: "v = 8 * k + q" unfolding q_def using div_mult_mod_eq [of v 8] by simp
  have q: "8 \<le> q" "q \<le> 15" by (auto simp: q_def)
  have "Suc v = 8 * k + Suc q" using v by simp
  then show ?thesis
    using v q class_size_at [of q k] class_size_at [of "Suc q" k] by simp
qed

lemma class_size_less: "v < w \<Longrightarrow> class_size v < class_size w"
  by (rule lift_Suc_mono_less [where f = class_size]) (rule class_size_Suc)

lemma class_size_mono: "v \<le> w \<Longrightarrow> class_size v \<le> class_size w"
  using class_size_less [of v w] by (cases "v = w") auto

lemma round_down_bounds:
  "class_size (uint_to_float_round_down n) \<le> n"
  "n < class_size (Suc (uint_to_float_round_down n))"
proof -
  let ?k = "scale n"
  have "class_size (uint_to_float_round_down n) \<le> n \<and>
        n < class_size (Suc (uint_to_float_round_down n))"
  proof (cases "n < 8")
    case True
    then show ?thesis
      using class_size_Suc [of n]
      by (simp add: uint_to_float_round_down_def class_size_arith)
  next
    case False
    then have q: "8 \<le> n div 2 ^ ?k" "n div 2 ^ ?k < 16" by (auto intro: scale_quotient)
    have "n < Suc (n div 2 ^ ?k) * 2 ^ ?k"
      using div_mult_mod_eq [of n "2 ^ ?k"] mod_less_divisor [of "2 ^ ?k" n]
      by (simp del: mod_less_divisor)
    with q False show ?thesis
      using class_size_at [of "n div 2 ^ ?k" ?k] class_size_at [of "Suc (n div 2 ^ ?k)" ?k]
      by (simp add: round_down_arith)
  qed
  then show "class_size (uint_to_float_round_down n) \<le> n"
    "n < class_size (Suc (uint_to_float_round_down n))" by auto
qed

lemma round_up_bounds:
  "n \<le> class_size (uint_to_float_round_up n)"
  "0 < uint_to_float_round_up n \<Longrightarrow> class_size (uint_to_float_round_up n - 1) < n"
proof -
  let ?k = "scale n"
  have "n \<le> class_size (uint_to_float_round_up n) \<and>
        (0 < uint_to_float_round_up n \<longrightarrow> class_size (uint_to_float_round_up n - 1) < n)"
  proof (cases "n < 8")
    case True
    then show ?thesis
      by (auto simp: uint_to_float_round_up_def class_size_arith)
  next
    case False
    then have q: "8 \<le> n div 2 ^ ?k" "n div 2 ^ ?k < 16" by (auto intro: scale_quotient)
    have split: "n div 2 ^ ?k * 2 ^ ?k + n mod 2 ^ ?k = n" "n mod 2 ^ ?k < 2 ^ ?k"
      by (rule div_mult_mod_eq) simp
    show ?thesis
    proof (cases "n mod 2 ^ ?k = 0")
      case True
      then have up: "uint_to_float_round_up n = 8 * ?k + n div 2 ^ ?k"
        using False by (simp add: round_up_arith)
      have at: "class_size (8 * ?k + n div 2 ^ ?k) = n"
        using q split True by (simp add: class_size_at)
      then show ?thesis
        unfolding up using q class_size_less [of "8 * ?k + n div 2 ^ ?k - 1" "8 * ?k + n div 2 ^ ?k"]
        by simp
    next
      case nz: False
      then have up: "uint_to_float_round_up n = 8 * ?k + Suc (n div 2 ^ ?k)"
        using False by (simp add: round_up_arith)
      have "class_size (8 * ?k + Suc (n div 2 ^ ?k)) = Suc (n div 2 ^ ?k) * 2 ^ ?k"
        "class_size (8 * ?k + n div 2 ^ ?k) = n div 2 ^ ?k * 2 ^ ?k"
        using q by (simp_all only: class_size_at Suc_leI less_imp_le le_SucI)
      moreover have "n \<le> Suc (n div 2 ^ ?k) * 2 ^ ?k" "n div 2 ^ ?k * 2 ^ ?k < n"
        using split nz by (simp_all only: mult_Suc)
      ultimately show ?thesis unfolding up by simp
    qed
  qed
  then show "n \<le> class_size (uint_to_float_round_up n)"
    "0 < uint_to_float_round_up n \<Longrightarrow> class_size (uint_to_float_round_up n - 1) < n" by auto
qed

lemma round_down_galois: "v \<le> uint_to_float_round_down n \<longleftrightarrow> class_size v \<le> n"
proof
  assume "v \<le> uint_to_float_round_down n"
  then show "class_size v \<le> n"
    using class_size_mono round_down_bounds(1) [of n] le_trans by blast
next
  assume le: "class_size v \<le> n"
  show "v \<le> uint_to_float_round_down n"
  proof (rule ccontr)
    assume "\<not> v \<le> uint_to_float_round_down n"
    then have "class_size (Suc (uint_to_float_round_down n)) \<le> class_size v"
      by (intro class_size_mono) simp
    with le round_down_bounds(2) [of n] show False by simp
  qed
qed

lemma round_up_galois: "uint_to_float_round_up n \<le> v \<longleftrightarrow> n \<le> class_size v"
proof
  assume "uint_to_float_round_up n \<le> v"
  then show "n \<le> class_size v"
    using class_size_mono round_up_bounds(1) [of n] le_trans by blast
next
  assume le: "n \<le> class_size v"
  show "uint_to_float_round_up n \<le> v"
  proof (rule ccontr)
    assume up: "\<not> uint_to_float_round_up n \<le> v"
    then have "class_size v \<le> class_size (uint_to_float_round_up n - 1)"
      by (intro class_size_mono) simp
    with le up round_up_bounds(2) [of n] show False by simp
  qed
qed

text \<open>A block filed at or above the rounded-up request fits the request.\<close>

lemma bin_fits: "uint_to_float_round_up s \<le> uint_to_float_round_down z \<Longrightarrow> s \<le> z"
  using round_up_galois [of s "uint_to_float_round_down z"] round_down_bounds(1) [of z]
  by simp

lemma round_down_bin: "n < u32_bound \<Longrightarrow> uint_to_float_round_down n < 240"
proof (rule ccontr)
  assume n: "n < u32_bound" and "\<not> uint_to_float_round_down n < 240"
  then have "class_size 240 \<le> n" using round_down_galois [of 240 n] by simp
  with n show False by (simp add: class_size_arith)
qed

lemma round_up_bin: "n < u32_bound \<Longrightarrow> uint_to_float_round_up n \<le> 240"
  using round_up_galois [of n 240] by (simp add: class_size_arith)

text \<open>Below class 240 the decoded size is the size of the class; class 240 is decoded as 0.\<close>

lemma float_to_uint_fits: "v < 240 \<Longrightarrow> float_to_uint v = Some (class_size v)"
  using float_to_uint_class [of v] class_size_less [of v 240] by (simp add: class_size_arith)

lemma round_up_limit: "n < u32_bound \<Longrightarrow> uint_to_float_round_up n = 240 \<longleftrightarrow> 4026531840 < n"
  using round_up_galois [of n 239] round_up_bin [of n] by (auto simp: class_size_arith)

lemma min_allocator_size_fits: "n \<le> 4026531840 \<Longrightarrow> min_allocator_size n = Some (class_size (uint_to_float_round_up n))"
  using round_up_limit [of n] round_up_bin [of n] by (simp add: min_allocator_size_def float_to_uint_fits)

lemma min_allocator_size_beyond: "n < u32_bound \<Longrightarrow> 4026531840 < n \<Longrightarrow> min_allocator_size n = Some 0"
  using round_up_limit [of n] float_to_uint_class [of 240] by (simp add: min_allocator_size_def class_size_arith)

lemma round_down_class: "uint_to_float_round_down (class_size w) = w"
proof (rule antisym)
  show "w \<le> uint_to_float_round_down (class_size w)" by (simp add: round_down_galois)
  show "uint_to_float_round_down (class_size w) \<le> w"
  proof (rule ccontr)
    assume "\<not> uint_to_float_round_down (class_size w) \<le> w"
    then have "class_size w < class_size (uint_to_float_round_down (class_size w))" by (intro class_size_less) simp
    with round_down_bounds(1) [of "class_size w"] show False by simp
  qed
qed

section \<open>Properties\<close>

text \<open>C38: For the classes below 240, the ones a free block can be filed in, rounding a size down gives the
  largest class whose decoded size is at most the size, and rounding it up the smallest one whose
  decoded size is at least the size; a block filed by rounding down in a class at or above the
  rounded-up request is large enough for it. The advertised minimal allocator size is the decoded
  size of the rounded-up request up to \<open>0xF0000000\<close>, and 0 beyond it.\<close>

theorem size_class_adjoint:
  assumes "v < 240" "n < u32_bound" "z < u32_bound"
  shows "(\<exists>b. float_to_uint v = Some b \<and>
      (v \<le> uint_to_float_round_down n \<longleftrightarrow> b \<le> n) \<and> (uint_to_float_round_up n \<le> v \<longleftrightarrow> n \<le> b)) \<and>
    uint_to_float_round_down n < 240 \<and>
    (uint_to_float_round_down z < uint_to_float_round_up n \<or> n \<le> z) \<and>
    (if n \<le> 4026531840
     then \<exists>b. min_allocator_size n = Some b \<and> n \<le> b \<and> uint_to_float_round_down b = uint_to_float_round_up n
     else min_allocator_size n = Some 0)"
proof (intro conjI)
  show "\<exists>b. float_to_uint v = Some b \<and> (v \<le> uint_to_float_round_down n \<longleftrightarrow> b \<le> n) \<and>
      (uint_to_float_round_up n \<le> v \<longleftrightarrow> n \<le> b)"
    unfolding float_to_uint_fits [OF assms(1)] round_down_galois round_up_galois by blast
  show "uint_to_float_round_down n < 240" by (rule round_down_bin [OF assms(2)])
  show "uint_to_float_round_down z < uint_to_float_round_up n \<or> n \<le> z"
    using bin_fits [of n z] by linarith
  show "if n \<le> 4026531840
     then \<exists>b. min_allocator_size n = Some b \<and> n \<le> b \<and> uint_to_float_round_down b = uint_to_float_round_up n
     else min_allocator_size n = Some 0"
  proof (cases "n \<le> 4026531840")
    case True
    then show ?thesis by (simp add: min_allocator_size_fits round_up_bounds(1) round_down_class)
  next
    case False
    then have "min_allocator_size n = Some 0" using min_allocator_size_beyond [OF assms(2)] by simp
    with False show ?thesis by (simp only: if_False)
  qed
qed

theorem size_class_adjoint_witness:
  "uint_to_float_round_down 4026531841 < 240 \<and> min_allocator_size 4026531841 = Some 0"
proof -
  have "(239 :: nat) < 240" "(4026531841 :: nat) < u32_bound" "(0 :: nat) < u32_bound" "\<not> (4026531841 :: nat) \<le> 4026531840"
    by simp_all
  with size_class_adjoint [OF this(1-3)] show ?thesis by (simp only: if_False)
qed

end
