(* ===== verification/Offset_Allocator.thy ===== *)
theory Offset_Allocator
  imports Small_Float
begin

unbundle bit_operations_syntax

text \<open>
  The offset allocator (\<open>vendor/offset-allocator/src/lib.rs\<close>), which hands out regions of
  one contiguous segment: free blocks are filed by size class in 256 bins with a two-level
  bitmap, every bin is a doubly linked list through the nodes, all blocks form a second
  doubly linked list in address order, and unused nodes are a stack.

  The code's structure is kept: nodes live in a vector and point to each other by index. A
  bitmap is a natural number whose bits the code sets and clears; \<open>None\<close> as the result of
  an operation is a panic (an index out of range, an \<open>unwrap\<close> of nothing, an arithmetic
  overflow or underflow, a failed assertion).
\<close>

section \<open>Model\<close>

definition index_or_panic :: "'a list \<Rightarrow> nat \<Rightarrow> 'a option" where
  "index_or_panic xs i = (if i < length xs then Some (xs ! i) else None)"

abbreviation NUM_TOP_BINS :: nat where
  "NUM_TOP_BINS \<equiv> 32"

abbreviation NUM_LEAF_BINS :: nat where
  "NUM_LEAF_BINS \<equiv> 256"

abbreviation TOP_BINS_INDEX_SHIFT :: nat where
  "TOP_BINS_INDEX_SHIFT \<equiv> 3"

abbreviation LEAF_BINS_INDEX_MASK :: nat where
  "LEAF_BINS_INDEX_MASK \<equiv> 7"

record node =
  data_offset :: u32
  data_size :: u32
  bin_list_prev :: "nat option"
  bin_list_next :: "nat option"
  neighbor_prev :: "nat option"
  neighbor_next :: "nat option"
  used :: bool

definition node_default :: node where
  "node_default = \<lparr>data_offset = 0, data_size = 0, bin_list_prev = None, bin_list_next = None,
     neighbor_prev = None, neighbor_next = None, used = False\<rparr>"

record allocator =
  alloc_size :: u32
  max_allocs :: u32
  free_storage :: u32
  layout_revision :: u64
  used_bins_top :: nat
  used_bins :: "nat list"
  bin_indices :: "nat option list"
  nodes :: "node list"
  free_nodes :: "nat list"
  free_offset :: u32

record allocation =
  offset :: u32
  metadata :: nat

record storage_report_data =
  total_free_space :: u32
  largest_free_region :: u32

record exact_storage_report =
  exact_total_free_space :: u32
  exact_largest_free_region :: u32
  allocatable_slots :: u64
  free_regions :: u32

definition node_at :: "allocator \<Rightarrow> nat \<Rightarrow> node option" where
  "node_at a i = index_or_panic (nodes a) i"

definition update_node :: "allocator \<Rightarrow> nat \<Rightarrow> (node \<Rightarrow> node) \<Rightarrow> allocator option" where
  "update_node a i f =
     (if i < length (nodes a) then Some (a\<lparr>nodes := (nodes a)[i := f (nodes a ! i)]\<rparr>) else None)"

text \<open>Updating the node behind an optional link.\<close>

definition update_link :: "allocator \<Rightarrow> nat option \<Rightarrow> (node \<Rightarrow> node) \<Rightarrow> allocator option" where
  "update_link a link f = (case link of None \<Rightarrow> Some a | Some i \<Rightarrow> update_node a i f)"

text \<open>\<open>trailing_zeros\<close> of a number of the given width.\<close>

fun trailing_zeros :: "nat \<Rightarrow> nat \<Rightarrow> nat" where
  "trailing_zeros width n =
     (if n = 0 then width else if odd n then 0 else Suc (trailing_zeros (width - 1) (n div 2)))"

declare trailing_zeros.simps [simp del]

text \<open>The mask of the bits from the start index on clears the lower ones.\<close>

definition find_lowest_bit_set_after :: "nat \<Rightarrow> nat \<Rightarrow> nat option" where
  "find_lowest_bit_set_after bit_mask start_bit_index =
     (let bits_after = push_bit start_bit_index (drop_bit start_bit_index bit_mask)
      in if bits_after = 0 then None else Some (trailing_zeros 32 bits_after))"

definition next_layout_revision :: "allocator \<Rightarrow> u64 option" where
  "next_layout_revision a = checked_add u64_bound (layout_revision a) 1"

definition insert_node_into_bin :: "allocator \<Rightarrow> u32 \<Rightarrow> u32 \<Rightarrow> (allocator \<times> nat) option" where
  "insert_node_into_bin a sz offs =
     (let bin_index = uint_to_float_round_down sz;
          top_bin_index = drop_bit TOP_BINS_INDEX_SHIFT bin_index;
          leaf_bin_index = bin_index AND LEAF_BINS_INDEX_MASK
      in do {
        top_node_index \<leftarrow> index_or_panic (bin_indices a) bin_index;
        a \<leftarrow> (if top_node_index = None
              then do { leaf \<leftarrow> index_or_panic (used_bins a) top_bin_index;
                        Some (a\<lparr>used_bins := (used_bins a)[top_bin_index := set_bit leaf_bin_index leaf],
                                used_bins_top := set_bit top_bin_index (used_bins_top a)\<rparr>) }
              else Some a);
        node_index \<leftarrow> index_or_panic (free_nodes a) (free_offset a);
        fo \<leftarrow> checked_sub (free_offset a) 1;
        a \<leftarrow> update_node (a\<lparr>free_offset := fo\<rparr>) node_index
               (\<lambda>_. node_default\<lparr>data_offset := offs, data_size := sz, bin_list_next := top_node_index\<rparr>);
        a \<leftarrow> update_link a top_node_index (\<lambda>n. n\<lparr>bin_list_prev := Some node_index\<rparr>);
        fs \<leftarrow> checked_add u32_bound (free_storage a) sz;
        Some (a\<lparr>bin_indices := (bin_indices a)[bin_index := Some node_index], free_storage := fs\<rparr>,
              node_index) })"

text \<open>The bitmap update shared by \<open>allocate\<close> and \<open>remove_node_from_bin\<close> when the
  bin may have become empty.\<close>

definition clear_empty_bin :: "allocator \<Rightarrow> nat \<Rightarrow> nat \<Rightarrow> nat \<Rightarrow> allocator option" where
  "clear_empty_bin a bin_index top_bin_index leaf_bin_index =
     do { head \<leftarrow> index_or_panic (bin_indices a) bin_index;
          if head = None
          then do { leaf \<leftarrow> index_or_panic (used_bins a) top_bin_index;
                    (let leaf' = unset_bit leaf_bin_index leaf;
                         a = a\<lparr>used_bins := (used_bins a)[top_bin_index := leaf']\<rparr>
                     in Some (if leaf' = 0
                              then a\<lparr>used_bins_top := unset_bit top_bin_index (used_bins_top a)\<rparr>
                              else a)) }
          else Some a }"

definition push_free_node :: "allocator \<Rightarrow> nat \<Rightarrow> allocator option" where
  "push_free_node a node_index =
     do { fo \<leftarrow> checked_add u32_bound (free_offset a) 1;
          _ \<leftarrow> index_or_panic (free_nodes a) fo;
          Some (a\<lparr>free_offset := fo, free_nodes := (free_nodes a)[fo := node_index]\<rparr>) }"

definition remove_node_from_bin :: "allocator \<Rightarrow> nat \<Rightarrow> allocator option" where
  "remove_node_from_bin a node_index =
     do {
       node \<leftarrow> node_at a node_index;
       a \<leftarrow> (case bin_list_prev node of
               Some p \<Rightarrow>
                 do { a \<leftarrow> update_node a p (\<lambda>n. n\<lparr>bin_list_next := bin_list_next node\<rparr>);
                      update_link a (bin_list_next node) (\<lambda>n. n\<lparr>bin_list_prev := bin_list_prev node\<rparr>) }
             | None \<Rightarrow>
                 (let bin_index = uint_to_float_round_down (data_size node);
                      top_bin_index = drop_bit TOP_BINS_INDEX_SHIFT bin_index;
                      leaf_bin_index = bin_index AND LEAF_BINS_INDEX_MASK
                  in do { _ \<leftarrow> index_or_panic (bin_indices a) bin_index;
                          a \<leftarrow> update_link (a\<lparr>bin_indices := (bin_indices a)[bin_index := bin_list_next node]\<rparr>)
                                 (bin_list_next node) (\<lambda>n. n\<lparr>bin_list_prev := None\<rparr>);
                          clear_empty_bin a bin_index top_bin_index leaf_bin_index }));
       a \<leftarrow> push_free_node a node_index;
       fs \<leftarrow> checked_sub (free_storage a) (data_size node);
       Some (a\<lparr>free_storage := fs\<rparr>) }"

text \<open>The bin search of \<open>allocate\<close>: the first used leaf bin at or after the minimum bin.\<close>

definition find_bin :: "allocator \<Rightarrow> nat \<Rightarrow> (nat \<times> nat) option option" where
  "find_bin a min_bin_index =
     (let min_top_bin_index = drop_bit TOP_BINS_INDEX_SHIFT min_bin_index;
          min_leaf_bin_index = min_bin_index AND LEAF_BINS_INDEX_MASK
      in do {
        leaf_bin_index \<leftarrow>
          (if bit (used_bins_top a) min_top_bin_index
           then map_option (\<lambda>leaves. find_lowest_bit_set_after leaves min_leaf_bin_index)
                  (index_or_panic (used_bins a) min_top_bin_index)
           else Some None);
        case leaf_bin_index of
          Some leaf \<Rightarrow> Some (Some (min_top_bin_index, leaf))
        | None \<Rightarrow>
            (case find_lowest_bit_set_after (used_bins_top a) (min_top_bin_index + 1) of
               None \<Rightarrow> Some None
             | Some top_bin \<Rightarrow>
                 map_option (\<lambda>leaves. Some (top_bin, trailing_zeros 8 leaves))
                   (index_or_panic (used_bins a) top_bin)) })"

definition allocate :: "allocator \<Rightarrow> u32 \<Rightarrow> (allocator \<times> allocation option) option" where
  "allocate a sz =
     (if free_offset a = 0 then Some (a, None)
      else do {
        found \<leftarrow> find_bin a (uint_to_float_round_up sz);
        case found of
          None \<Rightarrow> Some (a, None)
        | Some (top_bin_index, leaf_bin_index) \<Rightarrow>
            (let bin_index = push_bit TOP_BINS_INDEX_SHIFT top_bin_index OR leaf_bin_index
             in do {
               head \<leftarrow> index_or_panic (bin_indices a) bin_index;
               node_index \<leftarrow> head;
               next_revision \<leftarrow> next_layout_revision a;
               node \<leftarrow> node_at a node_index;
               a \<leftarrow> update_node a node_index (\<lambda>n. n\<lparr>data_size := sz, used := True\<rparr>);
               a \<leftarrow> update_link (a\<lparr>bin_indices := (bin_indices a)[bin_index := bin_list_next node]\<rparr>)
                      (bin_list_next node) (\<lambda>n. n\<lparr>bin_list_prev := None\<rparr>);
               fs \<leftarrow> checked_sub (free_storage a) (data_size node);
               a \<leftarrow> clear_empty_bin (a\<lparr>free_storage := fs\<rparr>) bin_index top_bin_index leaf_bin_index;
               remainder_size \<leftarrow> checked_sub (data_size node) sz;
               a \<leftarrow> (if 0 < remainder_size
                     then do {
                       split_at \<leftarrow> checked_add u32_bound (data_offset node) sz;
                       (a, new_node_index) \<leftarrow> insert_node_into_bin a remainder_size split_at;
                       a \<leftarrow> update_link a (neighbor_next node)
                              (\<lambda>n. n\<lparr>neighbor_prev := Some new_node_index\<rparr>);
                       a \<leftarrow> update_node a new_node_index
                              (\<lambda>n. n\<lparr>neighbor_prev := Some node_index,
                                     neighbor_next := neighbor_next node\<rparr>);
                       update_node a node_index (\<lambda>n. n\<lparr>neighbor_next := Some new_node_index\<rparr>) }
                     else Some a);
               node' \<leftarrow> node_at a node_index;
               Some (a\<lparr>layout_revision := next_revision\<rparr>,
                     Some \<lparr>offset = data_offset node', metadata = node_index\<rparr>) }) })"

text \<open>\<open>free\<close>: merge with a free previous and a free next neighbor, then file the combined
  block under a node taken from the stack.\<close>

definition merge_prev :: "allocator \<Rightarrow> nat \<Rightarrow> u32 \<Rightarrow> u32 \<Rightarrow> (allocator \<times> u32 \<times> u32) option" where
  "merge_prev a node_index offs sz =
     do { node \<leftarrow> node_at a node_index;
          case neighbor_prev node of
            None \<Rightarrow> Some (a, offs, sz)
          | Some p \<Rightarrow>
              do { prev_node \<leftarrow> node_at a p;
                   if \<not> used prev_node
                   then do { sz' \<leftarrow> checked_add u32_bound sz (data_size prev_node);
                             a \<leftarrow> remove_node_from_bin a p;
                             removed \<leftarrow> node_at a p;
                             assert_or_panic (neighbor_next removed = Some node_index);
                             a \<leftarrow> update_node a node_index (\<lambda>n. n\<lparr>neighbor_prev := neighbor_prev removed\<rparr>);
                             Some (a, data_offset prev_node, sz') }
                   else Some (a, offs, sz) } }"

definition merge_next :: "allocator \<Rightarrow> nat \<Rightarrow> u32 \<Rightarrow> (allocator \<times> u32) option" where
  "merge_next a node_index sz =
     do { node \<leftarrow> node_at a node_index;
          case neighbor_next node of
            None \<Rightarrow> Some (a, sz)
          | Some q \<Rightarrow>
              do { next_node \<leftarrow> node_at a q;
                   if \<not> used next_node
                   then do { sz' \<leftarrow> checked_add u32_bound sz (data_size next_node);
                             a \<leftarrow> remove_node_from_bin a q;
                             removed \<leftarrow> node_at a q;
                             assert_or_panic (neighbor_prev removed = Some node_index);
                             a \<leftarrow> update_node a node_index (\<lambda>n. n\<lparr>neighbor_next := neighbor_next removed\<rparr>);
                             Some (a, sz') }
                   else Some (a, sz) } }"

definition free :: "allocator \<Rightarrow> allocation \<Rightarrow> allocator option" where
  "free a al =
     (let node_index = metadata al in do {
        node \<leftarrow> node_at a node_index;
        assert_or_panic (used node);
        next_revision \<leftarrow> next_layout_revision a;
        (a, offs, sz) \<leftarrow> merge_prev a node_index (data_offset node) (data_size node);
        (a, sz) \<leftarrow> merge_next a node_index sz;
        node \<leftarrow> node_at a node_index;
        a \<leftarrow> push_free_node a node_index;
        (a, combined_node_index) \<leftarrow> insert_node_into_bin a sz offs;
        a \<leftarrow> (case neighbor_next node of
                None \<Rightarrow> Some a
              | Some q \<Rightarrow>
                  do { a \<leftarrow> update_node a combined_node_index (\<lambda>n. n\<lparr>neighbor_next := Some q\<rparr>);
                       update_node a q (\<lambda>n. n\<lparr>neighbor_prev := Some combined_node_index\<rparr>) });
        a \<leftarrow> (case neighbor_prev node of
                None \<Rightarrow> Some a
              | Some p \<Rightarrow>
                  do { a \<leftarrow> update_node a combined_node_index (\<lambda>n. n\<lparr>neighbor_prev := Some p\<rparr>);
                       update_node a p (\<lambda>n. n\<lparr>neighbor_next := Some combined_node_index\<rparr>) });
        Some (a\<lparr>layout_revision := next_revision\<rparr>) })"

definition reset :: "allocator \<Rightarrow> allocator option" where
  "reset a =
     do { next_revision \<leftarrow> next_layout_revision a;
          fo \<leftarrow> checked_sub (max_allocs a) 1;
          (a, _) \<leftarrow> insert_node_into_bin
             (a\<lparr>free_storage := 0, used_bins_top := 0, free_offset := fo,
                used_bins := map (\<lambda>_. 0) (used_bins a),
                bin_indices := map (\<lambda>_. None) (bin_indices a),
                nodes := replicate (max_allocs a) node_default,
                free_nodes := map (\<lambda>i. max_allocs a - i - 1) [0..<max_allocs a]\<rparr>)
             (alloc_size a) 0;
          Some (a\<lparr>layout_revision := next_revision\<rparr>) }"

definition with_max_allocs :: "u32 \<Rightarrow> u32 \<Rightarrow> allocator option" where
  "with_max_allocs sz max_nodes =
     do { assert_or_panic (max_nodes < u32_bound - 1 - 1);
          reset \<lparr>alloc_size = sz, max_allocs = max_nodes, free_storage = 0, layout_revision = 0,
                 used_bins_top = 0, used_bins = replicate NUM_TOP_BINS 0,
                 bin_indices = replicate NUM_LEAF_BINS None, nodes = [], free_nodes = [],
                 free_offset = 0\<rparr> }"

definition allocation_size :: "allocator \<Rightarrow> allocation \<Rightarrow> u32" where
  "allocation_size a al =
     (if metadata al < length (nodes a) then data_size (nodes a ! metadata al) else 0)"

text \<open>The highest leaf of a used top bin is \<open>31 - leading_zeros\<close> of its leaves, which underflows
  when there is none.\<close>

definition storage_report :: "allocator \<Rightarrow> storage_report_data option" where
  "storage_report a =
     (if 0 < free_offset a
      then if 0 < used_bins_top a
           then do { leaves \<leftarrow> index_or_panic (used_bins a) (highest_set_bit (used_bins_top a));
                     assert_or_panic (leaves \<noteq> 0);
                     largest \<leftarrow> float_to_uint (push_bit TOP_BINS_INDEX_SHIFT (highest_set_bit (used_bins_top a))
                                               OR highest_set_bit leaves);
                     assert_or_panic (largest \<le> free_storage a);
                     Some \<lparr>total_free_space = free_storage a, largest_free_region = largest\<rparr> }
           else Some \<lparr>total_free_space = free_storage a, largest_free_region = 0\<rparr>
      else Some \<lparr>total_free_space = 0, largest_free_region = 0\<rparr>)"

text \<open>The walk of \<open>storage_report_for_size\<close> over one bin's list, which need not end in an
  arbitrary state.\<close>

partial_function (option) report_chain ::
  "allocator \<Rightarrow> u32 \<Rightarrow> nat option \<Rightarrow> exact_storage_report \<Rightarrow> exact_storage_report option" where
  "report_chain a sz next r =
     (case next of
        None \<Rightarrow> Some r
      | Some i \<Rightarrow>
          do { node \<leftarrow> node_at a i;
               assert_or_panic (\<not> used node);
               total \<leftarrow> checked_add u32_bound (exact_total_free_space r) (data_size node);
               slots \<leftarrow> checked_add u64_bound (allocatable_slots r) (data_size node div sz);
               regions \<leftarrow> checked_add u32_bound (free_regions r) (if 0 < data_size node then 1 else 0);
               report_chain a sz (bin_list_next node)
                 \<lparr>exact_total_free_space = total,
                  exact_largest_free_region = max (exact_largest_free_region r) (data_size node),
                  allocatable_slots = slots, free_regions = regions\<rparr> })"

fun report_bins ::
  "allocator \<Rightarrow> u32 \<Rightarrow> nat option list \<Rightarrow> exact_storage_report \<Rightarrow> exact_storage_report option" where
  "report_bins a sz [] r = Some r"
| "report_bins a sz (head # heads) r =
     do { r \<leftarrow> report_chain a sz head r; report_bins a sz heads r }"

definition storage_report_for_size :: "allocator \<Rightarrow> u32 \<Rightarrow> exact_storage_report option" where
  "storage_report_for_size a sz =
     do { assert_or_panic (0 < sz);
          report \<leftarrow> report_bins a sz (bin_indices a)
            \<lparr>exact_total_free_space = 0, exact_largest_free_region = 0, allocatable_slots = 0,
             free_regions = 0\<rparr>;
          assert_or_panic (exact_total_free_space report = free_storage a);
          Some report }"

end
