(* ===== verification/Offset_Allocator_Correct.thy ===== *)
theory Offset_Allocator_Correct
  imports Offset_Allocator
begin

unbundle bit_operations_syntax

text \<open>
  Correctness of the offset allocator: the representation invariant (the blocks tile the
  segment in address order, every free block is in the list of its bin, the bitmaps name the
  non-empty bins, the stack holds exactly the unused nodes), its preservation, the absence
  of panics, and the contract the clients use: the regions handed out and not yet freed are
  pairwise disjoint and inside the segment.
\<close>

section \<open>Doubly linked lists\<close>

definition first :: "'a list \<Rightarrow> 'a option \<Rightarrow> 'a option" where
  "first xs q = (case xs of [] \<Rightarrow> q | y # _ \<Rightarrow> Some y)"

definition final :: "'a option \<Rightarrow> 'a list \<Rightarrow> 'a option" where
  "final p xs = (if xs = [] then p else Some (last xs))"

lemma first_simps [simp]: "first [] q = q" "first (x # xs) q = Some x"
  by (simp_all add: first_def)

lemma final_simps [simp]:
  "final p [] = p" "final p (x # xs) = final (Some x) xs" "final p (xs @ [x]) = Some x"
  by (simp_all add: final_def)

lemma first_append: "first (xs @ ys) q = first xs (first ys q)"
  by (cases xs) simp_all

lemma final_append: "final p (xs @ ys) = final (final p xs) ys"
  by (simp add: final_def)

lemma first_None: "first xs None = None \<longleftrightarrow> xs = []"
  by (cases xs) simp_all

fun dll :: "(nat \<Rightarrow> nat option) \<Rightarrow> (nat \<Rightarrow> nat option) \<Rightarrow> nat option \<Rightarrow> nat list \<Rightarrow> nat option \<Rightarrow> bool" where
  "dll nx pv p [] q = True"
| "dll nx pv p (x # xs) q = (pv x = p \<and> nx x = first xs q \<and> dll nx pv (Some x) xs q)"

lemma dll_append:
  "dll nx pv p (xs @ ys) q \<longleftrightarrow> dll nx pv p xs (first ys q) \<and> dll nx pv (final p xs) ys q"
  by (induction xs arbitrary: p) (auto simp: first_append)

lemma dll_cong:
  "(\<And>x. x \<in> set xs \<Longrightarrow> nx x = nx' x \<and> pv x = pv' x) \<Longrightarrow> dll nx pv p xs q = dll nx' pv' p xs q"
  by (induction xs arbitrary: p) auto

text \<open>Changing only the link into the front, or only the link out of the back.\<close>

lemma dll_front:
  "dll nx pv p (x # xs) q \<Longrightarrow> x \<notin> set xs \<Longrightarrow>
   (\<And>y. y \<in> set xs \<Longrightarrow> nx' y = nx y \<and> pv' y = pv y) \<Longrightarrow> nx' x = nx x \<Longrightarrow>
   dll nx' pv' (pv' x) (x # xs) q"
  using dll_cong [of xs nx nx' pv pv'] by auto

lemma dll_back:
  "dll nx pv p (xs @ [x]) q \<Longrightarrow> x \<notin> set xs \<Longrightarrow>
   (\<And>y. y \<in> set xs \<Longrightarrow> nx' y = nx y \<and> pv' y = pv y) \<Longrightarrow> pv' x = pv x \<Longrightarrow>
   dll nx' pv' p (xs @ [x]) (nx' x)"
  using dll_cong [of xs nx nx' pv pv'] by (auto simp: dll_append)

section \<open>Primitive accesses\<close>

lemma index_or_panic_Some [simp]: "i < length xs \<Longrightarrow> index_or_panic xs i = Some (xs ! i)"
  by (simp add: index_or_panic_def)

lemma node_at_Some [simp]: "i < length (nodes a) \<Longrightarrow> node_at a i = Some (nodes a ! i)"
  by (simp add: node_at_def)

lemma update_node_Some [simp]:
  "i < length (nodes a) \<Longrightarrow>
   update_node a i f = Some (a\<lparr>nodes := (nodes a)[i := f (nodes a ! i)]\<rparr>)"
  by (simp add: update_node_def)

lemma update_link_None [simp]: "update_link a None f = Some a"
  by (simp add: update_link_def)

lemma update_link_Some [simp]: "update_link a (Some i) f = update_node a i f"
  by (simp add: update_link_def)

abbreviation node_of :: "allocator \<Rightarrow> nat \<Rightarrow> node" where
  "node_of a m \<equiv> nodes a ! m"

definition same_block :: "node \<Rightarrow> node \<Rightarrow> bool" where
  "same_block n n' \<longleftrightarrow>
     data_offset n = data_offset n' \<and> data_size n = data_size n' \<and> used n = used n' \<and>
     neighbor_prev n = neighbor_prev n' \<and> neighbor_next n = neighbor_next n'"

lemma same_block_refl [simp]: "same_block n n"
  by (simp add: same_block_def)

lemma same_block_trans: "same_block n n' \<Longrightarrow> same_block n' n'' \<Longrightarrow> same_block n n''"
  by (simp add: same_block_def)

section \<open>Bits\<close>

lemma trailing_zeros_bit:
  "n \<noteq> 0 \<Longrightarrow> bit n (trailing_zeros w n) \<and> (\<forall>i < trailing_zeros w n. \<not> bit n i)" for n :: nat
proof (induction w n rule: trailing_zeros.induct)
  case (1 w n)
  show ?case
  proof (cases "odd n")
    case True
    with 1 show ?thesis by (simp add: trailing_zeros.simps bit_0)
  next
    case False
    with 1 have "n div 2 \<noteq> 0" by (auto elim: evenE)
    with 1 False have ih: "bit (n div 2) (trailing_zeros (w - 1) (n div 2))"
      "\<forall>i < trailing_zeros (w - 1) (n div 2). \<not> bit (n div 2) i" by auto
    have tz: "trailing_zeros w n = Suc (trailing_zeros (w - 1) (n div 2))"
      using "1.prems" False trailing_zeros.simps [of w n] by simp
    have "\<not> bit n i" if "i < trailing_zeros w n" for i
      using that ih(2) False tz by (cases i) (auto simp: bit_0 bit_Suc)
    with ih(1) show ?thesis unfolding tz by (simp add: bit_Suc)
  qed
qed

lemma nat_eq_0_iff_bits: "n = 0 \<longleftrightarrow> (\<forall>i. \<not> bit n i)" for n :: nat
  by (auto intro: bit_eqI)

lemma find_lowest_bit_set_after_None:
  "find_lowest_bit_set_after m s = None \<longleftrightarrow> (\<forall>i \<ge> s. \<not> bit m i)"
proof -
  have "push_bit s (drop_bit s m) = 0 \<longleftrightarrow> (\<forall>i \<ge> s. \<not> bit m i)"
    unfolding nat_eq_0_iff_bits [of "push_bit s (drop_bit s m)"]
    by (auto simp: bit_push_bit_iff bit_drop_bit_eq)
  then show ?thesis by (simp add: find_lowest_bit_set_after_def Let_def)
qed

lemma find_lowest_bit_set_after_Some:
  assumes "find_lowest_bit_set_after m s = Some i"
  shows "s \<le> i" and "bit m i"
proof -
  let ?b = "push_bit s (drop_bit s m)"
  from assms have "?b \<noteq> 0" "i = trailing_zeros 32 ?b"
    by (auto simp: find_lowest_bit_set_after_def Let_def split: if_splits)
  with trailing_zeros_bit [of ?b 32] have "bit ?b i" by simp
  then show "s \<le> i" "bit m i" by (auto simp: bit_push_bit_iff bit_drop_bit_eq)
qed

section \<open>The bitmaps\<close>

definition bitmap_ok :: "nat \<Rightarrow> nat list \<Rightarrow> nat option list \<Rightarrow> bool" where
  "bitmap_ok tops leaves bins \<longleftrightarrow>
     length leaves = NUM_TOP_BINS \<and> length bins = NUM_LEAF_BINS \<and>
     (\<forall>t. bit tops t \<longleftrightarrow> t < NUM_TOP_BINS \<and> leaves ! t \<noteq> 0) \<and>
     (\<forall>t < NUM_TOP_BINS. \<forall>l. bit (leaves ! t) l \<longleftrightarrow> l < 8 \<and> bins ! (8 * t + l) \<noteq> None)"

lemma bin_split_less:
  assumes "l < 8"
  shows "8 * t + l = i \<longleftrightarrow> t = i div 8 \<and> l = i mod (8 :: nat)"
proof
  assume "8 * t + l = i"
  moreover have "(8 * t + l) div 8 = t" "(8 * t + l) mod 8 = l" using assms by simp_all
  ultimately show "t = i div 8 \<and> l = i mod 8" by metis
next
  assume "t = i div 8 \<and> l = i mod 8"
  then show "8 * t + l = i" using mult_div_mod_eq [of 8 i] by metis
qed

lemma leaf_nonzero: "leaf \<noteq> 0 \<longleftrightarrow> (\<exists>l. bit leaf l)" for leaf :: nat
  unfolding nat_eq_0_iff_bits [of leaf] by simp

lemma bitmap_leaf:
  "bitmap_ok tops leaves bins \<Longrightarrow> t < NUM_TOP_BINS \<Longrightarrow>
   leaves ! t \<noteq> 0 \<longleftrightarrow> (\<exists>l < 8. bins ! (8 * t + l) \<noteq> None)"
  unfolding bitmap_ok_def leaf_nonzero by auto

lemma bitmap_set:
  assumes ok: "bitmap_ok tops leaves bins" and i: "i < NUM_LEAF_BINS"
  shows "bitmap_ok (set_bit (i div 8) tops)
           (leaves[i div 8 := set_bit (i mod 8) (leaves ! (i div 8))]) (bins[i := Some n])"
proof -
  have t: "i div 8 < NUM_TOP_BINS" using i by auto
  have "bit (set_bit (i mod 8) (leaves ! (i div 8))) (i mod 8)"
    by (simp add: bit_set_bit_iff)
  then have nz: "set_bit (i mod 8) (leaves ! (i div 8)) \<noteq> 0"
    unfolding leaf_nonzero by blast
  have bits: "bit ((leaves[i div 8 := set_bit (i mod 8) (leaves ! (i div 8))]) ! s) l \<longleftrightarrow>
      l < 8 \<and> bins[i := Some n] ! (8 * s + l) \<noteq> None" if s: "s < NUM_TOP_BINS" for s l
  proof (cases "s = i div 8")
    case True
    then have at: "l < 8 \<Longrightarrow> 8 * s + l = i \<longleftrightarrow> l = i mod 8"
      using bin_split_less [of l s i] by simp
    have len: "length leaves = NUM_TOP_BINS" "length bins = NUM_LEAF_BINS"
      and old: "bit (leaves ! s) l \<longleftrightarrow> l < 8 \<and> bins ! (8 * s + l) \<noteq> None"
      using ok s by (auto simp: bitmap_ok_def)
    show ?thesis
      using old at t i len True mod_less_divisor [of 8 i]
      by (cases "l < 8"; cases "l = i mod 8")
        (simp_all add: bit_set_bit_iff nth_list_update del: mod_less_divisor)
  next
    case False
    then have "l < 8 \<Longrightarrow> 8 * s + l \<noteq> i" using bin_split_less by blast
    with False show ?thesis
      using ok s by (auto simp: bitmap_ok_def nth_list_update)
  qed
  show ?thesis
    unfolding bitmap_ok_def using ok t nz bits
    by (auto simp: bitmap_ok_def bit_set_bit_iff nth_list_update)
qed

lemma bitmap_keep:
  assumes ok: "bitmap_ok tops leaves bins" and i: "i < NUM_LEAF_BINS" and "bins ! i \<noteq> None"
  shows "bitmap_ok tops leaves (bins[i := Some n])"
  using assms unfolding bitmap_ok_def by (auto simp: nth_list_update)

lemma bitmap_clear:
  assumes ok: "bitmap_ok tops leaves bins" and i: "i < NUM_LEAF_BINS"
  defines "leaf \<equiv> unset_bit (i mod 8) (leaves ! (i div 8))"
  shows "bitmap_ok (if leaf = 0 then unset_bit (i div 8) tops else tops)
           (leaves[i div 8 := leaf]) (bins[i := None])"
proof -
  have t: "i div 8 < NUM_TOP_BINS" using i by auto
  have bits: "bit ((leaves[i div 8 := leaf]) ! s) l \<longleftrightarrow>
      l < 8 \<and> bins[i := None] ! (8 * s + l) \<noteq> None" if s: "s < NUM_TOP_BINS" for s l
  proof (cases "s = i div 8")
    case True
    then have at: "l < 8 \<Longrightarrow> 8 * s + l = i \<longleftrightarrow> l = i mod 8"
      using bin_split_less [of l s i] by simp
    have len: "length leaves = NUM_TOP_BINS" "length bins = NUM_LEAF_BINS"
      and old: "bit (leaves ! s) l \<longleftrightarrow> l < 8 \<and> bins ! (8 * s + l) \<noteq> None"
      using ok s by (auto simp: bitmap_ok_def)
    show ?thesis
      using old at t i len True mod_less_divisor [of 8 i]
      by (cases "l < 8"; cases "l = i mod 8")
        (simp_all add: leaf_def bit_unset_bit_iff nth_list_update del: mod_less_divisor)
  next
    case False
    then have "l < 8 \<Longrightarrow> 8 * s + l \<noteq> i" using bin_split_less by blast
    with False show ?thesis
      using ok s by (auto simp: bitmap_ok_def nth_list_update)
  qed
  have old: "leaf \<noteq> 0 \<Longrightarrow> leaves ! (i div 8) \<noteq> 0"
    unfolding leaf_def leaf_nonzero by (auto simp: bit_unset_bit_iff)
  have tops: "bit (if leaf = 0 then unset_bit (i div 8) tops else tops) s \<longleftrightarrow>
      s < NUM_TOP_BINS \<and> (leaves[i div 8 := leaf]) ! s \<noteq> 0" for s
    using ok t old
    by (cases "s = i div 8"; cases "leaf = 0") (auto simp: bitmap_ok_def bit_unset_bit_iff)
  show ?thesis
    unfolding bitmap_ok_def using ok bits tops by (simp add: bitmap_ok_def)
qed

lemma clear_empty_bin_ok:
  assumes ok: "bitmap_ok (used_bins_top a) (used_bins a) bins" and i: "i < NUM_LEAF_BINS"
    and bins: "bin_indices a = bins[i := h]" and was: "bins ! i \<noteq> None"
  obtains tops leaves where
    "clear_empty_bin a i (i div 8) (i mod 8) =
       Some (a\<lparr>used_bins_top := tops, used_bins := leaves\<rparr>)"
    and "bitmap_ok tops leaves (bin_indices a)"
proof -
  have len: "length bins = NUM_LEAF_BINS" "length (used_bins a) = NUM_TOP_BINS"
    using ok by (auto simp: bitmap_ok_def)
  have t: "i div 8 < length (used_bins a)" using i len by auto
  show ?thesis
  proof (cases h)
    case None
    let ?leaf = "unset_bit (i mod 8) (used_bins a ! (i div 8))"
    have "clear_empty_bin a i (i div 8) (i mod 8) =
        Some (a\<lparr>used_bins_top := (if ?leaf = 0 then unset_bit (i div 8) (used_bins_top a)
                                 else used_bins_top a),
               used_bins := (used_bins a)[i div 8 := ?leaf]\<rparr>)"
      using None bins i len t by (simp add: clear_empty_bin_def Let_def)
    moreover have "bitmap_ok (if ?leaf = 0 then unset_bit (i div 8) (used_bins_top a) else used_bins_top a)
        ((used_bins a)[i div 8 := ?leaf]) (bin_indices a)"
      using bitmap_clear [OF ok i] None bins by simp
    ultimately show ?thesis by (rule that)
  next
    case (Some n)
    have "clear_empty_bin a i (i div 8) (i mod 8) =
        Some (a\<lparr>used_bins_top := used_bins_top a, used_bins := used_bins a\<rparr>)"
      using Some bins i len by (simp add: clear_empty_bin_def)
    moreover have "bitmap_ok (used_bins_top a) (used_bins a) (bin_indices a)"
      using bitmap_keep [OF ok i was] Some bins by simp
    ultimately show ?thesis by (rule that)
  qed
qed

lemma bin_index_split:
  "drop_bit TOP_BINS_INDEX_SHIFT i = i div 8" "i AND LEAF_BINS_INDEX_MASK = i mod 8" for i :: nat
  using and_mantissa_mask [of i] by (simp_all add: drop_bit_eq_div)

section \<open>Bins and the node stack\<close>

abbreviation bin_next :: "allocator \<Rightarrow> nat \<Rightarrow> nat option" where
  "bin_next a \<equiv> \<lambda>m. bin_list_next (node_of a m)"

abbreviation bin_prev :: "allocator \<Rightarrow> nat \<Rightarrow> nat option" where
  "bin_prev a \<equiv> \<lambda>m. bin_list_prev (node_of a m)"

abbreviation bin_of :: "allocator \<Rightarrow> nat \<Rightarrow> nat" where
  "bin_of a m \<equiv> uint_to_float_round_down (data_size (node_of a m))"

text \<open>\<open>L i\<close> is the list of bin \<open>i\<close>, \<open>U\<close> the set of nodes that are blocks.\<close>

definition bins_ok :: "allocator \<Rightarrow> (nat \<Rightarrow> nat list) \<Rightarrow> nat set \<Rightarrow> bool" where
  "bins_ok a L U \<longleftrightarrow>
     bitmap_ok (used_bins_top a) (used_bins a) (bin_indices a) \<and>
     (\<forall>i < NUM_LEAF_BINS. bin_indices a ! i = first (L i) None) \<and>
     (\<forall>i. distinct (L i) \<and> dll (bin_next a) (bin_prev a) None (L i) None \<and>
          set (L i) = {m \<in> U. \<not> used (node_of a m) \<and> bin_of a m = i})"

definition free_stack :: "allocator \<Rightarrow> nat list" where
  "free_stack a = take (Suc (free_offset a)) (free_nodes a)"

definition pool_ok :: "allocator \<Rightarrow> nat set \<Rightarrow> bool" where
  "pool_ok a U \<longleftrightarrow>
     length (nodes a) = max_allocs a \<and> length (free_nodes a) = max_allocs a \<and>
     max_allocs a < u32_bound \<and> free_offset a < max_allocs a \<and>
     distinct (free_stack a) \<and> U \<subseteq> {..<max_allocs a} \<and> set (free_stack a) = {..<max_allocs a} - U"

lemma pool_ok_card:
  assumes "pool_ok a U"
  shows "Suc (free_offset a) + card U = max_allocs a"
proof -
  have "card (set (free_stack a)) = length (free_stack a)"
    using assms by (intro distinct_card) (simp add: pool_ok_def)
  also have "\<dots> = Suc (free_offset a)"
    using assms by (simp add: pool_ok_def free_stack_def)
  finally have "card (set (free_stack a)) = Suc (free_offset a)" .
  moreover have "card ({..<max_allocs a} - U) = max_allocs a - card U"
    using assms by (simp add: pool_ok_def card_Diff_subset finite_subset [of U "{..<max_allocs a}"])
  moreover have "card U \<le> max_allocs a"
    using assms card_mono [of "{..<max_allocs a}" U] by (simp add: pool_ok_def)
  ultimately show ?thesis using assms by (simp add: pool_ok_def)
qed

lemma pool_ok_pop:
  assumes ok: "pool_ok a U" and pos: "0 < free_offset a"
    and a': "free_nodes a' = free_nodes a" "free_offset a' = free_offset a - 1"
      "max_allocs a' = max_allocs a" "length (nodes a') = length (nodes a)"
  defines "n \<equiv> free_nodes a ! free_offset a"
  shows "n \<notin> U" and "n < max_allocs a" and "pool_ok a' (insert n U)"
proof -
  have len: "free_offset a < length (free_nodes a)" using ok by (simp add: pool_ok_def)
  then have split: "free_stack a = take (free_offset a) (free_nodes a) @ [n]"
    by (simp add: free_stack_def n_def take_Suc_conv_app_nth)
  have tl: "free_stack a' = take (free_offset a) (free_nodes a)"
    using pos a' by (simp add: free_stack_def)
  have d: "distinct (take (free_offset a) (free_nodes a) @ [n])"
    and s: "set (take (free_offset a) (free_nodes a) @ [n]) = {..<max_allocs a} - U"
    using ok split by (simp_all add: pool_ok_def)
  then have n: "n \<in> {..<max_allocs a} - U" by auto
  then show "n \<notin> U" "n < max_allocs a" by auto
  have "set (free_stack a') = {..<max_allocs a'} - insert n U"
    using d s tl a' by auto
  moreover have "distinct (free_stack a')" using d tl by simp
  ultimately show "pool_ok a' (insert n U)"
    using ok n a' by (auto simp: pool_ok_def)
qed

lemma push_free_node_ok:
  assumes ok: "pool_ok a U" and n: "n \<in> U"
  shows "push_free_node a n =
     Some (a\<lparr>free_offset := Suc (free_offset a), free_nodes := (free_nodes a)[Suc (free_offset a) := n]\<rparr>)"
    and "pool_ok (a\<lparr>free_offset := Suc (free_offset a),
                     free_nodes := (free_nodes a)[Suc (free_offset a) := n]\<rparr>) (U - {n})"
proof -
  have fin: "finite U" using ok finite_subset by (auto simp: pool_ok_def)
  have "0 < card U" using n fin by (auto simp: card_gt_0_iff)
  then have lt: "Suc (free_offset a) < max_allocs a" using pool_ok_card [OF ok] by simp
  then show "push_free_node a n =
     Some (a\<lparr>free_offset := Suc (free_offset a), free_nodes := (free_nodes a)[Suc (free_offset a) := n]\<rparr>)"
    using ok by (simp add: push_free_node_def machine_arith checked_add_def pool_ok_def)
  let ?a = "a\<lparr>free_offset := Suc (free_offset a), free_nodes := (free_nodes a)[Suc (free_offset a) := n]\<rparr>"
  have st: "free_stack ?a = free_stack a @ [n]"
    using lt ok by (simp add: free_stack_def pool_ok_def take_Suc_conv_app_nth)
  have "n \<notin> set (free_stack a)" using ok n by (auto simp: pool_ok_def)
  then show "pool_ok ?a (U - {n})"
    using ok n lt st by (auto simp: pool_ok_def)
qed

section \<open>Filing and unfiling a free block\<close>

lemma bins_ok_head:
  assumes "bins_ok a L U" and "i < NUM_LEAF_BINS" and "bin_indices a ! i = Some h"
  obtains ys where "L i = h # ys" and "h \<in> U" and "\<not> used (node_of a h)" and "bin_of a h = i"
proof -
  from assms obtain ys where ys: "L i = h # ys"
    by (cases "L i") (auto simp: bins_ok_def)
  moreover have "set (L i) = {m \<in> U. \<not> used (node_of a m) \<and> bin_of a m = i}"
    using assms(1) by (simp add: bins_ok_def)
  then have "h \<in> {m \<in> U. \<not> used (node_of a m) \<and> bin_of a m = i}" using ys by auto
  ultimately show ?thesis using that by auto
qed

lemma bins_ok_update:
  assumes ok: "bins_ok a L U"
    and bm: "bitmap_ok (used_bins_top a') (used_bins a') (bin_indices a')"
    and bins: "bin_indices a' = (bin_indices a)[i := first xs None]" and i: "i < NUM_LEAF_BINS"
    and xs: "distinct xs" "dll (bin_next a') (bin_prev a') None xs None"
      "set xs = {m \<in> U'. \<not> used (node_of a' m) \<and> bin_of a' m = i}"
    and other: "\<And>j m. j \<noteq> i \<Longrightarrow> m \<in> set (L j) \<Longrightarrow>
        bin_next a' m = bin_next a m \<and> bin_prev a' m = bin_prev a m"
    and sets: "\<And>j. j \<noteq> i \<Longrightarrow> {m \<in> U'. \<not> used (node_of a' m) \<and> bin_of a' m = j} =
        {m \<in> U. \<not> used (node_of a m) \<and> bin_of a m = j}"
  shows "bins_ok a' (L(i := xs)) U'"
proof -
  have len: "length (bin_indices a) = NUM_LEAF_BINS"
    using ok by (simp add: bins_ok_def bitmap_ok_def)
  have "dll (bin_next a') (bin_prev a') None (L j) None" if "j \<noteq> i" for j
    using ok dll_cong [of "L j" "bin_next a'" "bin_next a" "bin_prev a'" "bin_prev a"] other [OF that]
    by (simp add: bins_ok_def)
  then show ?thesis
    using ok bm bins i xs sets len by (simp add: bins_ok_def nth_list_update)
qed

lemma insert_node_into_bin_ok:
  assumes ok: "bins_ok a L U" and pool: "pool_ok a U" and pos: "0 < free_offset a"
    and sz: "sz < u32_bound" and fs: "free_storage a + sz < u32_bound"
  defines "n \<equiv> free_nodes a ! free_offset a" and "i \<equiv> uint_to_float_round_down sz"
  obtains a' where "insert_node_into_bin a sz offs = Some (a', n)"
    and "bins_ok a' (L(i := n # L i)) (insert n U)" and "pool_ok a' (insert n U)" and "n \<notin> U"
    and "free_storage a' = free_storage a + sz"
    and "free_offset a' = free_offset a - 1"
    and "alloc_size a' = alloc_size a" "max_allocs a' = max_allocs a"
      "layout_revision a' = layout_revision a"
    and "same_block (node_of a' n) (node_default\<lparr>data_offset := offs, data_size := sz\<rparr>)"
    and "\<And>m. m \<noteq> n \<Longrightarrow> same_block (node_of a' m) (node_of a m)"
proof -
  have i: "i < NUM_LEAF_BINS" unfolding i_def using round_down_bin [OF sz] by simp
  have bm: "bitmap_ok (used_bins_top a) (used_bins a) (bin_indices a)"
    and head: "bin_indices a ! i = first (L i) None"
    and dl: "dll (bin_next a) (bin_prev a) None (L i) None" and dist: "distinct (L i)"
    and setL: "\<And>j. set (L j) = {m \<in> U. \<not> used (node_of a m) \<and> bin_of a m = j}"
    using ok i by (auto simp: bins_ok_def)
  have len: "length (bin_indices a) = NUM_LEAF_BINS" "length (used_bins a) = NUM_TOP_BINS"
    using bm by (auto simp: bitmap_ok_def)
  have t: "i div 8 < length (used_bins a)" using i len by auto
  have nU: "n \<notin> U" and nmax: "n < max_allocs a"
    unfolding n_def using pool_ok_pop(1,2) [OF pool pos, of a] pool_ok_pop(1,2) [OF pool pos,
      of "a\<lparr>free_offset := free_offset a - 1\<rparr>"] by simp_all
  have lens: "length (nodes a) = max_allocs a" "free_offset a < length (free_nodes a)"
    using pool by (auto simp: pool_ok_def)
  define fresh where
    "fresh = node_default\<lparr>data_offset := offs, data_size := sz, bin_list_next := first (L i) None\<rparr>"
  define ns where "ns = (case L i of [] \<Rightarrow> (nodes a)[n := fresh]
    | h # _ \<Rightarrow> (nodes a)[n := fresh, h := (node_of a h)\<lparr>bin_list_prev := Some n\<rparr>])"
  define tops where "tops = (if L i = [] then set_bit (i div 8) (used_bins_top a) else used_bins_top a)"
  define leaves where "leaves = (if L i = [] then (used_bins a)[i div 8 := set_bit (i mod 8) (used_bins a ! (i div 8))]
    else used_bins a)"
  define a' where "a' = a\<lparr>used_bins := leaves, used_bins_top := tops, free_offset := free_offset a - 1,
    nodes := ns, bin_indices := (bin_indices a)[i := Some n], free_storage := free_storage a + sz\<rparr>"
  have hU: "h \<in> U \<and> h \<noteq> n \<and> h < length (nodes a)" if "L i = h # ys" for h ys
    using setL [of i] that nU pool lens by (auto simp: pool_ok_def)
  have ns_other: "same_block (ns ! m) (node_of a m)" if "m \<noteq> n" for m
    using that hU by (cases "L i") (auto simp: ns_def same_block_def nth_list_update)
  have ns_n: "ns ! n = fresh"
    using nmax lens hU by (cases "L i") (auto simp: ns_def)
  have lenns: "length ns = length (nodes a)" by (simp add: ns_def split: list.split)
  have eq: "insert_node_into_bin a sz offs = Some (a', n)"
  proof (cases "L i")
    case Nil
    with head i len t lens nmax pos fs show ?thesis
      by (simp add: insert_node_into_bin_def i_def [symmetric] Let_def bin_index_split
          n_def [symmetric] checked_sub_def checked_add_def a'_def ns_def tops_def leaves_def fresh_def)
  next
    case (Cons h ys)
    with head i len t lens nmax pos fs hU [OF Cons] show ?thesis
      by (simp add: insert_node_into_bin_def i_def [symmetric] Let_def bin_index_split
          n_def [symmetric] checked_sub_def checked_add_def a'_def ns_def tops_def leaves_def fresh_def)
  qed
  have bm': "bitmap_ok (used_bins_top a') (used_bins a') (bin_indices a')"
    using bitmap_set [OF bm i] bitmap_keep [OF bm i] head
    by (cases "L i") (simp_all add: a'_def tops_def leaves_def)
  have dl': "dll (bin_next a') (bin_prev a') None (n # L i) None"
  proof (cases "L i")
    case Nil
    with ns_n show ?thesis by (simp add: a'_def fresh_def node_default_def)
  next
    case (Cons h ys)
    have hs: "h \<in> U" "h \<noteq> n" "h < length (nodes a)" using hU [OF Cons] by auto
    have ysU: "n \<noteq> y \<and> h \<noteq> y" if "y \<in> set ys" for y
      using that setL [of i] Cons nU dist by auto
    have "dll (bin_next a') (bin_prev a') (bin_prev a' h) (h # ys) None"
    proof (rule dll_front [of "bin_next a" "bin_prev a" None])
      show "dll (bin_next a) (bin_prev a) None (h # ys) None" using dl Cons by simp
      show "h \<notin> set ys" using dist Cons by simp
    qed (use Cons hs ysU in \<open>auto simp: a'_def ns_def\<close>)
    with Cons ns_n hs show ?thesis
      by (simp add: a'_def fresh_def node_default_def ns_def)
  qed
  have ns_U: "data_size (ns ! x) = data_size (node_of a x)" "used (ns ! x) = used (node_of a x)"
    if "x \<in> U" for x
    using that nU ns_other [of x] by (auto simp: same_block_def)
  have set_new: "set (n # L i) = {m \<in> insert n U. \<not> used (node_of a' m) \<and> bin_of a' m = i}"
    using ns_n ns_U nU setL [of i]
    by (auto simp: a'_def fresh_def node_default_def i_def)
  have sets: "{m \<in> insert n U. \<not> used (node_of a' m) \<and> bin_of a' m = j} =
      {m \<in> U. \<not> used (node_of a m) \<and> bin_of a m = j}" if "j \<noteq> i" for j
    using that ns_n ns_U nU
    by (auto simp: a'_def fresh_def node_default_def i_def)
  have other: "bin_next a' m = bin_next a m \<and> bin_prev a' m = bin_prev a m"
    if "j \<noteq> i" "m \<in> set (L j)" for j m
  proof -
    have "m \<noteq> n" using that setL [of j] nU by auto
    moreover have "m \<noteq> h" if "L i = h # ys" for h ys
      using \<open>j \<noteq> i\<close> \<open>m \<in> set (L j)\<close> setL [of j] setL [of i] that by auto
    ultimately show ?thesis by (cases "L i") (auto simp: a'_def ns_def)
  qed
  have bins': "bins_ok a' (L(i := n # L i)) (insert n U)"
    using bins_ok_update [OF ok bm' _ i _ dl' set_new other sets] dist nU setL [of i]
    by (auto simp: a'_def)
  have pool': "pool_ok a' (insert n U)"
    unfolding n_def using pool lenns
    by (intro pool_ok_pop(3) [OF pool pos]) (simp_all add: a'_def)
  show ?thesis
    by (rule that [OF eq bins' pool' nU])
      (use ns_n ns_other in \<open>auto simp: a'_def fresh_def same_block_def\<close>)
qed

lemma remove_node_from_bin_ok:
  assumes ok: "bins_ok a L U" and pool: "pool_ok a U"
    and m: "m \<in> U" "\<not> used (node_of a m)" "data_size (node_of a m) < u32_bound"
    and fs: "data_size (node_of a m) \<le> free_storage a"
  obtains a' L' where "remove_node_from_bin a m = Some a'"
    and "bins_ok a' L' (U - {m})" and "pool_ok a' (U - {m})"
    and "free_storage a' = free_storage a - data_size (node_of a m)"
    and "alloc_size a' = alloc_size a" "max_allocs a' = max_allocs a"
      "layout_revision a' = layout_revision a"
    and "\<And>k. same_block (node_of a' k) (node_of a k)"
proof -
  define i where "i = bin_of a m"
  have i: "i < NUM_LEAF_BINS" unfolding i_def using round_down_bin [OF m(3)] by simp
  have bm: "bitmap_ok (used_bins_top a) (used_bins a) (bin_indices a)"
    and head: "bin_indices a ! i = first (L i) None"
    and dl: "dll (bin_next a) (bin_prev a) None (L i) None" and dist: "distinct (L i)"
    and setL: "\<And>j. set (L j) = {m \<in> U. \<not> used (node_of a m) \<and> bin_of a m = j}"
    using ok i by (auto simp: bins_ok_def)
  have len: "length (bin_indices a) = NUM_LEAF_BINS" using bm by (auto simp: bitmap_ok_def)
  have lens: "length (nodes a) = max_allocs a" "U \<subseteq> {..<length (nodes a)}"
    using pool by (auto simp: pool_ok_def)
  have "m \<in> set (L i)" using setL [of i] m i_def by auto
  then obtain xs ys where xy: "L i = xs @ m # ys" by (auto simp: in_set_conv_decomp)
  have inU: "\<And>k. k \<in> set xs \<union> set ys \<union> {m} \<Longrightarrow> k \<in> U \<and> k < length (nodes a)"
    using setL [of i] xy lens by auto
  have links: "bin_prev a m = final None xs" "bin_next a m = first ys None"
    and dlxs: "dll (bin_next a) (bin_prev a) None xs (Some m)"
    and dlys: "dll (bin_next a) (bin_prev a) (Some m) ys None"
    using dl xy by (auto simp: dll_append)
  define ns where "ns =
     (let ns1 = (if xs = [] then nodes a
                 else (nodes a)[last xs := (node_of a (last xs))\<lparr>bin_list_next := first ys None\<rparr>])
      in case ys of [] \<Rightarrow> ns1
         | y # _ \<Rightarrow> ns1[y := (ns1 ! y)\<lparr>bin_list_prev := final None xs\<rparr>])"
  have distxy: "distinct (xs @ m # ys)" using dist xy by simp
  have ns_len: "length ns = length (nodes a)" by (simp add: ns_def Let_def split: list.split)
  have last_xs: "xs \<noteq> [] \<Longrightarrow> last xs < length (nodes a) \<and> last xs \<noteq> m \<and> last xs \<notin> set ys"
    using inU distxy by (metis Un_iff last_in_set distinct_append disjoint_iff list.set_intros)
  have hd_ys: "ys = y # zs \<Longrightarrow> y < length (nodes a) \<and> y \<noteq> m \<and> y \<notin> set xs" for y zs
    using inU distxy by auto
  have ns_same: "same_block (ns ! k) (node_of a k)" for k
    using last_xs hd_ys
    by (cases "xs = []"; cases ys) (auto simp: ns_def Let_def same_block_def nth_list_update)
  have ns_next: "bin_list_next (ns ! k) = (if xs \<noteq> [] \<and> k = last xs then first ys None else bin_next a k)" for k
    using last_xs hd_ys
    by (cases "xs = []"; cases ys) (auto simp: ns_def Let_def nth_list_update)
  have ns_prev: "bin_list_prev (ns ! k) = (if ys \<noteq> [] \<and> k = hd ys then final None xs else bin_prev a k)" for k
    using last_xs hd_ys
    by (cases "xs = []"; cases ys) (auto simp: ns_def Let_def nth_list_update)
  let ?L = "L(i := xs @ ys)"
  define b where "b = a\<lparr>nodes := ns, bin_indices := (bin_indices a)[i := first (xs @ ys) None]\<rparr>"
  define nd where "nd = node_of a m"
  obtain tops leaves where stage: "(case bin_list_prev nd of
               Some p \<Rightarrow>
                 do { a \<leftarrow> update_node a p (\<lambda>n. n\<lparr>bin_list_next := bin_list_next nd\<rparr>);
                      update_link a (bin_list_next nd)
                        (\<lambda>n. n\<lparr>bin_list_prev := bin_list_prev nd\<rparr>) }
             | None \<Rightarrow>
                 (let bin_index = uint_to_float_round_down (data_size nd);
                      top_bin_index = drop_bit TOP_BINS_INDEX_SHIFT bin_index;
                      leaf_bin_index = bin_index AND LEAF_BINS_INDEX_MASK
                  in do { _ \<leftarrow> index_or_panic (bin_indices a) bin_index;
                          a \<leftarrow> update_link (a\<lparr>bin_indices := (bin_indices a)[bin_index := bin_list_next nd]\<rparr>)
                                 (bin_list_next nd) (\<lambda>n. n\<lparr>bin_list_prev := None\<rparr>);
                          clear_empty_bin a bin_index top_bin_index leaf_bin_index })) =
       Some (b\<lparr>used_bins_top := tops, used_bins := leaves\<rparr>)"
    and bm': "bitmap_ok tops leaves (bin_indices b)"
  proof (cases "xs = []")
    case True
    have bnb: "update_link (a\<lparr>bin_indices := (bin_indices a)[i := first ys None]\<rparr>)
        (first ys None) (\<lambda>n. n\<lparr>bin_list_prev := None\<rparr>) = Some b"
      using True hd_ys by (cases ys) (auto simp: b_def ns_def Let_def)
    have bin: "bin_indices b = (bin_indices a)[i := first ys None]" using True by (simp add: b_def)
    have "bin_indices a ! i \<noteq> None" using head xy True by simp
    moreover have "bitmap_ok (used_bins_top b) (used_bins b) (bin_indices a)"
      using bm by (simp add: b_def)
    ultimately obtain tops leaves where
      "clear_empty_bin b i (i div 8) (i mod 8) = Some (b\<lparr>used_bins_top := tops, used_bins := leaves\<rparr>)"
      "bitmap_ok tops leaves (bin_indices b)"
      by (metis clear_empty_bin_ok i bin)
    with bnb True links i len show ?thesis
      by (intro that) (simp_all add: nd_def i_def [symmetric] bin_index_split Let_def)
  next
    case False
    have "bin_indices b = bin_indices a"
      using False head xy len i by (cases xs) (auto simp: b_def list_update_same_conv)
    moreover have "do { a \<leftarrow> update_node a (last xs) (\<lambda>n. n\<lparr>bin_list_next := first ys None\<rparr>);
        update_link a (first ys None) (\<lambda>n. n\<lparr>bin_list_prev := final None xs\<rparr>) } =
        Some (b\<lparr>used_bins_top := used_bins_top a, used_bins := used_bins a\<rparr>)"
      using False last_xs hd_ys \<open>bin_indices b = bin_indices a\<close>
      by (cases ys) (auto simp: b_def ns_def Let_def final_def)
    ultimately show ?thesis
      using False links bm by (intro that [of "used_bins a" "used_bins_top a"]) (auto simp: nd_def final_def)
  qed
  define c where "c = b\<lparr>used_bins_top := tops, used_bins := leaves\<rparr>"
  have poolc: "pool_ok c U" using pool ns_len by (simp add: c_def b_def pool_ok_def free_stack_def)
  define a' where "a' = c\<lparr>free_offset := Suc (free_offset c),
     free_nodes := (free_nodes c)[Suc (free_offset c) := m],
     free_storage := free_storage a - data_size (node_of a m)\<rparr>"
  have eq: "remove_node_from_bin a m = Some a'"
    using m lens fs stage push_free_node_ok(1) [OF poolc m(1)] inU [of m]
    by (simp add: remove_node_from_bin_def nd_def [symmetric] c_def [symmetric] checked_sub_def a'_def)
      (simp add: c_def b_def)
  have pool': "pool_ok a' (U - {m})"
    using push_free_node_ok(2) [OF poolc m(1)] by (simp add: a'_def pool_ok_def free_stack_def)
  have nodes': "nodes a' = ns" by (simp add: a'_def c_def b_def)
  have next': "bin_next a' k = (if xs \<noteq> [] \<and> k = last xs then first ys None else bin_next a k)"
    and prev': "bin_prev a' k = (if ys \<noteq> [] \<and> k = hd ys then final None xs else bin_prev a k)" for k
    using ns_next ns_prev by (simp_all add: nodes')
  have "dll (bin_next a') (bin_prev a') None xs (first ys None)"
  proof (cases "xs = []")
    case False
    have "dll (bin_next a') (bin_prev a') None (butlast xs @ [last xs]) (bin_next a' (last xs))"
    proof (rule dll_back [of "bin_next a" "bin_prev a"])
      show "dll (bin_next a) (bin_prev a) None (butlast xs @ [last xs]) (Some m)"
        using dlxs False by simp
      show "last xs \<notin> set (butlast xs)"
        using distxy False by (metis append_butlast_last_id distinct_append not_distinct_conv_prefix)
      then show "bin_next a' y = bin_next a y \<and> bin_prev a' y = bin_prev a y"
        if "y \<in> set (butlast xs)" for y
        using that hd_ys in_set_butlastD [OF that] by (cases ys) (auto simp: next' prev')
      show "bin_prev a' (last xs) = bin_prev a (last xs)"
        using last_xs False by (cases ys) (auto simp: prev')
    qed
    with False show ?thesis by (simp add: next')
  qed simp
  moreover have "dll (bin_next a') (bin_prev a') (final None xs) ys None"
  proof (cases ys)
    case (Cons y zs)
    have "dll (bin_next a') (bin_prev a') (bin_prev a' y) (y # zs) None"
    proof (rule dll_front [of "bin_next a" "bin_prev a" "Some m"])
      show "y \<notin> set zs" using distxy Cons by simp
    qed (use dlys Cons distxy last_xs in \<open>auto simp: next' prev'\<close>)
    with Cons show ?thesis by (simp add: prev')
  qed simp
  ultimately have dl': "dll (bin_next a') (bin_prev a') None (xs @ ys) None"
    by (simp add: dll_append)
  have same: "data_size (node_of a' k) = data_size (node_of a k)" "used (node_of a' k) = used (node_of a k)" for k
    using ns_same [of k] by (simp_all add: nodes' same_block_def)
  have set': "set (xs @ ys) = {k \<in> U - {m}. \<not> used (node_of a' k) \<and> bin_of a' k = i}"
    using setL [of i] xy distxy by (auto simp: same)
  have sets: "{k \<in> U - {m}. \<not> used (node_of a' k) \<and> bin_of a' k = j} =
      {k \<in> U. \<not> used (node_of a k) \<and> bin_of a k = j}" if "j \<noteq> i" for j
    using that by (auto simp: same i_def)
  have other: "bin_next a' k = bin_next a k \<and> bin_prev a' k = bin_prev a k"
    if "j \<noteq> i" "k \<in> set (L j)" for j k
  proof -
    have "k \<notin> set (L i)" using that setL [of j] setL [of i] by auto
    then have "xs \<noteq> [] \<Longrightarrow> k \<noteq> last xs" "ys \<noteq> [] \<Longrightarrow> k \<noteq> hd ys" using xy by auto
    then show ?thesis by (auto simp: next' prev')
  qed
  have "bins_ok a' ?L (U - {m})"
    by (rule bins_ok_update [OF ok _ _ i _ dl' set' other sets])
      (use bm' distxy in \<open>auto simp: a'_def c_def b_def\<close>)
  from that [OF eq this pool'] show ?thesis
    using ns_same by (simp add: nodes') (simp add: a'_def c_def b_def)
qed

section \<open>The blocks in address order\<close>

lemma dll_relink_back:
  "dll nx pv p xs q \<Longrightarrow> distinct xs \<Longrightarrow>
   (\<And>m. m \<in> set xs \<Longrightarrow> pv' m = pv m \<and> nx' m = (if m = last xs then q' else nx m)) \<Longrightarrow>
   dll nx' pv' p xs q'"
proof (induction xs arbitrary: p)
  case (Cons x xs)
  then have "dll nx' pv' (Some x) xs q'"
    by (cases "xs = []") (auto intro!: Cons.IH)
  with Cons.prems show ?case by (cases xs) auto
qed simp

lemma dll_relink_front:
  "dll nx pv p zs q \<Longrightarrow> distinct zs \<Longrightarrow>
   (\<And>m. m \<in> set zs \<Longrightarrow> nx' m = nx m \<and> pv' m = (if m = hd zs then p' else pv m)) \<Longrightarrow>
   dll nx' pv' p' zs q"
proof (cases zs)
  case (Cons z ys)
  assume prems: "dll nx pv p zs q" "distinct zs"
    "\<And>m. m \<in> set zs \<Longrightarrow> nx' m = nx m \<and> pv' m = (if m = hd zs then p' else pv m)"
  have "nx' m = nx m \<and> pv' m = pv m" if "m \<in> set ys" for m
    using prems(2,3) that Cons by auto
  then have "dll nx' pv' (Some z) ys q"
    using prems(1) Cons dll_cong [of ys nx' nx pv' pv "Some z" q] by auto
  with Cons prems show ?thesis by auto
qed simp

lemma dll_replace:
  assumes dl: "dll nx pv p (xs @ mid @ zs) q" and dist: "distinct xs" "distinct zs"
    and ms: "ms \<noteq> []" "dll nx' pv' (final p xs) ms (first zs q)"
    and xs: "\<And>m. m \<in> set xs \<Longrightarrow> pv' m = pv m \<and> nx' m = (if m = last xs then Some (hd ms) else nx m)"
    and zs: "\<And>m. m \<in> set zs \<Longrightarrow> nx' m = nx m \<and> pv' m = (if m = hd zs then Some (last ms) else pv m)"
  shows "dll nx' pv' p (xs @ ms @ zs) q"
proof -
  have parts: "dll nx pv p xs (first (mid @ zs) q)" "dll nx pv (final (final p xs) mid) zs q"
    using dl by (auto simp: dll_append)
  have "dll nx' pv' p xs (Some (hd ms))"
    using dll_relink_back [OF parts(1) dist(1)] xs by blast
  moreover have "dll nx' pv' (Some (last ms)) zs q"
    using dll_relink_front [OF parts(2) dist(2)] zs by blast
  moreover have "first (ms @ zs) q = Some (hd ms)" "final (final p xs) ms = Some (last ms)"
    using ms(1) by (cases ms; simp add: final_def)+
  ultimately show ?thesis using ms(2) by (simp add: dll_append)
qed

text \<open>\<open>tiles of sz o bs e\<close>: the blocks \<open>bs\<close> cover \<open>[o, e)\<close> without gap or overlap.\<close>

fun tiles :: "(nat \<Rightarrow> nat) \<Rightarrow> (nat \<Rightarrow> nat) \<Rightarrow> nat \<Rightarrow> nat list \<Rightarrow> nat \<Rightarrow> bool" where
  "tiles off sz s [] e = (s = e)"
| "tiles off sz s (b # bs) e = (off b = s \<and> tiles off sz (s + sz b) bs e)"

lemma tiles_append:
  "tiles off sz s (xs @ ys) e \<longleftrightarrow>
   tiles off sz s xs (s + sum_list (map sz xs)) \<and> tiles off sz (s + sum_list (map sz xs)) ys e"
  by (induction xs arbitrary: s) (auto simp: add.assoc)

lemma tiles_sum: "tiles off sz s bs e \<Longrightarrow> e = s + sum_list (map sz bs)"
proof (induction bs arbitrary: s)
  case (Cons b bs)
  then have "e = (s + sz b) + sum_list (map sz bs)" by simp
  then show ?case by simp
qed simp

lemma tiles_cong:
  "(\<And>b. b \<in> set bs \<Longrightarrow> off b = off' b \<and> sz b = sz' b) \<Longrightarrow> tiles off sz s bs e = tiles off' sz' s bs e"
  by (induction bs arbitrary: s) auto

lemma tiles_bounds:
  "tiles off sz s bs e \<Longrightarrow> b \<in> set bs \<Longrightarrow> s \<le> off b \<and> off b + sz b \<le> e"
proof (induction bs arbitrary: s)
  case (Cons x bs)
  show ?case
  proof (cases "b = x")
    case True
    with Cons.prems tiles_sum [of off sz "s + sz x" bs e] show ?thesis by auto
  next
    case False
    with Cons.prems Cons.IH [of "s + sz x"] show ?thesis by auto
  qed
qed simp

lemma tiles_disjoint:
  "tiles off sz s bs e \<Longrightarrow> distinct bs \<Longrightarrow> b \<in> set bs \<Longrightarrow> c \<in> set bs \<Longrightarrow> b \<noteq> c \<Longrightarrow>
   off b + sz b \<le> off c \<or> off c + sz c \<le> off b"
proof (induction bs arbitrary: s)
  case (Cons x bs)
  then have rest: "tiles off sz (off x + sz x) bs e" by auto
  show ?case
  proof (cases "b = x \<or> c = x")
    case True
    with Cons.prems tiles_bounds [OF rest] show ?thesis by auto
  next
    case False
    with Cons show ?thesis by auto
  qed
qed simp

lemma tiles_replace:
  assumes t: "tiles off sz s (xs @ mid @ zs) e"
    and xz: "\<And>b. b \<in> set xs \<union> set zs \<Longrightarrow> off' b = off b \<and> sz' b = sz b"
    and mid: "tiles off' sz' (s + sum_list (map sz xs)) ms (s + sum_list (map sz xs) + sum_list (map sz mid))"
  shows "tiles off' sz' s (xs @ ms @ zs) e"
proof -
  have parts: "tiles off sz s xs (s + sum_list (map sz xs))"
    "tiles off sz (s + sum_list (map sz xs) + sum_list (map sz mid)) zs e"
    using t by (auto simp: tiles_append)
  have sum: "sum_list (map sz' xs) = sum_list (map sz xs)"
    using xz by (metis UnI1 map_eq_conv)
  have "tiles off' sz' s xs (s + sum_list (map sz xs))"
    "tiles off' sz' (s + sum_list (map sz xs) + sum_list (map sz mid)) zs e"
    using parts xz tiles_cong [of xs off' off sz' sz] tiles_cong [of zs off' off sz' sz] by auto
  moreover have "sum_list (map sz' ms) = sum_list (map sz mid)"
    using tiles_sum [OF mid] by simp
  ultimately show ?thesis using mid by (simp add: tiles_append sum add.assoc)
qed

section \<open>Invariant\<close>

abbreviation block_offset :: "allocator \<Rightarrow> nat \<Rightarrow> nat" where
  "block_offset a \<equiv> \<lambda>m. data_offset (node_of a m)"

abbreviation block_size :: "allocator \<Rightarrow> nat \<Rightarrow> nat" where
  "block_size a \<equiv> \<lambda>m. data_size (node_of a m)"

abbreviation block_used :: "allocator \<Rightarrow> nat \<Rightarrow> bool" where
  "block_used a \<equiv> \<lambda>m. used (node_of a m)"

abbreviation next_block :: "allocator \<Rightarrow> nat \<Rightarrow> nat option" where
  "next_block a \<equiv> \<lambda>m. neighbor_next (node_of a m)"

abbreviation prev_block :: "allocator \<Rightarrow> nat \<Rightarrow> nat option" where
  "prev_block a \<equiv> \<lambda>m. neighbor_prev (node_of a m)"

definition free_sum :: "allocator \<Rightarrow> nat list \<Rightarrow> nat" where
  "free_sum a bs = sum_list (map (\<lambda>m. if block_used a m then 0 else block_size a m) bs)"

text \<open>No two neighboring blocks are both free.\<close>

definition coalesced :: "allocator \<Rightarrow> nat list \<Rightarrow> bool" where
  "coalesced a bs \<longleftrightarrow> successively (\<lambda>x y. block_used a x \<or> block_used a y) bs"

definition blocks_ok :: "allocator \<Rightarrow> nat list \<Rightarrow> bool" where
  "blocks_ok a bs \<longleftrightarrow>
     distinct bs \<and> dll (next_block a) (prev_block a) None bs None \<and>
     tiles (block_offset a) (block_size a) 0 bs (alloc_size a) \<and> alloc_size a < u32_bound \<and>
     free_storage a = free_sum a bs \<and> coalesced a bs"

definition alloc_rep :: "allocator \<Rightarrow> nat list \<Rightarrow> (nat \<Rightarrow> nat list) \<Rightarrow> bool" where
  "alloc_rep a bs L \<longleftrightarrow> pool_ok a (set bs) \<and> bins_ok a L (set bs) \<and> blocks_ok a bs"

definition alloc_inv :: "allocator \<Rightarrow> bool" where
  "alloc_inv a \<longleftrightarrow> (\<exists>bs L. alloc_rep a bs L)"

text \<open>The nodes that are blocks handed out: neither on the stack nor free.\<close>

definition live :: "allocator \<Rightarrow> nat set" where
  "live a = {m. m < max_allocs a \<and> m \<notin> set (free_stack a) \<and> block_used a m}"

definition free_blocks :: "allocator \<Rightarrow> nat set" where
  "free_blocks a = {m. m < max_allocs a \<and> m \<notin> set (free_stack a) \<and> \<not> block_used a m}"

lemma live_rep: "pool_ok a U \<Longrightarrow> live a = {m \<in> U. block_used a m}"
  by (auto simp: live_def pool_ok_def)

lemma free_blocks_rep: "pool_ok a U \<Longrightarrow> free_blocks a = {m \<in> U. \<not> block_used a m}"
  by (auto simp: free_blocks_def pool_ok_def)

lemma free_sum_append: "free_sum a (xs @ ys) = free_sum a xs + free_sum a ys"
  by (simp add: free_sum_def)

lemma free_sum_Cons:
  "free_sum a (m # ys) = (if block_used a m then 0 else block_size a m) + free_sum a ys"
  by (simp add: free_sum_def)

lemma free_sum_Nil [simp]: "free_sum a [] = 0"
  by (simp add: free_sum_def)

lemma free_sum_cong:
  "(\<And>m. m \<in> set bs \<Longrightarrow> block_used a m = block_used a' m \<and> block_size a m = block_size a' m) \<Longrightarrow>
   free_sum a bs = free_sum a' bs"
  unfolding free_sum_def by (intro arg_cong [of _ _ sum_list] map_cong) auto

lemma free_sum_le: "free_sum a bs \<le> sum_list (map (block_size a) bs)"
  unfolding free_sum_def by (rule sum_list_mono) simp

lemma block_le_free_sum: "m \<in> set bs \<Longrightarrow> \<not> block_used a m \<Longrightarrow> block_size a m \<le> free_sum a bs"
  by (induction bs) (auto simp: free_sum_Cons)

lemma blocks_ok_bounds:
  assumes "blocks_ok a bs"
  shows "\<And>m. m \<in> set bs \<Longrightarrow> block_offset a m + block_size a m \<le> alloc_size a"
    and "\<And>m. m \<in> set bs \<Longrightarrow> block_size a m < u32_bound"
    and "free_storage a \<le> alloc_size a"
proof -
  have t: "tiles (block_offset a) (block_size a) 0 bs (alloc_size a)"
    and u: "alloc_size a < u32_bound" and f: "free_storage a = free_sum a bs"
    using assms by (auto simp: blocks_ok_def)
  show "block_offset a m + block_size a m \<le> alloc_size a" if "m \<in> set bs" for m
    using tiles_bounds [OF t that] by simp
  with u show "block_size a m < u32_bound" if "m \<in> set bs" for m
    using that by fastforce
  show "free_storage a \<le> alloc_size a"
    using f free_sum_le [of a bs] tiles_sum [OF t] by simp
qed

lemma coalesced_append:
  "coalesced a (xs @ ys) \<longleftrightarrow> coalesced a xs \<and> coalesced a ys \<and>
     (xs = [] \<or> ys = [] \<or> block_used a (last xs) \<or> block_used a (hd ys))"
  by (simp add: coalesced_def successively_append_iff)

lemma coalesced_simps [simp]: "coalesced a []" "coalesced a [x]"
  by (simp_all add: coalesced_def)

lemma coalesced_Cons:
  "coalesced a (x # ys) \<longleftrightarrow> coalesced a ys \<and> (ys = [] \<or> block_used a x \<or> block_used a (hd ys))"
  using coalesced_append [of a "[x]" ys] by simp

lemma coalesced_cong:
  assumes "\<And>m. m \<in> set bs \<Longrightarrow> block_used a m = block_used a' m"
  shows "coalesced a bs = coalesced a' bs"
  unfolding coalesced_def using assms by (intro successively_cong refl) auto

section \<open>The bin search\<close>

lemma find_bin_ok:
  assumes bm: "bitmap_ok (used_bins_top a) (used_bins a) (bin_indices a)" and mb: "mb < NUM_LEAF_BINS"
  shows "(find_bin a mb = Some None \<and> (\<forall>i. mb \<le> i \<and> i < NUM_LEAF_BINS \<longrightarrow> bin_indices a ! i = None)) \<or>
         (\<exists>t l. find_bin a mb = Some (Some (t, l)) \<and> t < NUM_TOP_BINS \<and> l < 8 \<and> mb \<le> 8 * t + l \<and>
            bin_indices a ! (8 * t + l) \<noteq> None)"
proof -
  let ?t = "mb div 8" and ?l = "mb mod 8"
  have t: "?t < NUM_TOP_BINS" using mb by auto
  have len: "length (used_bins a) = NUM_TOP_BINS"
    and tops: "\<And>s. bit (used_bins_top a) s \<longleftrightarrow> s < NUM_TOP_BINS \<and> used_bins a ! s \<noteq> 0"
    and leafs: "\<And>s l. s < NUM_TOP_BINS \<Longrightarrow>
        bit (used_bins a ! s) l \<longleftrightarrow> l < 8 \<and> bin_indices a ! (8 * s + l) \<noteq> None"
    using bm by (auto simp: bitmap_ok_def)
  define r where "r = (if bit (used_bins_top a) ?t
      then find_lowest_bit_set_after (used_bins a ! ?t) ?l else None)"
  have idx: "index_or_panic (used_bins a) ?t = Some (used_bins a ! ?t)" using t len by simp
  have fb: "find_bin a mb =
      (case r of Some leaf \<Rightarrow> Some (Some (?t, leaf))
       | None \<Rightarrow> (case find_lowest_bit_set_after (used_bins_top a) (Suc ?t) of
                    None \<Rightarrow> Some None
                  | Some s \<Rightarrow> map_option (\<lambda>leaves. Some (s, trailing_zeros 8 leaves))
                                (index_or_panic (used_bins a) s)))"
    unfolding find_bin_def bin_index_split Let_def r_def idx
    by (cases "bit (used_bins_top a) ?t") simp_all
  have split: "8 * ?t + ?l = mb" by simp
  show ?thesis
  proof (cases r)
    case (Some leaf)
    then have "?l \<le> leaf" "bit (used_bins a ! ?t) leaf"
      using find_lowest_bit_set_after_Some [of "used_bins a ! ?t" ?l leaf]
      by (auto simp: r_def split: if_splits)
    then have "leaf < 8" "bin_indices a ! (8 * ?t + leaf) \<noteq> None" "mb \<le> 8 * ?t + leaf"
      using leafs [OF t, of leaf] split by (blast, blast, linarith)
    moreover have "find_bin a mb = Some (Some (?t, leaf))" unfolding fb Some by simp
    ultimately show ?thesis using t by blast
  next
    case None
    have low: "bin_indices a ! (8 * ?t + l) = None" if "?l \<le> l" "l < 8" for l
    proof (rule ccontr)
      assume "bin_indices a ! (8 * ?t + l) \<noteq> None"
      then have b: "bit (used_bins a ! ?t) l" using leafs [OF t] that by blast
      then have "bit (used_bins_top a) ?t" using tops t leaf_nonzero by blast
      with None have "find_lowest_bit_set_after (used_bins a ! ?t) ?l = None" by (simp add: r_def)
      with b that show False unfolding find_lowest_bit_set_after_None by blast
    qed
    show ?thesis
    proof (cases "find_lowest_bit_set_after (used_bins_top a) (Suc ?t)")
      case no: None
      have "bin_indices a ! i = None" if i: "mb \<le> i" "i < NUM_LEAF_BINS" for i
      proof (cases "i div 8 = ?t")
        case True
        have "8 * (i div 8) + i mod 8 = i" by simp
        moreover from this True i split have "?l \<le> i mod 8" by linarith
        then have "bin_indices a ! (8 * ?t + i mod 8) = None" by (rule low) simp
        ultimately show ?thesis using True by simp
      next
        case False
        have "?t \<le> i div 8" using i by (simp add: div_le_mono)
        with False have "Suc ?t \<le> i div 8" by simp
        with no have "\<not> bit (used_bins_top a) (i div 8)"
          unfolding find_lowest_bit_set_after_None by blast
        moreover have s: "i div 8 < NUM_TOP_BINS" using i by auto
        ultimately have "used_bins a ! (i div 8) = 0" using tops by blast
        then have "\<not> bit (used_bins a ! (i div 8)) (i mod 8)" by simp
        then have "bin_indices a ! (8 * (i div 8) + i mod 8) = None"
          using leafs [OF s, of "i mod 8"] by simp
        then show ?thesis by simp
      qed
      moreover have "find_bin a mb = Some None" unfolding fb None no by simp
      ultimately show ?thesis by blast
    next
      case (Some s)
      then have s: "Suc ?t \<le> s" "bit (used_bins_top a) s"
        by (rule find_lowest_bit_set_after_Some)+
      then have s2: "s < NUM_TOP_BINS" "used_bins a ! s \<noteq> 0" using tops by auto
      then have b: "bit (used_bins a ! s) (trailing_zeros 8 (used_bins a ! s))"
        using trailing_zeros_bit by blast
      have "mb \<le> 8 * s" using s(1) split mod_less_divisor [of 8 mb] by linarith
      moreover have "trailing_zeros 8 (used_bins a ! s) < 8"
        "bin_indices a ! (8 * s + trailing_zeros 8 (used_bins a ! s)) \<noteq> None"
        using b leafs [OF s2(1)] by blast+
      moreover have "find_bin a mb = Some (Some (s, trailing_zeros 8 (used_bins a ! s)))"
        unfolding fb None Some using s2 len by simp
      ultimately show ?thesis using s2(1) by (meson trans_le_add1)
    qed
  qed
qed

section \<open>Allocation\<close>

text \<open>Marking the head of a bin used and unfiling it.\<close>

lemma nodes_bin_indices_commute:
  "(a :: allocator)\<lparr>bin_indices := bins, nodes := ns\<rparr> = a\<lparr>nodes := ns, bin_indices := bins\<rparr>"
  by simp

lemma take_head_ok:
  assumes ok: "bins_ok a L U" and pool: "pool_ok a U" and i: "i < NUM_LEAF_BINS"
    and Li: "L i = h # ys" and fs: "block_size a h \<le> free_storage a"
  obtains b where
    "do { a1 \<leftarrow> update_node a h (\<lambda>n. n\<lparr>data_size := sz, used := True\<rparr>);
          a2 \<leftarrow> update_link (a1\<lparr>bin_indices := (bin_indices a1)[i := bin_list_next (node_of a h)]\<rparr>)
                 (bin_list_next (node_of a h)) (\<lambda>n. n\<lparr>bin_list_prev := None\<rparr>);
          fs \<leftarrow> checked_sub (free_storage a2) (data_size (node_of a h));
          clear_empty_bin (a2\<lparr>free_storage := fs\<rparr>) i (i div 8) (i mod 8) } = Some b"
    and "bins_ok b (L(i := ys)) U" and "pool_ok b U"
    and "free_storage b = free_storage a - block_size a h"
    and "free_offset b = free_offset a" "free_nodes b = free_nodes a"
      "alloc_size b = alloc_size a" "max_allocs b = max_allocs a" "layout_revision b = layout_revision a"
    and "same_block (node_of b h) ((node_of a h)\<lparr>data_size := sz, used := True\<rparr>)"
    and "\<And>m. m \<noteq> h \<Longrightarrow> same_block (node_of b m) (node_of a m)"
proof -
  have bm: "bitmap_ok (used_bins_top a) (used_bins a) (bin_indices a)"
    and head: "bin_indices a ! i = first (L i) None"
    and dl: "dll (bin_next a) (bin_prev a) None (L i) None" and dist: "distinct (L i)"
    and setL: "\<And>j. set (L j) = {m \<in> U. \<not> used (node_of a m) \<and> bin_of a m = j}"
    using ok i by (auto simp: bins_ok_def)
  have lens: "length (nodes a) = max_allocs a" "U \<subseteq> {..<length (nodes a)}"
    using pool by (auto simp: pool_ok_def)
  have hU: "h \<in> U" "h < length (nodes a)" "bin_of a h = i" "h \<notin> set ys"
    using setL [of i] Li lens dist by auto
  have ysU: "y \<in> U \<and> y < length (nodes a) \<and> h \<noteq> y" if "y \<in> set ys" for y
    using that setL [of i] Li lens dist by auto
  have nexth: "bin_next a h = first ys None" and dlys: "dll (bin_next a) (bin_prev a) (Some h) ys None"
    using dl Li by auto
  define ns where "ns =
     (let ns1 = (nodes a)[h := (node_of a h)\<lparr>data_size := sz, used := True\<rparr>]
      in case ys of [] \<Rightarrow> ns1 | y # _ \<Rightarrow> ns1[y := (ns1 ! y)\<lparr>bin_list_prev := None\<rparr>])"
  define c where "c = a\<lparr>nodes := ns, bin_indices := (bin_indices a)[i := first ys None],
     free_storage := free_storage a - block_size a h\<rparr>"
  have "bitmap_ok (used_bins_top c) (used_bins c) (bin_indices a)"
    "bin_indices c = (bin_indices a)[i := first ys None]" "bin_indices a ! i \<noteq> None"
    using bm head Li by (simp_all add: c_def)
  then obtain tops leaves where clear:
    "clear_empty_bin c i (i div 8) (i mod 8) = Some (c\<lparr>used_bins_top := tops, used_bins := leaves\<rparr>)"
    and bm': "bitmap_ok tops leaves (bin_indices c)"
    by (metis clear_empty_bin_ok i)
  define b where "b = c\<lparr>used_bins_top := tops, used_bins := leaves\<rparr>"
  have nodes_b: "nodes b = ns" by (simp add: b_def c_def)
  have eq: "do { a1 \<leftarrow> update_node a h (\<lambda>n. n\<lparr>data_size := sz, used := True\<rparr>);
          a2 \<leftarrow> update_link (a1\<lparr>bin_indices := (bin_indices a1)[i := bin_list_next (node_of a h)]\<rparr>)
                 (bin_list_next (node_of a h)) (\<lambda>n. n\<lparr>bin_list_prev := None\<rparr>);
          fs \<leftarrow> checked_sub (free_storage a2) (data_size (node_of a h));
          clear_empty_bin (a2\<lparr>free_storage := fs\<rparr>) i (i div 8) (i mod 8) } = Some b"
    using clear hU ysU fs nexth
    by (cases ys)
      (simp_all add: checked_sub_def c_def ns_def b_def Let_def nodes_bin_indices_commute)
  have ns_h: "ns ! h = (node_of a h)\<lparr>data_size := sz, used := True\<rparr>"
    using hU ysU by (cases ys) (auto simp: ns_def Let_def nth_list_update)
  have ns_other: "same_block (ns ! m) (node_of a m) \<and> bin_list_next (ns ! m) = bin_next a m \<and>
      bin_list_prev (ns ! m) = (if ys \<noteq> [] \<and> m = hd ys then None else bin_prev a m)"
    if "m \<noteq> h" for m
    using that hU ysU by (cases ys) (auto simp: ns_def Let_def nth_list_update same_block_def)
  have ns_len: "length ns = length (nodes a)" by (simp add: ns_def Let_def split: list.split)
  have dl': "dll (bin_next b) (bin_prev b) None ys None"
  proof (rule dll_relink_front [OF dlys])
    show "distinct ys" using dist Li by simp
    fix m assume m: "m \<in> set ys"
    then have "m \<noteq> h" using hU(4) by auto
    with m ns_other [of m]
    show "bin_next b m = bin_next a m \<and> bin_prev b m = (if m = hd ys then None else bin_prev a m)"
      by (auto simp: nodes_b)
  qed
  have b_h: "used (node_of b h)" using ns_h by (simp add: nodes_b)
  have b_other: "used (node_of b m) = used (node_of a m)" "bin_of b m = bin_of a m" if "m \<noteq> h" for m
    using ns_other [OF that] by (simp_all add: nodes_b same_block_def)
  have filed: "{m \<in> U. \<not> used (node_of b m) \<and> bin_of b m = j} =
      {m \<in> U. \<not> used (node_of a m) \<and> bin_of a m = j} - {h}" for j
  proof (rule set_eqI)
    fix m
    show "m \<in> {m \<in> U. \<not> used (node_of b m) \<and> bin_of b m = j} \<longleftrightarrow>
        m \<in> {m \<in> U. \<not> used (node_of a m) \<and> bin_of a m = j} - {h}"
      using b_h b_other [of m] by (cases "m = h") auto
  qed
  have set': "set ys = {m \<in> U. \<not> used (node_of b m) \<and> bin_of b m = i}"
    unfolding filed setL [symmetric] using Li hU(4) by auto
  have sets: "{m \<in> U. \<not> used (node_of b m) \<and> bin_of b m = j} =
      {m \<in> U. \<not> used (node_of a m) \<and> bin_of a m = j}" if "j \<noteq> i" for j
    unfolding filed using that hU(3) by auto
  have other: "bin_next b m = bin_next a m \<and> bin_prev b m = bin_prev a m"
    if "j \<noteq> i" "m \<in> set (L j)" for j m
  proof -
    have "m \<notin> set (L i)" using that setL [of j] setL [of i] by auto
    then show ?thesis using ns_other [of m] Li by (auto simp: nodes_b)
  qed
  have bins': "bins_ok b (L(i := ys)) U"
    by (rule bins_ok_update [OF ok _ _ i _ dl' set' other sets])
      (use bm' dist Li in \<open>auto simp: b_def c_def\<close>)
  have pool': "pool_ok b U"
    using pool ns_len by (simp add: b_def c_def pool_ok_def free_stack_def)
  show ?thesis
    by (rule that [OF eq bins' pool'])
      (use ns_h ns_other in \<open>simp_all add: nodes_b\<close>, simp_all add: b_def c_def)
qed

lemma bins_ok_frame:
  assumes "bins_ok a L U"
    and "used_bins_top a' = used_bins_top a" "used_bins a' = used_bins a" "bin_indices a' = bin_indices a"
    and "\<And>m. bin_next a' m = bin_next a m \<and> bin_prev a' m = bin_prev a m \<and>
           block_used a' m = block_used a m \<and> block_size a' m = block_size a m"
  shows "bins_ok a' L U"
  using assms by (simp add: bins_ok_def)

lemma pool_ok_frame:
  assumes "pool_ok a U" and "length (nodes a') = length (nodes a)" "free_nodes a' = free_nodes a"
    "free_offset a' = free_offset a" "max_allocs a' = max_allocs a"
  shows "pool_ok a' U"
  using assms by (simp add: pool_ok_def free_stack_def)

lemma coalesced_mono:
  assumes "coalesced a bs" and "\<And>m. m \<in> set bs \<Longrightarrow> block_used a m \<Longrightarrow> block_used a' m"
  shows "coalesced a' bs"
  using assms unfolding coalesced_def by (elim successively_mono) auto

text \<open>What a successful allocation of \<open>sz\<close> units does, as its caller sees it.\<close>

definition allocated :: "allocator \<Rightarrow> u32 \<Rightarrow> allocator \<Rightarrow> allocation \<Rightarrow> bool" where
  "allocated a sz a' al \<longleftrightarrow>
     metadata al \<in> free_blocks a \<and> live a' = insert (metadata al) (live a) \<and>
     offset al = block_offset a' (metadata al) \<and> block_size a' (metadata al) = sz \<and>
     (\<forall>m \<in> live a. block_offset a' m = block_offset a m \<and> block_size a' m = block_size a m) \<and>
     free_storage a = free_storage a' + sz \<and>
     alloc_size a' = alloc_size a \<and> max_allocs a' = max_allocs a \<and>
     layout_revision a' = Suc (layout_revision a)"

text \<open>Splitting a block: the head keeps the first \<open>sz\<close> units, a new node the rest.\<close>

lemma split_block_ok:
  assumes blocks: "blocks_ok a (xs @ h # zs)" and free: "\<not> block_used a h"
    and n: "n \<notin> set (xs @ h # zs)" and sz: "sz < block_size a h"
    and size': "alloc_size d = alloc_size a" "free_storage d = free_storage a - sz"
    and nx: "\<And>m. next_block d m = (if m = h then Some n else if m = n then first zs None else next_block a m)"
    and pv: "\<And>m. prev_block d m = (if m = n then Some h else if zs \<noteq> [] \<and> m = hd zs then Some n
          else prev_block a m)"
    and off: "\<And>m. block_offset d m = (if m = n then block_offset a h + sz else block_offset a m)"
    and bs: "\<And>m. block_size d m = (if m = n then block_size a h - sz else if m = h then sz else block_size a m)"
    and us: "\<And>m. block_used d m = (if m = n then False else if m = h then True else block_used a m)"
  shows "blocks_ok d (xs @ h # n # zs)"
proof -
  have dist: "distinct (xs @ h # zs)" and dl: "dll (next_block a) (prev_block a) None (xs @ [h] @ zs) None"
    and tl: "tiles (block_offset a) (block_size a) 0 (xs @ [h] @ zs) (alloc_size a)"
    and fs: "free_storage a = free_sum a (xs @ h # zs)" and co: "coalesced a (xs @ h # zs)"
    and u: "alloc_size a < u32_bound"
    using blocks by (auto simp: blocks_ok_def)
  have hz: "zs \<noteq> [] \<Longrightarrow> hd zs \<in> set zs" by simp
  have ph: "prev_block a h = final None xs" "next_block a h = first zs None"
    using dl by (auto simp: dll_append)
  have dl': "dll (next_block d) (prev_block d) None (xs @ [h, n] @ zs) None"
  proof (rule dll_replace [OF dl])
    show "dll (next_block d) (prev_block d) (final None xs) [h, n] (first zs None)"
      using ph n dist by (auto simp: nx pv)
    fix m assume m: "m \<in> set xs"
    have "m \<noteq> h" "m \<noteq> n" "zs \<noteq> [] \<Longrightarrow> m \<noteq> hd zs" using m n dist hz by auto
    moreover have "next_block a m = (if m = last xs then Some h else next_block a m)"
      using dl m by (cases xs rule: rev_cases) (auto simp: dll_append)
    ultimately show "prev_block d m = prev_block a m \<and>
        next_block d m = (if m = last xs then Some (hd [h, n]) else next_block a m)"
      by (auto simp: nx pv)
  next
    fix m assume m: "m \<in> set zs"
    then have "m \<noteq> h" "m \<noteq> n" "zs \<noteq> []" using n dist by auto
    then show "next_block d m = next_block a m \<and>
        prev_block d m = (if m = hd zs then Some (last [h, n]) else prev_block a m)"
      by (simp add: nx pv)
  qed (use dist in auto)
  have tl': "tiles (block_offset d) (block_size d) 0 (xs @ [h, n] @ zs) (alloc_size a)"
  proof (rule tiles_replace [OF tl])
    show "block_offset d b = block_offset a b \<and> block_size d b = block_size a b"
      if "b \<in> set xs \<union> set zs" for b
      using that n dist by (auto simp: off bs)
    have "block_offset a h = sum_list (map (block_size a) xs)"
      using tl by (simp add: tiles_append)
    moreover have "h \<noteq> n" using n by auto
    ultimately show "tiles (block_offset d) (block_size d) (0 + sum_list (map (block_size a) xs)) [h, n]
        (0 + sum_list (map (block_size a) xs) + sum_list (map (block_size a) [h]))"
      using sz by (simp add: off bs)
  qed
  have rest: "free_sum d xs = free_sum a xs" "free_sum d zs = free_sum a zs"
    using n dist by (auto intro!: free_sum_cong simp: us bs split: if_splits)
  have "h \<noteq> n" using n by auto
  then have fs': "free_storage d = free_sum d (xs @ [h, n] @ zs)"
    using fs size' free sz by (simp add: free_sum_append free_sum_Cons rest us bs)
  have us': "block_used d m = block_used a m" if "m \<in> set xs \<union> set zs" for m
    using that n dist by (auto simp: us split: if_splits)
  have "coalesced d xs = coalesced a xs" "coalesced d zs = coalesced a zs"
    using us' by (auto intro!: coalesced_cong)
  then have "coalesced d xs" "coalesced d zs" "zs = [] \<or> block_used d (hd zs)"
    using co free us' coalesced_append [of a "[h]" zs]
    by (cases zs; auto simp: coalesced_append)+
  then have co': "coalesced d (xs @ [h, n] @ zs)"
    using \<open>h \<noteq> n\<close> us [of h] by (auto simp: coalesced_append coalesced_Cons)
  show ?thesis
    using dl' tl' fs' co' size' u n dist by (simp add: blocks_ok_def)
qed

text \<open>The whole block is handed out: only its mark changes.\<close>

lemma use_block_ok:
  assumes blocks: "blocks_ok a bs" and h: "h \<in> set bs" "\<not> block_used a h"
    and size': "alloc_size d = alloc_size a" "free_storage d = free_storage a - block_size a h"
    and same: "\<And>m. next_block d m = next_block a m \<and> prev_block d m = prev_block a m \<and>
        block_offset d m = block_offset a m \<and> block_size d m = block_size a m"
    and us: "\<And>m. block_used d m = (if m = h then True else block_used a m)"
  shows "blocks_ok d bs"
proof -
  obtain xs zs where bs: "bs = xs @ h # zs" using h(1) by (auto simp: in_set_conv_decomp)
  have "distinct bs" using blocks by (simp add: blocks_ok_def)
  then have "free_sum d xs = free_sum a xs" "free_sum d zs = free_sum a zs"
    using bs by (auto intro!: free_sum_cong simp: us same split: if_splits)
  then have "free_storage d = free_sum d bs"
    using blocks h(2) size' unfolding bs by (simp add: blocks_ok_def free_sum_append free_sum_Cons us)
  moreover have "coalesced d bs"
    using blocks by (intro coalesced_mono [of a bs d]) (auto simp: blocks_ok_def us)
  ultimately show ?thesis
    using blocks size' same by (simp add: blocks_ok_def)
qed

lemma allocate_rep:
  assumes rep: "alloc_rep a bs L" and sz: "sz < u32_bound" and rev: "Suc (layout_revision a) < u64_bound"
  shows "(allocate a sz = Some (a, None) \<and>
            (free_offset a = 0 \<or> (\<forall>m \<in> free_blocks a. bin_of a m < uint_to_float_round_up sz))) \<or>
         (\<exists>a' al bs' L'. allocate a sz = Some (a', Some al) \<and> alloc_rep a' bs' L' \<and> allocated a sz a' al)"
proof (cases "free_offset a = 0")
  case True
  then show ?thesis by (simp add: allocate_def)
next
  case False
  have pool: "pool_ok a (set bs)" and bins: "bins_ok a L (set bs)" and blocks: "blocks_ok a bs"
    using rep by (auto simp: alloc_rep_def)
  have bm: "bitmap_ok (used_bins_top a) (used_bins a) (bin_indices a)"
    using bins by (simp add: bins_ok_def)
  have lens: "length (nodes a) = max_allocs a" "set bs \<subseteq> {..<length (nodes a)}"
    using pool by (auto simp: pool_ok_def)
  have mb: "uint_to_float_round_up sz < NUM_LEAF_BINS" using round_up_bin [OF sz] by simp
  from find_bin_ok [OF bm mb] show ?thesis
  proof (elim disjE conjE exE)
    assume none: "find_bin a (uint_to_float_round_up sz) = Some None"
      and empty: "\<forall>i. uint_to_float_round_up sz \<le> i \<and> i < NUM_LEAF_BINS \<longrightarrow> bin_indices a ! i = None"
    have "bin_of a m < uint_to_float_round_up sz" if m: "m \<in> free_blocks a" for m
    proof (rule ccontr)
      assume ge: "\<not> bin_of a m < uint_to_float_round_up sz"
      have mU: "m \<in> set bs" "\<not> block_used a m" using m free_blocks_rep [OF pool] by auto
      then have lt: "bin_of a m < NUM_LEAF_BINS"
        using round_down_bin [OF blocks_ok_bounds(2) [OF blocks]] by fastforce
      with ge empty have "bin_indices a ! bin_of a m = None" by simp
      then have "L (bin_of a m) = []" using bins lt by (simp add: bins_ok_def first_None)
      moreover have "m \<in> set (L (bin_of a m))" using bins mU by (simp add: bins_ok_def)
      ultimately show False by simp
    qed
    with none False show ?thesis by (simp add: allocate_def)
  next
    fix t l
    assume found: "find_bin a (uint_to_float_round_up sz) = Some (Some (t, l))"
      and tl: "t < NUM_TOP_BINS" "l < 8" "uint_to_float_round_up sz \<le> 8 * t + l"
      and head: "bin_indices a ! (8 * t + l) \<noteq> None"
    define i where "i = 8 * t + l"
    have i: "i < NUM_LEAF_BINS" "push_bit TOP_BINS_INDEX_SHIFT t OR l = i" "t = i div 8" "l = i mod 8"
      using tl or_disjoint_nat [of l t] by (auto simp: i_def)
    from head obtain h where h: "bin_indices a ! i = Some h" by (auto simp: i_def)
    from bins_ok_head [OF bins i(1) h] obtain ys where
      ys: "L i = h # ys" and hU: "h \<in> set bs" "\<not> block_used a h" "bin_of a h = i"
      by blast
    have fits: "sz \<le> block_size a h"
      using bin_fits [of sz "block_size a h"] tl(3) hU(3) i_def by simp
    have hfs: "block_size a h \<le> free_storage a"
      using block_le_free_sum [OF hU(1,2)] blocks by (simp add: blocks_ok_def)
    from take_head_ok [OF bins pool i(1) ys hfs, of sz] obtain b where
      take: "do { a1 \<leftarrow> update_node a h (\<lambda>n. n\<lparr>data_size := sz, used := True\<rparr>);
          a2 \<leftarrow> update_link (a1\<lparr>bin_indices := (bin_indices a1)[i := bin_list_next (node_of a h)]\<rparr>)
                 (bin_list_next (node_of a h)) (\<lambda>n. n\<lparr>bin_list_prev := None\<rparr>);
          fs \<leftarrow> checked_sub (free_storage a2) (data_size (node_of a h));
          clear_empty_bin (a2\<lparr>free_storage := fs\<rparr>) i (i div 8) (i mod 8) } = Some b"
      and bins_b: "bins_ok b (L(i := ys)) (set bs)" and pool_b: "pool_ok b (set bs)"
      and fs_b: "free_storage b = free_storage a - block_size a h"
      and b_same: "free_offset b = free_offset a" "free_nodes b = free_nodes a"
        "alloc_size b = alloc_size a" "max_allocs b = max_allocs a" "layout_revision b = layout_revision a"
      and b_h: "same_block (node_of b h) ((node_of a h)\<lparr>data_size := sz, used := True\<rparr>)"
      and b_other: "\<And>m. m \<noteq> h \<Longrightarrow> same_block (node_of b m) (node_of a m)"
      by blast
    have hlen: "h < length (nodes a)" using hU(1) lens by auto
    obtain a1 a2 fs where steps:
      "update_node a h (\<lambda>n. n\<lparr>data_size := sz, used := True\<rparr>) = Some a1"
      "update_link (a1\<lparr>bin_indices := (bin_indices a1)[i := bin_list_next (node_of a h)]\<rparr>)
         (bin_list_next (node_of a h)) (\<lambda>n. n\<lparr>bin_list_prev := None\<rparr>) = Some a2"
      "checked_sub (free_storage a2) (data_size (node_of a h)) = Some fs"
      "clear_empty_bin (a2\<lparr>free_storage := fs\<rparr>) i (i div 8) (i mod 8) = Some b"
      using take unfolding bind_option_Some by blast
    have alloc_eq: "allocate a sz =
        do { d \<leftarrow> (if 0 < block_size a h - sz
                  then do {
                    split_at \<leftarrow> checked_add u32_bound (block_offset a h) sz;
                    (c, n) \<leftarrow> insert_node_into_bin b (block_size a h - sz) split_at;
                    c1 \<leftarrow> update_link c (next_block a h) (\<lambda>k. k\<lparr>neighbor_prev := Some n\<rparr>);
                    c2 \<leftarrow> update_node c1 n
                           (\<lambda>k. k\<lparr>neighbor_prev := Some h, neighbor_next := next_block a h\<rparr>);
                    update_node c2 h (\<lambda>k. k\<lparr>neighbor_next := Some n\<rparr>) }
                  else Some b);
             node' \<leftarrow> node_at d h;
             Some (d\<lparr>layout_revision := Suc (layout_revision a)\<rparr>,
                   Some \<lparr>offset = data_offset node', metadata = h\<rparr>) }"
      using False found h i steps fits hlen rev bm
      by (simp add: allocate_def Let_def bitmap_ok_def next_layout_revision_def checked_add_def [of u64_bound]
          checked_sub_def [of "block_size a h" sz] del: update_node_Some)
    show ?thesis
    proof (cases "block_size a h = sz")
      case True
      define d where "d = b\<lparr>layout_revision := Suc (layout_revision a)\<rparr>"
      have d_same: "next_block d m = next_block a m \<and> prev_block d m = prev_block a m \<and>
          block_offset d m = block_offset a m \<and> block_size d m = block_size a m"
        and d_used: "block_used d m = (if m = h then True else block_used a m)" for m
        using b_h b_other [of m] True by (cases "m = h"; auto simp: d_def same_block_def)+
      have pool_d: "pool_ok d (set bs)" using pool_b by (rule pool_ok_frame) (simp_all add: d_def)
      have "bins_ok d (L(i := ys)) (set bs)" using bins_b by (rule bins_ok_frame) (simp_all add: d_def)
      moreover have "blocks_ok d bs"
        by (rule use_block_ok [OF blocks hU(1,2)]) (use d_same d_used fs_b b_same in \<open>simp_all add: d_def\<close>)
      ultimately have rep_d: "alloc_rep d bs (L(i := ys))" using pool_d by (simp add: alloc_rep_def)
      have eq: "allocate a sz = Some (d, Some \<lparr>offset = block_offset d h, metadata = h\<rparr>)"
        using alloc_eq True hlen b_same lens pool_b
        by (simp add: d_def pool_ok_def)
      have "allocated a sz d \<lparr>offset = block_offset d h, metadata = h\<rparr>"
        using hU hfs fs_b b_same d_same True
        by (auto simp: allocated_def free_blocks_rep [OF pool] live_rep [OF pool] live_rep [OF pool_d]
            d_used) (simp_all add: d_def)
      with eq rep_d show ?thesis by blast
    next
      case False
      with fits have lt: "sz < block_size a h" by simp
      obtain xs zs where bs: "bs = xs @ h # zs" using hU(1) by (auto simp: in_set_conv_decomp)
      have bnd: "block_offset a h + block_size a h \<le> alloc_size a" "alloc_size a < u32_bound"
        using blocks_ok_bounds(1) [OF blocks hU(1)] blocks by (auto simp: blocks_ok_def)
      define n where "n = free_nodes b ! free_offset b"
      have pos: "0 < free_offset b" using \<open>free_offset a \<noteq> 0\<close> b_same by simp
      have room: "block_size a h - sz < u32_bound" "free_storage b + (block_size a h - sz) < u32_bound"
        using bnd blocks_ok_bounds(3) [OF blocks] fs_b hfs by linarith+
      note insert_ok = insert_node_into_bin_ok
        [OF bins_b pool_b pos room, of "block_offset a h + sz", folded n_def]
      obtain c where
        ins: "insert_node_into_bin b (block_size a h - sz) (block_offset a h + sz) = Some (c, n)"
        and bins_c: "bins_ok c ((L(i := ys))(uint_to_float_round_down (block_size a h - sz) :=
            n # (L(i := ys)) (uint_to_float_round_down (block_size a h - sz)))) (insert n (set bs))"
        and pool_c: "pool_ok c (insert n (set bs))" and nU: "n \<notin> set bs"
        and fs_c: "free_storage c = free_storage b + (block_size a h - sz)"
        and c_same: "alloc_size c = alloc_size b" "max_allocs c = max_allocs b"
          "layout_revision c = layout_revision b"
        and c_n: "same_block (node_of c n)
            (node_default\<lparr>data_offset := block_offset a h + sz, data_size := block_size a h - sz\<rparr>)"
        and c_other: "\<And>m. m \<noteq> n \<Longrightarrow> same_block (node_of c m) (node_of b m)"
        using insert_ok by blast
      have hn: "h \<noteq> n" and nlen: "n < length (nodes c)" and hlen': "h < length (nodes c)"
        using nU hU(1) pool_c by (auto simp: pool_ok_def)
      have nexth: "next_block a h = first zs None"
        using blocks bs by (auto simp: blocks_ok_def dll_append)
      have q: "hd zs \<noteq> n \<and> hd zs \<noteq> h \<and> hd zs < length (nodes c)" if "zs \<noteq> []"
        using that blocks bs nU pool_c by (cases zs) (auto simp: blocks_ok_def pool_ok_def)
      define c1 where "c1 = (if zs = [] then c else
         c\<lparr>nodes := (nodes c)[hd zs := (node_of c (hd zs))\<lparr>neighbor_prev := Some n\<rparr>]\<rparr>)"
      define d where "d = c1\<lparr>nodes := (nodes c1)[n := (node_of c1 n)\<lparr>neighbor_prev := Some h,
           neighbor_next := next_block a h\<rparr>, h := (node_of c1 h)\<lparr>neighbor_next := Some n\<rparr>],
         layout_revision := Suc (layout_revision a)\<rparr>"
      have eq: "allocate a sz = Some (d, Some \<lparr>offset = block_offset d h, metadata = h\<rparr>)"
        using alloc_eq lt ins bnd hn nlen hlen' q nexth
        by (cases zs) (simp_all add: checked_add_def c1_def d_def)
      have d_same: "bin_next d m = bin_next c m \<and> bin_prev d m = bin_prev c m \<and>
          block_used d m = block_used c m \<and> block_size d m = block_size c m \<and>
          block_offset d m = block_offset c m" for m
        using hn nlen hlen' q by (auto simp: d_def c1_def nth_list_update)
      have d_next: "next_block d m = (if m = h then Some n else if m = n then next_block a h else next_block c m)" for m
        using hn nlen hlen' q by (auto simp: d_def c1_def nth_list_update)
      have d_prev: "prev_block d m = (if m = n then Some h else if zs \<noteq> [] \<and> m = hd zs then Some n
          else prev_block c m)" for m
        using hn nlen hlen' q by (auto simp: d_def c1_def nth_list_update)
      have c_old: "next_block c m = next_block a m \<and> prev_block c m = prev_block a m \<and>
          block_offset c m = block_offset a m \<and> block_size c m = (if m = h then sz else block_size a m) \<and>
          block_used c m = (if m = h then True else block_used a m)" if "m \<noteq> n" for m
        using c_other [OF that] b_other [of m] b_h by (auto simp: same_block_def)
      have c_new: "block_offset c n = block_offset a h + sz" "block_size c n = block_size a h - sz"
        "\<not> block_used c n"
        using c_n by (simp_all add: same_block_def node_default_def)
      have d_used: "block_used d m = (if m = n then False else if m = h then True else block_used a m)" for m
        using d_same [of m] c_old [of m] c_new by (cases "m = n") auto
      have d_size: "block_size d m =
          (if m = n then block_size a h - sz else if m = h then sz else block_size a m)" for m
        using d_same [of m] c_old [of m] c_new by (cases "m = n") auto
      have d_off: "block_offset d m = (if m = n then block_offset a h + sz else block_offset a m)" for m
        using d_same [of m] c_old [of m] c_new by (cases "m = n") auto
      have d_nx: "next_block d m = (if m = h then Some n else if m = n then first zs None else next_block a m)" for m
        using d_next [of m] c_old [of m] nexth by (cases "m = n") auto
      have d_pv: "prev_block d m = (if m = n then Some h else if zs \<noteq> [] \<and> m = hd zs then Some n
          else prev_block a m)" for m
        using d_prev [of m] c_old [of m] by (cases "m = n") auto
      have size_d: "alloc_size d = alloc_size a" "free_storage d = free_storage a - sz"
        "max_allocs d = max_allocs a" "layout_revision d = Suc (layout_revision a)"
        using c_same b_same fs_c fs_b hfs lt by (auto simp: d_def c1_def)
      have pool_d: "pool_ok d (insert n (set bs))"
        using pool_c by (rule pool_ok_frame) (auto simp: d_def c1_def)
      have bins_d: "bins_ok d ((L(i := ys))(uint_to_float_round_down (block_size a h - sz) :=
            n # (L(i := ys)) (uint_to_float_round_down (block_size a h - sz)))) (insert n (set bs))"
        using bins_c by (rule bins_ok_frame) (use d_same in \<open>auto simp: d_def c1_def\<close>)
      have "blocks_ok d (xs @ h # n # zs)"
      proof (rule split_block_ok)
        show "blocks_ok a (xs @ h # zs)" using blocks bs by simp
      qed (use hU(2) nU bs lt size_d d_nx d_pv d_used d_size d_off in simp_all)
      moreover have "set (xs @ h # n # zs) = insert n (set bs)" using bs by auto
      ultimately have rep_d: "\<exists>bs' L'. alloc_rep d bs' L'"
        using pool_d bins_d unfolding alloc_rep_def by metis
      have live_d: "live d = insert h (live a)"
        unfolding live_rep [OF pool] live_rep [OF pool_d]
        using nU hU(1) by (auto simp: d_used split: if_splits)
      have "allocated a sz d \<lparr>offset = block_offset d h, metadata = h\<rparr>"
        unfolding allocated_def live_d
        using hU hfs lt size_d nU hn
        by (auto simp: free_blocks_rep [OF pool] live_rep [OF pool] d_size d_off split: if_splits)
      with eq rep_d show ?thesis by blast
    qed
  qed
qed

section \<open>Freeing\<close>

text \<open>Merging with a free neighbor on one side: \<open>ps\<close> is the neighbor that is merged, if any.\<close>

definition merged :: "allocator \<Rightarrow> nat list \<Rightarrow> bool" where
  "merged a ps \<longleftrightarrow> ps = [] \<or> (\<exists>p. ps = [p] \<and> \<not> block_used a p)"

definition block_sum :: "allocator \<Rightarrow> nat list \<Rightarrow> nat" where
  "block_sum a bs = sum_list (map (block_size a) bs)"

lemma block_sum_simps [simp]:
  "block_sum a [] = 0" "block_sum a (m # bs) = block_size a m + block_sum a bs"
  "block_sum a (xs @ ys) = block_sum a xs + block_sum a ys"
  by (simp_all add: block_sum_def)

definition merge_rel :: "allocator \<Rightarrow> nat set \<Rightarrow> nat list \<Rightarrow> allocator \<Rightarrow> bool" where
  "merge_rel a U ps a' \<longleftrightarrow>
     merged a ps \<and> pool_ok a' (U - set ps) \<and> (\<exists>L'. bins_ok a' L' (U - set ps)) \<and>
     free_storage a = free_storage a' + block_sum a ps \<and>
     alloc_size a' = alloc_size a \<and> max_allocs a' = max_allocs a \<and> layout_revision a' = layout_revision a \<and>
     (\<forall>k. block_offset a' k = block_offset a k \<and> block_size a' k = block_size a k \<and>
          block_used a' k = block_used a k)"

lemma merge_prev_ok:
  assumes pool: "pool_ok a U" and bins: "bins_ok a L U" and m: "m \<in> U"
    and xs: "set xs \<subseteq> U" "m \<notin> set xs" and prev: "prev_block a m = final None xs"
    and before: "xs \<noteq> [] \<longrightarrow> prev_block a (last xs) = final None (butlast xs)"
    and mutual: "xs \<noteq> [] \<longrightarrow> next_block a (last xs) = Some m"
    and room: "sz + block_sum a xs < u32_bound" "free_sum a xs \<le> free_storage a"
  shows "\<exists>a' xs' ps.
    merge_prev a m offs sz =
       Some (a', (if ps = [] then offs else block_offset a (hd ps)), sz + block_sum a ps) \<and>
    xs = xs' @ ps \<and> (ps = [] \<longrightarrow> xs' = [] \<or> block_used a (last xs')) \<and> merge_rel a U ps a' \<and>
    (\<forall>k. prev_block a' k = (if k = m then final None xs' else prev_block a k)) \<and>
    (\<forall>k. next_block a' k = next_block a k)"
proof -
  have mlen: "m < length (nodes a)" using m pool by (auto simp: pool_ok_def)
  show ?thesis
  proof (cases xs rule: rev_cases)
    case Nil
    then have "merge_prev a m offs sz = Some (a, offs, sz)"
      using prev mlen by (simp add: merge_prev_def)
    with Nil prev show ?thesis
      by (intro exI [of _ a] exI [of _ "[]"]) (use pool bins in \<open>auto simp: merge_rel_def merged_def\<close>)
  next
    case (snoc xs' p)
    then have pU: "p \<in> U" "p < length (nodes a)" and pm: "prev_block a m = Some p" "p \<noteq> m"
      using xs prev pool by (auto simp: pool_ok_def)
    show ?thesis
    proof (cases "block_used a p")
      case True
      then have "merge_prev a m offs sz = Some (a, offs, sz)"
        using pm pU mlen by (simp add: merge_prev_def)
      with snoc True prev show ?thesis
        by (intro exI [of _ a] exI [of _ xs] exI [of _ "[]"])
          (use pool bins in \<open>auto simp: merge_rel_def merged_def\<close>)
    next
      case False
      have sizes: "block_size a p < u32_bound" "sz + block_size a p < u32_bound"
        "block_size a p \<le> free_storage a"
        using room snoc False by (auto simp: free_sum_append free_sum_Cons)
      from remove_node_from_bin_ok [OF bins pool pU(1) False sizes(1,3)] obtain b L' where
        rm: "remove_node_from_bin a p = Some b" and bins_b: "bins_ok b L' (U - {p})"
        and pool_b: "pool_ok b (U - {p})" and fs: "free_storage b = free_storage a - block_size a p"
        and same: "alloc_size b = alloc_size a" "max_allocs b = max_allocs a"
          "layout_revision b = layout_revision a"
        and blk: "\<And>k. same_block (node_of b k) (node_of a k)"
        by blast
      have blens: "length (nodes b) = length (nodes a)"
        using pool pool_b same by (simp add: pool_ok_def)
      define d where "d = b\<lparr>nodes := (nodes b)[m := (node_of b m)\<lparr>neighbor_prev := prev_block b p\<rparr>]\<rparr>"
      have prevp: "prev_block b p = final None xs'"
        using blk [of p] before snoc by (simp add: same_block_def)
      have "next_block b p = Some m" using blk [of p] mutual snoc by (simp add: same_block_def)
      then have eq: "merge_prev a m offs sz = Some (d, block_offset a p, sz + block_size a p)"
        using pm pU mlen False sizes rm blens
        by (simp add: merge_prev_def checked_add_def d_def)
      have d_prev: "prev_block d k = (if k = m then final None xs' else prev_block a k)" for k
        using blk [of k] prevp mlen blens by (auto simp: d_def same_block_def nth_list_update)
      have d_same: "next_block d k = next_block a k \<and> block_offset d k = block_offset a k \<and>
           block_size d k = block_size a k \<and> block_used d k = block_used a k" for k
        using blk [of k] mlen blens by (auto simp: d_def same_block_def nth_list_update)
      have pool_d: "pool_ok d (U - {p})" using pool_b by (rule pool_ok_frame) (simp_all add: d_def)
      have bins_d: "bins_ok d L' (U - {p})"
        using bins_b mlen blens by (elim bins_ok_frame) (auto simp: d_def nth_list_update)
      show ?thesis
        using eq snoc False pool_d bins_d fs same sizes d_prev d_same
        by (intro exI [of _ d] exI [of _ xs'] exI [of _ "[p]"]) (auto simp: merge_rel_def merged_def d_def)
    qed
  qed
qed

lemma merge_next_ok:
  assumes pool: "pool_ok a U" and bins: "bins_ok a L U" and m: "m \<in> U"
    and zs: "set zs \<subseteq> U" "m \<notin> set zs" and nxt: "next_block a m = first zs None"
    and after: "zs \<noteq> [] \<longrightarrow> next_block a (hd zs) = first (tl zs) None"
    and mutual: "zs \<noteq> [] \<longrightarrow> prev_block a (hd zs) = Some m"
    and room: "sz + block_sum a zs < u32_bound" "free_sum a zs \<le> free_storage a"
  shows "\<exists>a' zs' qs.
    merge_next a m sz = Some (a', sz + block_sum a qs) \<and>
    zs = qs @ zs' \<and> (qs = [] \<longrightarrow> zs' = [] \<or> block_used a (hd zs')) \<and> merge_rel a U qs a' \<and>
    (\<forall>k. next_block a' k = (if k = m then first zs' None else next_block a k)) \<and>
    (\<forall>k. prev_block a' k = prev_block a k)"
proof -
  have mlen: "m < length (nodes a)" using m pool by (auto simp: pool_ok_def)
  show ?thesis
  proof (cases zs)
    case Nil
    then have "merge_next a m sz = Some (a, sz)"
      using nxt mlen by (simp add: merge_next_def)
    with Nil nxt show ?thesis
      by (intro exI [of _ a] exI [of _ "[]"]) (use pool bins in \<open>auto simp: merge_rel_def merged_def\<close>)
  next
    case (Cons q zs')
    then have qU: "q \<in> U" "q < length (nodes a)" and qm: "next_block a m = Some q" "q \<noteq> m"
      using zs nxt pool by (auto simp: pool_ok_def)
    show ?thesis
    proof (cases "block_used a q")
      case True
      then have "merge_next a m sz = Some (a, sz)"
        using qm qU mlen by (simp add: merge_next_def)
      with Cons True nxt show ?thesis
        by (intro exI [of _ a] exI [of _ zs] exI [of _ "[]"])
          (use pool bins in \<open>auto simp: merge_rel_def merged_def\<close>)
    next
      case False
      have sizes: "block_size a q < u32_bound" "sz + block_size a q < u32_bound"
        "block_size a q \<le> free_storage a"
        using room Cons False by (auto simp: free_sum_Cons)
      from remove_node_from_bin_ok [OF bins pool qU(1) False sizes(1,3)] obtain b L' where
        rm: "remove_node_from_bin a q = Some b" and bins_b: "bins_ok b L' (U - {q})"
        and pool_b: "pool_ok b (U - {q})" and fs: "free_storage b = free_storage a - block_size a q"
        and same: "alloc_size b = alloc_size a" "max_allocs b = max_allocs a"
          "layout_revision b = layout_revision a"
        and blk: "\<And>k. same_block (node_of b k) (node_of a k)"
        by blast
      have blens: "length (nodes b) = length (nodes a)"
        using pool pool_b same by (simp add: pool_ok_def)
      define d where "d = b\<lparr>nodes := (nodes b)[m := (node_of b m)\<lparr>neighbor_next := next_block b q\<rparr>]\<rparr>"
      have nextq: "next_block b q = first zs' None"
        using blk [of q] after Cons by (simp add: same_block_def)
      have "prev_block b q = Some m" using blk [of q] mutual Cons by (simp add: same_block_def)
      then have eq: "merge_next a m sz = Some (d, sz + block_size a q)"
        using qm qU mlen False sizes rm blens
        by (simp add: merge_next_def checked_add_def d_def)
      have d_next: "next_block d k = (if k = m then first zs' None else next_block a k)" for k
        using blk [of k] nextq mlen blens by (auto simp: d_def same_block_def nth_list_update)
      have d_same: "prev_block d k = prev_block a k \<and> block_offset d k = block_offset a k \<and>
           block_size d k = block_size a k \<and> block_used d k = block_used a k" for k
        using blk [of k] mlen blens by (auto simp: d_def same_block_def nth_list_update)
      have pool_d: "pool_ok d (U - {q})" using pool_b by (rule pool_ok_frame) (simp_all add: d_def)
      have bins_d: "bins_ok d L' (U - {q})"
        using bins_b mlen blens by (elim bins_ok_frame) (auto simp: d_def nth_list_update)
      show ?thesis
        using eq Cons False pool_d bins_d fs same sizes d_next d_same
        by (intro exI [of _ d] exI [of _ zs'] exI [of _ "[q]"]) (auto simp: merge_rel_def merged_def d_def)
    qed
  qed
qed

text \<open>Replacing a block and its merged neighbors by one free block.\<close>

lemma merge_block_ok:
  assumes blocks: "blocks_ok a (xs @ (ps @ m # qs) @ zs)" and used: "block_used a m"
    and mps: "merged a ps" and mqs: "merged a qs"
    and edge: "ps = [] \<Longrightarrow> xs = [] \<or> block_used a (last xs)" "qs = [] \<Longrightarrow> zs = [] \<or> block_used a (hd zs)"
    and size': "alloc_size d = alloc_size a" "free_storage d = free_storage a + block_size a m"
    and nx: "\<And>k. next_block d k = (if k = m then first zs None
          else if xs \<noteq> [] \<and> k = last xs then Some m else next_block a k)"
    and pv: "\<And>k. prev_block d k = (if k = m then final None xs
          else if zs \<noteq> [] \<and> k = hd zs then Some m else prev_block a k)"
    and off: "\<And>k. block_offset d k =
          (if k = m then block_offset a (hd (ps @ [m])) else block_offset a k)"
    and bs: "\<And>k. block_size d k = (if k = m then block_sum a (ps @ m # qs) else block_size a k)"
    and us: "\<And>k. block_used d k = (if k = m then False else block_used a k)"
  shows "blocks_ok d (xs @ m # zs)"
proof -
  let ?mid = "ps @ m # qs"
  have dist: "distinct (xs @ ?mid @ zs)" and dl: "dll (next_block a) (prev_block a) None (xs @ ?mid @ zs) None"
    and tl: "tiles (block_offset a) (block_size a) 0 (xs @ ?mid @ zs) (alloc_size a)"
    and fs: "free_storage a = free_sum a (xs @ ?mid @ zs)" and co: "coalesced a (xs @ ?mid @ zs)"
    and u: "alloc_size a < u32_bound"
    using blocks by (auto simp: blocks_ok_def)
  have hz: "zs \<noteq> [] \<Longrightarrow> hd zs \<in> set zs" "xs \<noteq> [] \<Longrightarrow> last xs \<in> set xs" by simp_all
  have xz: "k \<noteq> l" if "k \<in> set xs" "l \<in> set zs" for k l using that dist by auto
  have out: "k \<noteq> m" if "k \<in> set xs \<union> set zs" for k using that dist by auto
  have dl': "dll (next_block d) (prev_block d) None (xs @ [m] @ zs) None"
  proof (rule dll_replace [OF dl])
    show "dll (next_block d) (prev_block d) (final None xs) [m] (first zs None)"
      by (simp add: nx pv)
    fix k assume k: "k \<in> set xs"
    then have "zs \<noteq> [] \<Longrightarrow> k \<noteq> hd zs" "xs \<noteq> []" using xz hz by auto
    then show "prev_block d k = prev_block a k \<and>
        next_block d k = (if k = last xs then Some (hd [m]) else next_block a k)"
      using out k by (auto simp: nx pv)
  next
    fix k assume k: "k \<in> set zs"
    then have "xs \<noteq> [] \<Longrightarrow> k \<noteq> last xs" "zs \<noteq> []" using xz [OF hz(2)] by auto
    then show "next_block d k = next_block a k \<and>
        prev_block d k = (if k = hd zs then Some (last [m]) else prev_block a k)"
      using out k by (auto simp: nx pv)
  qed (use dist in auto)
  have tl': "tiles (block_offset d) (block_size d) 0 (xs @ [m] @ zs) (alloc_size a)"
  proof (rule tiles_replace [OF tl])
    show "block_offset d b = block_offset a b \<and> block_size d b = block_size a b"
      if "b \<in> set xs \<union> set zs" for b
      using out [OF that] by (simp add: off bs)
    have "tiles (block_offset a) (block_size a) (sum_list (map (block_size a) xs)) (?mid @ zs) (alloc_size a)"
      using tl by (simp add: tiles_append)
    then have "block_offset a (hd (ps @ [m])) = sum_list (map (block_size a) xs)"
      by (cases ps) auto
    then show "tiles (block_offset d) (block_size d) (0 + sum_list (map (block_size a) xs)) [m]
        (0 + sum_list (map (block_size a) xs) + sum_list (map (block_size a) ?mid))"
      by (simp add: off bs block_sum_def)
  qed
  have rest: "free_sum d xs = free_sum a xs" "free_sum d zs = free_sum a zs"
    using out by (auto intro!: free_sum_cong simp: us bs split: if_splits)
  have mid: "free_sum a ps = block_sum a ps" "free_sum a qs = block_sum a qs"
    using mps mqs by (auto simp: merged_def free_sum_Cons)
  have fs': "free_storage d = free_sum d (xs @ [m] @ zs)"
    using fs size' used mid
    by (simp add: free_sum_append free_sum_Cons rest us bs)
  have us': "block_used d k = block_used a k" if "k \<in> set xs \<union> set zs" for k
    using out [OF that] by (simp add: us)
  have "coalesced d xs = coalesced a xs" "coalesced d zs = coalesced a zs"
    using us' by (auto intro!: coalesced_cong)
  moreover have "xs = [] \<or> block_used a (last xs)" "zs = [] \<or> block_used a (hd zs)"
    using co edge mps mqs by (auto simp: merged_def coalesced_append coalesced_Cons)
  ultimately have co': "coalesced d (xs @ [m] @ zs)"
    using co us' hz by (auto simp: coalesced_append coalesced_Cons)
  show ?thesis
    using dl' tl' fs' co' size' u dist by (auto simp: blocks_ok_def)
qed

lemma bins_ok_drop_used:
  assumes "bins_ok a L U" and "block_used a m"
  shows "bins_ok a L (U - {m})"
proof -
  have "{k \<in> U - {m}. \<not> block_used a k \<and> bin_of a k = i} = {k \<in> U. \<not> block_used a k \<and> bin_of a k = i}" for i
    using assms(2) by auto
  with assms(1) show ?thesis by (simp add: bins_ok_def)
qed

definition freed :: "allocator \<Rightarrow> nat \<Rightarrow> allocator \<Rightarrow> bool" where
  "freed a m a' \<longleftrightarrow>
     live a' = live a - {m} \<and>
     (\<forall>k \<in> live a'. block_offset a' k = block_offset a k \<and> block_size a' k = block_size a k) \<and>
     free_storage a' = free_storage a + block_size a m \<and>
     alloc_size a' = alloc_size a \<and> max_allocs a' = max_allocs a \<and>
     layout_revision a' = Suc (layout_revision a)"

text \<open>Making two blocks physical neighbours.\<close>

definition attach :: "allocator \<Rightarrow> nat \<Rightarrow> nat \<Rightarrow> allocator" where
  "attach a p n = a\<lparr>nodes := (nodes a)
      [p := (node_of a p)\<lparr>neighbor_next := Some n\<rparr>, n := (node_of a n)\<lparr>neighbor_prev := Some p\<rparr>]\<rparr>"

lemma attach_code:
  assumes "p \<noteq> n" "p < length (nodes a)" "n < length (nodes a)"
  shows "do { a \<leftarrow> update_node a p (\<lambda>x. x\<lparr>neighbor_next := Some n\<rparr>);
              update_node a n (\<lambda>x. x\<lparr>neighbor_prev := Some p\<rparr>) } = Some (attach a p n)"
    and "do { a \<leftarrow> update_node a n (\<lambda>x. x\<lparr>neighbor_prev := Some p\<rparr>);
              update_node a p (\<lambda>x. x\<lparr>neighbor_next := Some n\<rparr>) } = Some (attach a p n)"
  using assms by (simp_all add: attach_def list_update_swap [of n p])

lemma attach_fields:
  assumes "p \<noteq> n" "p < length (nodes a)" "n < length (nodes a)"
  shows "next_block (attach a p n) k = (if k = p then Some n else next_block a k)"
    and "prev_block (attach a p n) k = (if k = n then Some p else prev_block a k)"
    and "bin_next (attach a p n) k = bin_next a k" and "bin_prev (attach a p n) k = bin_prev a k"
    and "block_used (attach a p n) k = block_used a k" and "block_size (attach a p n) k = block_size a k"
    and "block_offset (attach a p n) k = block_offset a k"
  using assms by (simp_all add: attach_def nth_list_update)

lemma attach_rest [simp]:
  "length (nodes (attach a p n)) = length (nodes a)" "free_nodes (attach a p n) = free_nodes a"
  "free_offset (attach a p n) = free_offset a" "max_allocs (attach a p n) = max_allocs a"
  "alloc_size (attach a p n) = alloc_size a" "free_storage (attach a p n) = free_storage a"
  "layout_revision (attach a p n) = layout_revision a" "used_bins (attach a p n) = used_bins a"
  "used_bins_top (attach a p n) = used_bins_top a" "bin_indices (attach a p n) = bin_indices a"
  by (simp_all add: attach_def)

lemma free_rep:
  assumes rep: "alloc_rep a bs L" and m: "m \<in> live a" "metadata al = m"
    and rev: "Suc (layout_revision a) < u64_bound"
  shows "\<exists>a' bs' L'. free a al = Some a' \<and> alloc_rep a' bs' L' \<and> freed a m a'"
proof -
  have pool: "pool_ok a (set bs)" and bins: "bins_ok a L (set bs)" and blocks: "blocks_ok a bs"
    using rep by (auto simp: alloc_rep_def)
  have mU: "m \<in> set bs" "block_used a m" using m live_rep [OF pool] by auto
  have mlen: "m < length (nodes a)" using mU pool by (auto simp: pool_ok_def)
  obtain xs0 zs0 where bs: "bs = xs0 @ m # zs0" using mU(1) by (auto simp: in_set_conv_decomp)
  have dist: "distinct bs" and dl: "dll (next_block a) (prev_block a) None bs None"
    and tl: "tiles (block_offset a) (block_size a) 0 bs (alloc_size a)"
    and fsum: "free_storage a = free_sum a bs" and u: "alloc_size a < u32_bound"
    using blocks by (auto simp: blocks_ok_def)
  have total: "block_sum a xs0 + block_size a m + block_sum a zs0 < u32_bound"
    using tiles_sum [OF tl] u bs by (simp add: block_sum_def)
  have fs: "free_storage a = free_sum a xs0 + free_sum a zs0"
    using fsum bs mU(2) by (simp add: free_sum_append free_sum_Cons)
  have links: "prev_block a m = final None xs0" "next_block a m = first zs0 None"
    using dl bs by (auto simp: dll_append)
  have before: "xs0 \<noteq> [] \<longrightarrow> prev_block a (last xs0) = final None (butlast xs0)"
    using dl unfolding bs by (cases xs0 rule: rev_cases) (auto simp: dll_append)
  have after: "zs0 \<noteq> [] \<longrightarrow> next_block a (hd zs0) = first (tl zs0) None"
    using dl unfolding bs by (cases zs0) (auto simp: dll_append)
  have mutual: "xs0 \<noteq> [] \<longrightarrow> next_block a (last xs0) = Some m" "zs0 \<noteq> [] \<longrightarrow> prev_block a (hd zs0) = Some m"
    using dl unfolding bs by (cases xs0 rule: rev_cases; cases zs0; auto simp: dll_append)+
  have room1: "block_size a m + block_sum a xs0 < u32_bound" "free_sum a xs0 \<le> free_storage a"
    using total fs by auto
  have sub: "set xs0 \<subseteq> set bs" "m \<notin> set xs0" "set zs0 \<subseteq> set bs" "m \<notin> set zs0"
    using bs dist by auto
  from merge_prev_ok [OF pool bins mU(1) sub(1,2) links(1) before mutual(1) room1, of "block_offset a m"]
  obtain b xs ps where mp: "merge_prev a m (block_offset a m) (block_size a m) =
       Some (b, (if ps = [] then block_offset a m else block_offset a (hd ps)), block_size a m + block_sum a ps)"
    and xs: "xs0 = xs @ ps" "ps = [] \<longrightarrow> xs = [] \<or> block_used a (last xs)"
    and rel_b: "merge_rel a (set bs) ps b"
    and b_prev: "\<forall>k. prev_block b k = (if k = m then final None xs else prev_block a k)"
    and b_next: "\<forall>k. next_block b k = next_block a k"
    by (elim exE conjE)
  from rel_b obtain L1 where mps: "merged a ps" and pool_b: "pool_ok b (set bs - set ps)"
    and bins_b: "bins_ok b L1 (set bs - set ps)"
    and fs_b: "free_storage a = free_storage b + block_sum a ps"
    and b_same: "alloc_size b = alloc_size a" "max_allocs b = max_allocs a" "layout_revision b = layout_revision a"
    and b_blk: "\<And>k. block_offset b k = block_offset a k \<and> block_size b k = block_size a k \<and>
           block_used b k = block_used a k"
    by (auto simp: merge_rel_def)
  have zsub: "set zs0 \<subseteq> set bs - set ps" and mb: "m \<in> set bs - set ps"
    using bs dist xs(1) by auto
  have links_b: "next_block b m = first zs0 None" using links b_next by simp
  have after_b: "zs0 \<noteq> [] \<longrightarrow> next_block b (hd zs0) = first (tl zs0) None"
    using after b_next by simp
  have mutual_b: "zs0 \<noteq> [] \<longrightarrow> prev_block b (hd zs0) = Some m"
    using mutual(2) b_prev sub(4) by (cases zs0) auto
  have sums_b: "block_sum b ys = block_sum a ys" "free_sum b ys = free_sum a ys" "merged b ys = merged a ys" for ys
    using b_blk by (auto intro!: free_sum_cong simp: block_sum_def merged_def)
  have mid: "free_sum a ps = block_sum a ps" using mps by (auto simp: merged_def free_sum_Cons)
  have room2: "block_size a m + block_sum a ps + block_sum b zs0 < u32_bound" "free_sum b zs0 \<le> free_storage b"
    using total fs fs_b xs(1) mid unfolding sums_b by (auto simp: free_sum_append)
  from merge_next_ok [OF pool_b bins_b mb zsub sub(4) links_b after_b mutual_b room2]
  obtain c zs qs where mn: "merge_next b m (block_size a m + block_sum a ps) =
       Some (c, block_size a m + block_sum a ps + block_sum b qs)"
    and zs: "zs0 = qs @ zs" "qs = [] \<longrightarrow> zs = [] \<or> block_used b (hd zs)"
    and rel_c: "merge_rel b (set bs - set ps) qs c"
    and c_next: "\<forall>k. next_block c k = (if k = m then first zs None else next_block b k)"
    and c_prev: "\<forall>k. prev_block c k = prev_block b k"
    by (elim exE conjE)
  from rel_c obtain L2 where mqs: "merged b qs" and pool_c: "pool_ok c (set bs - set ps - set qs)"
    and bins_c: "bins_ok c L2 (set bs - set ps - set qs)"
    and fs_c: "free_storage b = free_storage c + block_sum b qs"
    and c_same: "alloc_size c = alloc_size b" "max_allocs c = max_allocs b" "layout_revision c = layout_revision b"
    and c_blk: "\<And>k. block_offset c k = block_offset b k \<and> block_size c k = block_size b k \<and>
           block_used c k = block_used b k"
    by (auto simp: merge_rel_def)
  define U where "U = set bs - set ps - set qs"
  have U: "U = insert m (set xs \<union> set zs)" "m \<notin> set xs \<union> set zs"
    using bs xs(1) zs(1) dist by (auto simp: U_def)
  have c_a: "block_offset c k = block_offset a k" "block_size c k = block_size a k"
    "block_used c k = block_used a k"
    "prev_block c k = (if k = m then final None xs else prev_block a k)"
    "next_block c k = (if k = m then first zs None else next_block a k)" for k
    using b_blk c_blk b_prev b_next c_prev c_next by simp_all
  define offs where "offs = block_offset a (hd (ps @ [m]))"
  define total where "total = block_sum a (ps @ m # qs)"
  define e where "e = c\<lparr>free_offset := Suc (free_offset c), free_nodes := (free_nodes c)[Suc (free_offset c) := m]\<rparr>"
  have mUc: "m \<in> U" using U by simp
  note push = push_free_node_ok [OF pool_c [folded U_def] mUc, folded e_def]
  have "block_used c m" using mU(2) c_a(3) by simp
  then have "bins_ok c L2 (U - {m})" by (rule bins_ok_drop_used [OF bins_c [folded U_def]])
  then have bins_e: "bins_ok e L2 (U - {m})"
    by (rule bins_ok_frame) (simp_all add: e_def)
  have top: "free_nodes e ! free_offset e = m" "0 < free_offset e"
    using push(2) by (simp_all add: e_def pool_ok_def)
  have tot: "total < u32_bound" "free_storage e + total < u32_bound"
    using total fs fs_b fs_c xs(1) zs(1) free_sum_le [of a "xs"] free_sum_le [of a zs] mqs mps
    unfolding sums_b
    by (auto simp: total_def e_def free_sum_append block_sum_def [symmetric] merged_def free_sum_Cons)
  obtain f where ins: "insert_node_into_bin e total offs = Some (f, m)"
    and bins_f: "\<exists>L'. bins_ok f L' U" and pool_f: "pool_ok f U"
    and fs_f: "free_storage f = free_storage e + total"
    and f_same: "alloc_size f = alloc_size e" "max_allocs f = max_allocs e" "layout_revision f = layout_revision e"
    and f_m: "same_block (node_of f m) (node_default\<lparr>data_offset := offs, data_size := total\<rparr>)"
    and f_other: "\<And>k. k \<noteq> m \<Longrightarrow> same_block (node_of f k) (node_of e k)"
    using insert_node_into_bin_ok [OF bins_e push(2) top(2) tot, of offs] mUc
    unfolding top(1) by (metis insert_Diff)
  have f_len: "length (nodes f) = length (nodes a)" "set xs \<union> set zs \<subseteq> {..<length (nodes f)}"
    "m < length (nodes f)"
    using pool_f pool U f_same c_same b_same by (auto simp: pool_ok_def e_def)
  define f1 where "f1 = (if zs = [] then f else attach f m (hd zs))"
  define d1 where "d1 = (if xs = [] then f1 else attach f1 (last xs) m)"
  define d where "d = d1\<lparr>layout_revision := Suc (layout_revision a)\<rparr>"
  have hz: "hd zs \<noteq> m \<and> hd zs < length (nodes f)" if "zs \<noteq> []"
    using that U(2) f_len by (cases zs) auto
  have lx: "last xs \<noteq> m \<and> last xs < length (nodes f)" if "xs \<noteq> []"
    using that U(2) f_len by (cases xs rule: rev_cases) auto
  have mlen_c: "m < length (nodes c)" using pool_c mUc by (auto simp: pool_ok_def U_def)
  have mp': "merge_prev a m (block_offset a m) (block_size a m) = Some (b, offs, block_size a m + block_sum a ps)"
    using mp by (cases ps) (simp_all add: offs_def)
  have mn': "merge_next b m (block_size a m + block_sum a ps) = Some (c, total)"
    using mn by (simp add: total_def sums_b ac_simps)
  have c_m: "next_block c m = first zs None" "prev_block c m = final None xs"
    using c_a(4,5) [of m] by simp_all
  have st_z: "(case first zs None of None \<Rightarrow> Some f | Some q \<Rightarrow>
       do { a \<leftarrow> update_node f m (\<lambda>n. n\<lparr>neighbor_next := Some q\<rparr>);
            update_node a q (\<lambda>n. n\<lparr>neighbor_prev := Some m\<rparr>) }) = Some f1"
  proof (cases zs)
    case (Cons q zs')
    then have "m \<noteq> q" "q < length (nodes f)" using hz by auto
    from attach_code(1) [OF this(1) f_len(3) this(2)] Cons show ?thesis
      by (simp only: f1_def option.case first_simps list.sel list.distinct if_False)
  qed (simp add: f1_def)
  have f1_len: "length (nodes f1) = length (nodes f)" by (simp add: f1_def)
  have st_x: "(case final None xs of None \<Rightarrow> Some f1 | Some p \<Rightarrow>
       do { a \<leftarrow> update_node f1 m (\<lambda>n. n\<lparr>neighbor_prev := Some p\<rparr>);
            update_node a p (\<lambda>n. n\<lparr>neighbor_next := Some m\<rparr>) }) = Some d1"
  proof (cases "xs = []")
    case False
    then have "last xs \<noteq> m" "last xs < length (nodes f1)" "m < length (nodes f1)"
      using lx f_len(3) f1_len by auto
    from attach_code(2) [OF this] False show ?thesis
      by (simp only: d1_def option.case final_def if_False)
  qed (simp add: d1_def final_def)
  have eq: "free a al = Some d"
    using m(2) mlen mU(2) rev mlen_c
    by (simp add: free_def Let_def next_layout_revision_def checked_add_def mp' mn' c_m push(1) ins st_z st_x
        d_def del: update_node_def)
  have f_a: "block_offset f k = block_offset a k" "block_size f k = block_size a k"
    "block_used f k = block_used a k" "prev_block f k = prev_block a k" "next_block f k = next_block a k"
    if "k \<noteq> m" for k
    using f_other [OF that] c_a [of k] that by (simp_all add: same_block_def e_def)
  have f_mm: "block_offset f m = offs" "block_size f m = total" "\<not> block_used f m"
    "prev_block f m = None" "next_block f m = None"
    using f_m by (simp_all add: same_block_def node_default_def)
  have f1_f: "next_block f1 k = (if zs \<noteq> [] \<and> k = m then Some (hd zs) else next_block f k)"
    "prev_block f1 k = (if zs \<noteq> [] \<and> k = hd zs then Some m else prev_block f k)"
    "bin_next f1 k = bin_next f k" "bin_prev f1 k = bin_prev f k" "block_used f1 k = block_used f k"
    "block_size f1 k = block_size f k" "block_offset f1 k = block_offset f k" for k
    using attach_fields [of m "hd zs" f k] hz f_len(3) by (cases "zs = []"; simp add: f1_def)+
  have d_f: "next_block d k = (if xs \<noteq> [] \<and> k = last xs then Some m else next_block f1 k)"
    "prev_block d k = (if xs \<noteq> [] \<and> k = m then Some (last xs) else prev_block f1 k)"
    "bin_next d k = bin_next f k" "bin_prev d k = bin_prev f k" "block_used d k = block_used f k"
    "block_size d k = block_size f k" "block_offset d k = block_offset f k" for k
    using attach_fields [of "last xs" m f1 k] lx f_len(3) f1_len f1_f [of k]
    by (cases "xs = []"; simp add: d_def d1_def)+
  have d_nx: "next_block d k = (if k = m then first zs None
          else if xs \<noteq> [] \<and> k = last xs then Some m else next_block a k)" for k
    unfolding d_f f1_f using lx f_a [of k] f_mm by (cases zs; cases "k = m") auto
  have d_pv: "prev_block d k = (if k = m then final None xs
          else if zs \<noteq> [] \<and> k = hd zs then Some m else prev_block a k)" for k
    unfolding d_f f1_f using hz f_a [of k] f_mm by (cases "xs = []"; cases "k = m") (auto simp: final_def)
  have d_off: "block_offset d k = (if k = m then offs else block_offset a k)"
    and d_size: "block_size d k = (if k = m then total else block_size a k)"
    and d_used: "block_used d k = (if k = m then False else block_used a k)" for k
    unfolding d_f using f_a [of k] f_mm by simp_all
  have d_rest: "alloc_size d = alloc_size a" "max_allocs d = max_allocs a"
    "layout_revision d = Suc (layout_revision a)" "free_storage d = free_storage a + block_size a m"
    using f_same c_same b_same fs_f fs_b fs_c unfolding sums_b
    by (simp_all add: d_def d1_def f1_def e_def total_def)
  have pool_d: "pool_ok d U" using pool_f by (rule pool_ok_frame) (simp_all add: d_def d1_def f1_def)
  obtain L' where "bins_ok f L' U" using bins_f by (elim exE)
  then have "bins_ok d L' U"
    by (rule bins_ok_frame) (simp_all only: d_f, simp_all add: d_def d1_def f1_def)
  have whole: "blocks_ok a (xs @ (ps @ m # qs) @ zs)" using blocks bs xs(1) zs(1) by simp
  have mqs_a: "merged a qs" using mqs sums_b by simp
  have edge: "xs = [] \<or> block_used a (last xs)" if "ps = []" using xs(2) that by blast
  have edge': "zs = [] \<or> block_used a (hd zs)" if "qs = []" using zs(2) that by (simp only: b_blk)
  have "blocks_ok d (xs @ m # zs)"
    by (rule merge_block_ok [OF whole mU(2) mps mqs_a edge edge' d_rest(1,4) d_nx d_pv
          d_off [unfolded offs_def] d_size [unfolded total_def] d_used])
  moreover have "set (xs @ m # zs) = U" using U(1) by simp
  ultimately have "alloc_rep d (xs @ m # zs) L'"
    using pool_d \<open>bins_ok d L' U\<close> by (simp add: alloc_rep_def)
  then have rep_d: "\<exists>bs' L'. alloc_rep d bs' L'" by (intro exI)
  have bsU: "set bs = U \<union> set ps \<union> set qs" using bs xs(1) zs(1) U(1) by auto
  have unused: "\<not> block_used a k" if "k \<in> set ps \<union> set qs" for k
    using that mps mqs_a by (auto simp: merged_def)
  have "live d = {k \<in> U. k \<noteq> m \<and> block_used a k}"
    unfolding live_rep [OF pool_d] d_used by auto
  also have "\<dots> = live a - {m}"
    unfolding live_rep [OF pool] bsU using unused by blast
  finally have live_d: "live d = live a - {m}" .
  then have "freed a m d"
    using d_rest by (simp add: freed_def d_off d_size)
  with eq rep_d show ?thesis by blast
qed

end
