(* ===== verification/Region_Allocator.thy ===== *)
theory Region_Allocator
  imports Offset_Allocator_Correct
begin

text \<open>
  What clients of the offset allocator (the owner segments of \<open>client_kv_api\<close> and the
  master's pool allocators) rely on: a fresh allocator satisfies the invariant, and over any
  sequence of allocations and frees of held regions no operation panics, the held regions are
  inside the managed range and pairwise disjoint, and every unit is either held or free.
  The laws are the locale \<open>region_allocator\<close>, interpreted on the offset allocator.
\<close>

section \<open>A fresh allocator\<close>

lemma fresh_bins_ok:
  assumes "length (used_bins a) = NUM_TOP_BINS" "length (bin_indices a) = NUM_LEAF_BINS"
    and "used_bins_top a = 0" "\<forall>t < NUM_TOP_BINS. used_bins a ! t = 0"
    and "\<forall>i < NUM_LEAF_BINS. bin_indices a ! i = None"
  shows "bins_ok a (\<lambda>_. []) {}"
proof -
  have "8 * t + l < NUM_LEAF_BINS" if "t < NUM_TOP_BINS" "l < 8" for t l :: nat
    using that by simp
  then show ?thesis
    using assms by (auto simp: bins_ok_def bitmap_ok_def)
qed

lemma fresh_pool_ok:
  assumes "0 < max_allocs a" "max_allocs a < u32_bound" "free_offset a = max_allocs a - 1"
    and "length (nodes a) = max_allocs a" "free_nodes a = map (\<lambda>i. max_allocs a - i - 1) [0..<max_allocs a]"
  shows "pool_ok a {}"
proof -
  let ?f = "\<lambda>i. max_allocs a - i - 1"
  have stack: "free_stack a = map ?f [0..<max_allocs a]"
    using assms by (simp add: free_stack_def)
  have "?f ` {..<max_allocs a} = {..<max_allocs a}"
  proof (intro equalityI subsetI)
    fix x assume "x \<in> {..<max_allocs a}"
    then have "x = ?f (?f x)" "?f x \<in> {..<max_allocs a}" by auto
    then show "x \<in> ?f ` {..<max_allocs a}" by blast
  qed auto
  moreover have "inj_on ?f {..<max_allocs a}" by (auto simp: inj_on_def)
  ultimately show ?thesis
    using assms stack by (simp add: pool_ok_def distinct_map atLeast0LessThan)
qed

definition pristine :: "allocator \<Rightarrow> bool" where
  "pristine a \<longleftrightarrow> live a = {} \<and> free_storage a = alloc_size a \<and>
     (\<exists>n. free_blocks a = {n} \<and> block_offset a n = 0 \<and> block_size a n = alloc_size a)"

lemma reset_rep:
  assumes maxa: "2 \<le> max_allocs a" "max_allocs a < u32_bound" and u: "alloc_size a < u32_bound"
    and lens: "length (used_bins a) = NUM_TOP_BINS" "length (bin_indices a) = NUM_LEAF_BINS"
    and rev: "Suc (layout_revision a) < u64_bound"
  shows "\<exists>a' bs L. reset a = Some a' \<and> alloc_rep a' bs L \<and> pristine a' \<and>
           alloc_size a' = alloc_size a \<and> max_allocs a' = max_allocs a \<and>
           layout_revision a' = Suc (layout_revision a)"
proof -
  define c where "c = a\<lparr>free_storage := 0, used_bins_top := 0, free_offset := max_allocs a - 1,
                used_bins := map (\<lambda>_. 0) (used_bins a),
                bin_indices := map (\<lambda>_. None) (bin_indices a),
                nodes := replicate (max_allocs a) node_default,
                free_nodes := map (\<lambda>i. max_allocs a - i - 1) [0..<max_allocs a]\<rparr>"
  have bins: "bins_ok c (\<lambda>_. []) {}" by (rule fresh_bins_ok) (use lens in \<open>simp_all add: c_def\<close>)
  have pool: "pool_ok c {}" by (rule fresh_pool_ok) (use maxa in \<open>simp_all add: c_def\<close>)
  have pos: "0 < free_offset c" "free_storage c + alloc_size a < u32_bound"
    using maxa u by (simp_all add: c_def)
  obtain b n where ins: "insert_node_into_bin c (alloc_size a) 0 = Some (b, n)"
    and bins_b: "\<exists>L. bins_ok b L {n}" and pool_b: "pool_ok b {n}"
    and fs: "free_storage b = free_storage c + alloc_size a"
    and same: "alloc_size b = alloc_size c" "max_allocs b = max_allocs c" "layout_revision b = layout_revision c"
    and nb: "same_block (node_of b n) (node_default\<lparr>data_offset := 0, data_size := alloc_size a\<rparr>)"
    using insert_node_into_bin_ok [OF bins pool pos(1) u pos(2), of 0] by metis
  define d where "d = b\<lparr>layout_revision := Suc (layout_revision a)\<rparr>"
  have eq: "reset a = Some d"
    using ins maxa rev
    by (simp add: reset_def next_layout_revision_def checked_add_def checked_sub_def c_def d_def)
  have pool_d: "pool_ok d {n}" using pool_b by (rule pool_ok_frame) (simp_all add: d_def)
  obtain L where "bins_ok b L {n}" using bins_b by (elim exE)
  then have "bins_ok d L {n}" by (rule bins_ok_frame) (simp_all add: d_def)
  moreover have nd: "block_offset d n = 0" "block_size d n = alloc_size a" "\<not> block_used d n"
      "next_block d n = None" "prev_block d n = None"
    using nb by (simp_all add: same_block_def node_default_def d_def)
  moreover have "blocks_ok d [n]"
    using nd u fs same by (simp add: blocks_ok_def free_sum_def) (simp add: d_def c_def)
  ultimately have "alloc_rep d [n] L" using pool_d by (simp add: alloc_rep_def)
  moreover have "pristine d"
    using nd fs same live_rep [OF pool_d] free_blocks_rep [OF pool_d]
    by (auto simp: pristine_def d_def c_def)
  ultimately show ?thesis using eq same by (auto simp: d_def c_def)
qed

lemma with_max_allocs_rep:
  assumes "2 \<le> n" "n < u32_bound - 2" "sz < u32_bound"
  shows "\<exists>a bs L. with_max_allocs sz n = Some a \<and> alloc_rep a bs L \<and> pristine a \<and>
           alloc_size a = sz \<and> max_allocs a = n \<and> layout_revision a = 1"
proof -
  let ?a = "\<lparr>alloc_size = sz, max_allocs = n, free_storage = 0, layout_revision = 0,
                 used_bins_top = 0, used_bins = replicate NUM_TOP_BINS 0,
                 bin_indices = replicate NUM_LEAF_BINS None, nodes = [], free_nodes = [],
                 free_offset = 0\<rparr>"
  have "with_max_allocs sz n = reset ?a" using assms(2) by (simp add: with_max_allocs_def)
  with reset_rep [of ?a] assms show ?thesis by simp
qed

section \<open>The contract\<close>

text \<open>
  A region allocator hands out regions, named by \<open>'r\<close>, of a range of \<open>cap a\<close> units.
  \<open>regions a\<close> is the set handed out and not yet freed. Operations that may panic return an
  option; \<open>room a\<close> says that the bookkeeping counters still have room for one operation.
\<close>

locale region_allocator =
  fixes inv :: "'a \<Rightarrow> bool"
    and room :: "'a \<Rightarrow> bool"
    and cap :: "'a \<Rightarrow> nat"
    and regions :: "'a \<Rightarrow> 'r set"
    and start :: "'a \<Rightarrow> 'r \<Rightarrow> nat"
    and len :: "'a \<Rightarrow> 'r \<Rightarrow> nat"
    and spare :: "'a \<Rightarrow> nat"
    and alloc :: "'a \<Rightarrow> nat \<Rightarrow> ('a \<times> 'r option) option"
    and release :: "'a \<Rightarrow> 'r \<Rightarrow> 'a option"
  assumes regions_finite: "inv a \<Longrightarrow> finite (regions a)"
    and region_bounds: "inv a \<Longrightarrow> r \<in> regions a \<Longrightarrow> start a r + len a r \<le> cap a"
    and regions_disjoint: "inv a \<Longrightarrow> r \<in> regions a \<Longrightarrow> q \<in> regions a \<Longrightarrow> r \<noteq> q \<Longrightarrow>
      start a r + len a r \<le> start a q \<or> start a q + len a q \<le> start a r"
    and accounted: "inv a \<Longrightarrow> (\<Sum>r \<in> regions a. len a r) + spare a = cap a"
    and alloc_total: "inv a \<Longrightarrow> room a \<Longrightarrow> n \<le> cap a \<Longrightarrow>
      (\<exists>a' r. alloc a n = Some (a', r))"
    and alloc_None: "inv a \<Longrightarrow> room a \<Longrightarrow> n \<le> cap a \<Longrightarrow> alloc a n = Some (a', None) \<Longrightarrow> a' = a"
    and alloc_Some: "inv a \<Longrightarrow> room a \<Longrightarrow> n \<le> cap a \<Longrightarrow> alloc a n = Some (a', Some r) \<Longrightarrow>
      inv a' \<and> cap a' = cap a \<and> r \<notin> regions a \<and> regions a' = insert r (regions a) \<and> len a' r = n \<and>
      (\<forall>q \<in> regions a. start a' q = start a q \<and> len a' q = len a q)"
    and release_ok: "inv a \<Longrightarrow> room a \<Longrightarrow> r \<in> regions a \<Longrightarrow>
      (\<exists>a'. release a r = Some a' \<and> inv a' \<and> cap a' = cap a \<and> regions a' = regions a - {r} \<and>
        (\<forall>q \<in> regions a'. start a' q = start a q \<and> len a' q = len a q))"
begin

lemma alloc_spare:
  assumes "inv a" "room a" "n \<le> cap a" "alloc a n = Some (a', Some r)"
  shows "spare a = spare a' + n"
proof -
  note new = alloc_Some [OF assms]
  have "(\<Sum>q \<in> regions a'. len a' q) = n + (\<Sum>q \<in> regions a. len a' q)"
    using new regions_finite [OF assms(1)] by simp
  also have "(\<Sum>q \<in> regions a. len a' q) = (\<Sum>q \<in> regions a. len a q)"
    using new by (intro sum.cong) auto
  finally show ?thesis using accounted [OF assms(1)] accounted [of a'] new by linarith
qed

lemma release_spare:
  assumes "inv a" "room a" "r \<in> regions a" "release a r = Some a'"
  shows "spare a' = spare a + len a r"
proof -
  from release_ok [OF assms(1-3)] assms(4)
  have new: "inv a'" "cap a' = cap a" "regions a' = regions a - {r}"
    "\<forall>q \<in> regions a'. start a' q = start a q \<and> len a' q = len a q" by auto
  have "(\<Sum>q \<in> regions a. len a q) = len a r + (\<Sum>q \<in> regions a'. len a q)"
    using new(3) assms(3) regions_finite [OF assms(1)] by (simp add: sum.remove)
  also have "(\<Sum>q \<in> regions a'. len a q) = (\<Sum>q \<in> regions a'. len a' q)"
    using new(4) by (intro sum.cong) auto
  finally show ?thesis using accounted [OF assms(1)] accounted [OF new(1)] new(2) by linarith
qed

lemma spare_all:
  assumes "inv a" "regions a = {}"
  shows "spare a = cap a"
  using accounted [OF assms(1)] assms(2) by simp

lemma region_le_cap:
  assumes "inv a" "r \<in> regions a"
  shows "len a r \<le> cap a - spare a"
proof -
  have "len a r \<le> (\<Sum>q \<in> regions a. len a q)"
    using assms regions_finite by (intro member_le_sum) auto
  with accounted [OF assms(1)] show ?thesis by linarith
qed

end

text \<open>The offset allocator as a region allocator: a region is its node index.\<close>

definition allocate_region :: "allocator \<Rightarrow> u32 \<Rightarrow> (allocator \<times> nat option) option" where
  "allocate_region a sz = map_option (\<lambda>(a', al). (a', map_option metadata al)) (allocate a sz)"

definition free_region :: "allocator \<Rightarrow> nat \<Rightarrow> allocator option" where
  "free_region a m = free a \<lparr>offset = block_offset a m, metadata = m\<rparr>"

definition revision_room :: "allocator \<Rightarrow> bool" where
  "revision_room a \<longleftrightarrow> Suc (layout_revision a) < u64_bound"

lemma free_only_metadata: "metadata al = metadata al' \<Longrightarrow> free a al = free a al'"
  by (simp add: free_def)

lemma live_finite [simp]: "finite (live a)"
  by (simp add: live_def)

lemma alloc_rep_accounted:
  assumes rep: "alloc_rep a bs L"
  shows "(\<Sum>m \<in> live a. block_size a m) + free_storage a = alloc_size a"
proof -
  have pool: "pool_ok a (set bs)" and dist: "distinct bs" and fs: "free_storage a = free_sum a bs"
    and tl: "tiles (block_offset a) (block_size a) 0 bs (alloc_size a)"
    using rep by (auto simp: alloc_rep_def blocks_ok_def)
  have "(\<Sum>m \<in> live a. block_size a m) = (\<Sum>m \<in> set bs. if block_used a m then block_size a m else 0)"
    unfolding live_rep [OF pool] by (intro sum.inter_filter) simp
  moreover have "free_storage a = (\<Sum>m \<in> set bs. if block_used a m then 0 else block_size a m)"
    using dist unfolding fs free_sum_def by (simp add: sum_list_distinct_conv_sum_set)
  ultimately have "(\<Sum>m \<in> live a. block_size a m) + free_storage a = (\<Sum>m \<in> set bs. block_size a m)"
    by (simp add: sum.distrib [symmetric] if_distrib cong: if_cong)
  with tiles_sum [OF tl] dist show ?thesis by (simp add: sum_list_distinct_conv_sum_set)
qed

lemma alloc_rep_regions:
  assumes rep: "alloc_rep a bs L" and m: "m \<in> live a"
  shows "block_offset a m + block_size a m \<le> alloc_size a"
    and "k \<in> live a \<Longrightarrow> m \<noteq> k \<Longrightarrow>
      block_offset a m + block_size a m \<le> block_offset a k \<or> block_offset a k + block_size a k \<le> block_offset a m"
proof -
  have pool: "pool_ok a (set bs)" and blocks: "blocks_ok a bs"
    and dist: "distinct bs" and tl: "tiles (block_offset a) (block_size a) 0 bs (alloc_size a)"
    using rep by (auto simp: alloc_rep_def blocks_ok_def)
  have mb: "m \<in> set bs" using m live_rep [OF pool] by auto
  show "block_offset a m + block_size a m \<le> alloc_size a" using tiles_bounds [OF tl mb] by simp
  assume "k \<in> live a" "m \<noteq> k"
  then show "block_offset a m + block_size a m \<le> block_offset a k \<or> block_offset a k + block_size a k \<le> block_offset a m"
    using tiles_disjoint [OF tl dist mb] live_rep [OF pool] by auto
qed

lemma alloc_rep_size: "alloc_rep a bs L \<Longrightarrow> alloc_size a < u32_bound"
  by (simp add: alloc_rep_def blocks_ok_def)

lemma live_not_free: "m \<in> free_blocks a \<Longrightarrow> m \<notin> live a"
  by (simp add: live_def free_blocks_def)

interpretation oa: region_allocator alloc_inv revision_room alloc_size live block_offset block_size
  free_storage allocate_region free_region
proof
  fix a a' :: allocator and m k n :: nat
  { assume "alloc_inv a"
    then obtain bs L where rep: "alloc_rep a bs L" by (auto simp: alloc_inv_def)
    show "finite (live a)" by simp
    show "(\<Sum>r \<in> live a. block_size a r) + free_storage a = alloc_size a"
      by (rule alloc_rep_accounted [OF rep])
    { assume m: "m \<in> live a"
      show "block_offset a m + block_size a m \<le> alloc_size a" by (rule alloc_rep_regions(1) [OF rep m])
      { assume "k \<in> live a" "m \<noteq> k"
        then show "block_offset a m + block_size a m \<le> block_offset a k \<or>
            block_offset a k + block_size a k \<le> block_offset a m"
          by (rule alloc_rep_regions(2) [OF rep m]) }
      assume room: "revision_room a"
      from free_rep [OF rep m _ room [unfolded revision_room_def], of "\<lparr>offset = block_offset a m, metadata = m\<rparr>"]
      show "\<exists>a'. free_region a m = Some a' \<and> alloc_inv a' \<and> alloc_size a' = alloc_size a \<and>
          live a' = live a - {m} \<and>
          (\<forall>q \<in> live a'. block_offset a' q = block_offset a q \<and> block_size a' q = block_size a q)"
        by (simp add: free_region_def alloc_inv_def freed_def) blast }
    assume room: "revision_room a" and n: "n \<le> alloc_size a"
    have "n < u32_bound" using n alloc_rep_size [OF rep] by simp
    note res = allocate_rep [OF rep this room [unfolded revision_room_def]]
    show "\<exists>a' r. allocate_region a n = Some (a', r)"
      using res by (auto simp: allocate_region_def)
    show "a' = a" if "allocate_region a n = Some (a', None)"
      using res that by (auto simp: allocate_region_def)
    show "alloc_inv a' \<and> alloc_size a' = alloc_size a \<and> m \<notin> live a \<and> live a' = insert m (live a) \<and>
        block_size a' m = n \<and>
        (\<forall>q \<in> live a. block_offset a' q = block_offset a q \<and> block_size a' q = block_size a q)"
      if eq: "allocate_region a n = Some (a', Some m)"
    proof -
      from res eq obtain al bs' L' where "alloc_rep a' bs' L'" "allocated a n a' al" "metadata al = m"
        by (auto simp: allocate_region_def)
      then show ?thesis using live_not_free by (auto simp: allocated_def alloc_inv_def)
    qed }
qed

section \<open>Clients\<close>

text \<open>
  A client holds the allocations it was given; it frees only what it holds, which is the
  documented obligation of \<open>free\<close>.
\<close>

inductive client_step :: "allocator \<times> allocation list \<Rightarrow> allocator \<times> allocation list \<Rightarrow> bool" where
  client_alloc: "sz < u32_bound \<Longrightarrow> allocate a sz = Some (a', Some al) \<Longrightarrow> client_step (a, h) (a', al # h)"
| client_refused: "sz < u32_bound \<Longrightarrow> allocate a sz = Some (a', None) \<Longrightarrow> client_step (a, h) (a', h)"
| client_free: "al \<in> set h \<Longrightarrow> free a al = Some a' \<Longrightarrow> client_step (a, h) (a', remove1 al h)"

definition client_inv :: "nat \<Rightarrow> nat \<Rightarrow> allocator \<times> allocation list \<Rightarrow> bool" where
  "client_inv sz k s \<longleftrightarrow> (case s of (a, h) \<Rightarrow>
     alloc_inv a \<and> alloc_size a = sz \<and> layout_revision a \<le> Suc k \<and>
     distinct (map metadata h) \<and> live a = metadata ` set h \<and>
     (\<forall>al \<in> set h. offset al = block_offset a (metadata al)))"

lemma client_inv_step:
  assumes inv: "client_inv sz k s" and step: "client_step s s'" and k: "k + 2 < u64_bound"
  shows "client_inv sz (Suc k) s'"
proof -
  obtain a h where s: "s = (a, h)" by fastforce
  from inv s obtain bs L where rep: "alloc_rep a bs L"
    and c: "alloc_size a = sz" "layout_revision a \<le> Suc k" "distinct (map metadata h)"
      "live a = metadata ` set h" "\<forall>al \<in> set h. offset al = block_offset a (metadata al)"
    by (auto simp: client_inv_def alloc_inv_def)
  have rev: "Suc (layout_revision a) < u64_bound" using c(2) k by simp
  show ?thesis
  proof (cases rule: client_step.cases [OF step])
    case (1 n b a' al g)
    then have "allocate a n = Some (a', Some al)" "n < u32_bound" and s': "s' = (a', al # h)" using s by simp_all
    with allocate_rep [OF rep this(2) rev]
    have al: "allocated a n a' al" and inv': "alloc_inv a'" by (auto simp: alloc_inv_def)
    have new: "metadata al \<notin> live a" using al live_not_free by (simp add: allocated_def)
    have held: "offset x = block_offset a' (metadata x)" if "x \<in> set h" for x
      using that c(4,5) al by (simp add: allocated_def)
    show ?thesis
      unfolding s' client_inv_def using inv' c(1-4) al new held by (simp add: allocated_def)
  next
    case (2 n b a' g)
    then have "allocate a n = Some (a', None)" "n < u32_bound" and s': "s' = (a', h)" using s by simp_all
    with allocate_rep [OF rep this(2) rev] have "a' = a" by auto
    then show ?thesis using c rep s' by (auto simp: client_inv_def alloc_inv_def)
  next
    case (3 al g b a')
    then have al: "al \<in> set h" "free a al = Some a'" and s': "s' = (a', remove1 al h)" using s by simp_all
    then have m: "metadata al \<in> live a" using c(4) by simp
    from free_rep [OF rep m refl rev] al(2)
    have fr: "freed a (metadata al) a'" and inv': "alloc_inv a'" by (auto simp: alloc_inv_def)
    have dist: "distinct h" and inj: "inj_on metadata (set h)" using c(3) by (simp_all add: distinct_map)
    have img: "metadata ` set (remove1 al h) = live a - {metadata al}"
      unfolding set_remove1_eq [OF dist] c(4) using inj al(1) by (simp add: inj_on_image_set_diff)
    have dist': "distinct (map metadata (remove1 al h))"
      using dist inj_on_subset [OF inj set_remove1_subset] by (simp add: distinct_map)
    have held: "offset x = block_offset a' (metadata x)" if "x \<in> set (remove1 al h)" for x
    proof -
      have "metadata x \<in> live a'" using that img fr by (auto simp: freed_def)
      moreover have "x \<in> set h" using that set_remove1_subset by fastforce
      ultimately show ?thesis using c(5) fr by (simp add: freed_def)
    qed
    show ?thesis
      unfolding s' client_inv_def using inv' c(1,2) fr img dist' held by (simp add: freed_def)
  qed
qed

lemma client_inv_run:
  assumes "client_inv sz j s" and "(client_step ^^ k) s s'" and "j + k + 1 < u64_bound"
  shows "client_inv sz (j + k) s'"
  using assms(2,3)
proof (induction k arbitrary: s')
  case 0
  with assms(1) show ?case by simp
next
  case (Suc k)
  then obtain s1 where "(client_step ^^ k) s s1" "client_step s1 s'" by auto
  with Suc client_inv_step [of sz "j + k" s1 s'] show ?case by simp
qed

lemma client_inv_init:
  assumes "2 \<le> n" "n < u32_bound - 2" "sz < u32_bound" "with_max_allocs sz n = Some a"
  shows "client_inv sz 0 (a, [])"
  using with_max_allocs_rep [OF assms(1-3)] assms(4)
  by (auto simp: client_inv_def alloc_inv_def pristine_def)

lemma no_live_pristine:
  assumes rep: "alloc_rep a bs L" and "live a = {}" and pos: "0 < alloc_size a"
  shows "pristine a"
proof -
  have pool: "pool_ok a (set bs)" and blocks: "blocks_ok a bs"
    using rep by (auto simp: alloc_rep_def)
  have free: "\<not> block_used a m" if "m \<in> set bs" for m using assms(2) that live_rep [OF pool] by auto
  have tl: "tiles (block_offset a) (block_size a) 0 bs (alloc_size a)" using blocks by (simp add: blocks_ok_def)
  obtain m ys where bs: "bs = m # ys" using tl pos by (cases bs) auto
  have "ys = []"
  proof (cases ys)
    case (Cons k zs)
    then have "block_used a m \<or> block_used a k"
      using blocks bs by (simp add: blocks_ok_def coalesced_def)
    with free bs Cons show ?thesis by simp
  qed simp
  with bs have "bs = [m]" by simp
  with tl blocks free [of m] show ?thesis
    using assms(2) free_blocks_rep [OF pool] by (auto simp: pristine_def blocks_ok_def free_sum_def)
qed

lemma held_sizes:
  assumes "client_inv sz k (a, h)" "al \<in> set h"
  shows "allocation_size a al = block_size a (metadata al)" "metadata al \<in> live a"
proof -
  have "alloc_inv a" and l: "live a = metadata ` set h" using assms(1) by (auto simp: client_inv_def)
  then have "length (nodes a) = max_allocs a" by (auto simp: alloc_inv_def alloc_rep_def pool_ok_def)
  then show "allocation_size a al = block_size a (metadata al)" "metadata al \<in> live a"
    using assms(2) l by (auto simp: allocation_size_def live_def)
qed

lemma held_accounted:
  assumes "client_inv sz k (a, h)"
  shows "sum_list (map (allocation_size a) h) + free_storage a = sz"
proof -
  have c: "alloc_inv a" "alloc_size a = sz" "distinct (map metadata h)" "live a = metadata ` set h"
    using assms by (auto simp: client_inv_def)
  have "(\<Sum>m \<in> live a. block_size a m) = sum_list (map (block_size a) (map metadata h))"
    using sum_list_distinct_conv_sum_set [OF c(3), of "block_size a"] c(4) by simp
  also have "\<dots> = sum_list (map (allocation_size a) h)"
    using held_sizes(1) [OF assms] by (simp add: comp_def cong: map_cong)
  finally show ?thesis using oa.accounted [OF c(1)] c(2) by simp
qed

section \<open>Reports\<close>

text \<open>What the walk adds to a report when it visits the blocks \<open>xs\<close>.\<close>

definition visited :: "allocator \<Rightarrow> u32 \<Rightarrow> nat list \<Rightarrow> exact_storage_report \<Rightarrow> exact_storage_report" where
  "visited a sz xs r =
     \<lparr>exact_total_free_space = exact_total_free_space r + sum_list (map (block_size a) xs),
      exact_largest_free_region = fold (\<lambda>m b. max b (block_size a m)) xs (exact_largest_free_region r),
      allocatable_slots = allocatable_slots r + sum_list (map (\<lambda>m. block_size a m div sz) xs),
      free_regions = free_regions r + length (filter (\<lambda>m. 0 < block_size a m) xs)\<rparr>"

lemma visited_Nil [simp]: "visited a sz [] r = r"
  by (simp add: visited_def)

lemma visited_append: "visited a sz (xs @ ys) r = visited a sz ys (visited a sz xs r)"
  by (simp add: visited_def)

definition report_room :: "allocator \<Rightarrow> u32 \<Rightarrow> nat list \<Rightarrow> exact_storage_report \<Rightarrow> bool" where
  "report_room a sz xs r \<longleftrightarrow> exact_total_free_space (visited a sz xs r) < u32_bound \<and>
     allocatable_slots (visited a sz xs r) < u64_bound \<and> free_regions (visited a sz xs r) < u32_bound"

lemma report_room_append:
  "report_room a sz (xs @ ys) r \<Longrightarrow> report_room a sz xs r \<and> report_room a sz ys (visited a sz xs r)"
  by (auto simp: report_room_def visited_append) (auto simp: visited_def)

lemma report_chain_visits:
  assumes "dll (bin_next a) pv p xs None" and "\<forall>m \<in> set xs. m < length (nodes a) \<and> \<not> block_used a m"
    and "report_room a sz xs r"
  shows "report_chain a sz (first xs None) r = Some (visited a sz xs r)"
  using assms
proof (induction xs arbitrary: p r)
  case Nil
  show ?case by (simp add: report_chain.simps)
next
  case (Cons x xs)
  have room: "report_room a sz [x] r" "report_room a sz xs (visited a sz [x] r)"
    using report_room_append [of a sz "[x]" xs r] Cons.prems(3) by simp_all
  have "report_chain a sz (first xs None) (visited a sz [x] r) = Some (visited a sz xs (visited a sz [x] r))"
    using Cons.prems by (intro Cons.IH [OF _ _ room(2)]) auto
  moreover have "report_chain a sz (Some x) r = report_chain a sz (bin_next a x) (visited a sz [x] r)"
    using Cons.prems(2) room(1)
    by (cases "0 < block_size a x"; subst report_chain.simps)
      (simp_all add: checked_add_def visited_def report_room_def)
  ultimately show ?case
    using Cons.prems(1) visited_append [of a sz "[x]" xs r] by simp
qed

lemma report_bins_visits:
  assumes "\<forall>xs \<in> set xss. dll (bin_next a) (bin_prev a) None xs None \<and>
      (\<forall>m \<in> set xs. m < length (nodes a) \<and> \<not> block_used a m)"
    and "report_room a sz (concat xss) r"
  shows "report_bins a sz (map (\<lambda>xs. first xs None) xss) r = Some (visited a sz (concat xss) r)"
  using assms
proof (induction xss arbitrary: r)
  case (Cons xs xss)
  have room: "report_room a sz xs r" "report_room a sz (concat xss) (visited a sz xs r)"
    using report_room_append Cons.prems(2) by simp_all
  have "report_chain a sz (first xs None) r = Some (visited a sz xs r)"
    using Cons.prems(1) room(1) by (intro report_chain_visits [of a "bin_prev a" None]) auto
  moreover have "report_bins a sz (map (\<lambda>xs. first xs None) xss) (visited a sz xs r) =
      Some (visited a sz (concat xss) (visited a sz xs r))"
    using Cons.prems(1) room(2) by (intro Cons.IH) auto
  ultimately show ?case by (simp add: visited_append)
qed simp

lemma fold_max_Max: "fold (\<lambda>m b. max b (f m)) xs c = Max (insert c (f ` set xs))" for c :: nat
proof (induction xs arbitrary: c)
  case (Cons x xs)
  then show ?case by (cases "xs = []") (simp_all add: max.assoc)
qed simp

lemma distinct_concat_bins:
  assumes "\<And>i. distinct (L i)" and "\<And>i j. i \<noteq> j \<Longrightarrow> set (L i) \<inter> set (L j) = {}"
  shows "distinct js \<Longrightarrow> distinct (concat (map L js))"
proof (induction js)
  case (Cons j js)
  then have "set (L j) \<inter> set (L i) = {}" if "i \<in> set js" for i
    using that assms(2) [of j i] by auto
  then have "set (L j) \<inter> set (concat (map L js)) = {}" by fastforce
  with Cons assms(1) show ?case by simp
qed simp

text \<open>The bins together list the free blocks, each once.\<close>

lemma bins_list_free_blocks:
  assumes rep: "alloc_rep a bs L"
  defines "fs \<equiv> concat (map L [0..<NUM_LEAF_BINS])"
  shows "distinct fs" and "set fs = free_blocks a"
    and "bin_indices a = map (\<lambda>xs. first xs None) (map L [0..<NUM_LEAF_BINS])"
    and "\<forall>i. dll (bin_next a) (bin_prev a) None (L i) None \<and> (\<forall>m \<in> set (L i). m < length (nodes a) \<and> \<not> block_used a m)"
proof -
  have pool: "pool_ok a (set bs)" and bins: "bins_ok a L (set bs)" and blocks: "blocks_ok a bs"
    using rep by (auto simp: alloc_rep_def)
  have setL: "set (L i) = {m \<in> set bs. \<not> block_used a m \<and> bin_of a m = i}" and dL: "distinct (L i)"
    and dllL: "dll (bin_next a) (bin_prev a) None (L i) None" for i
    using bins by (auto simp: bins_ok_def)
  have small: "block_size a m < u32_bound" if "m \<in> set bs" for m
    using blocks_ok_bounds(1) [OF blocks that] blocks by (simp add: blocks_ok_def)
  define js where "js = [0..<NUM_LEAF_BINS]"
  have js: "distinct js" "set js = {0..<NUM_LEAF_BINS}" "length js = NUM_LEAF_BINS"
    by (simp_all only: js_def distinct_upt set_upt length_upt)
  show "distinct fs"
    unfolding fs_def js_def [symmetric] by (rule distinct_concat_bins [OF dL _ js(1)]) (auto simp: setL)
  have "bin_of a m \<in> set js" if "m \<in> set bs" for m
    using round_down_bin [OF small [OF that]] js(2) by simp
  then show "set fs = free_blocks a"
    unfolding fs_def js_def [symmetric] free_blocks_rep [OF pool] using setL by auto
  show "bin_indices a = map (\<lambda>xs. first xs None) (map L [0..<NUM_LEAF_BINS])"
  proof (rule nth_equalityI)
    show "length (bin_indices a) = length (map (\<lambda>xs. first xs None) (map L [0..<NUM_LEAF_BINS]))"
      using bins js(3) unfolding bins_ok_def bitmap_ok_def js_def [symmetric] by simp
    fix i assume "i < length (bin_indices a)"
    then have "i < NUM_LEAF_BINS" using bins by (simp add: bins_ok_def bitmap_ok_def)
    then show "bin_indices a ! i = map (\<lambda>xs. first xs None) (map L [0..<NUM_LEAF_BINS]) ! i"
      using bins by (simp only: bins_ok_def map_map length_map length_upt nth_map nth_upt diff_zero add_0 comp_def)
  qed
  show "\<forall>i. dll (bin_next a) (bin_prev a) None (L i) None \<and> (\<forall>m \<in> set (L i). m < length (nodes a) \<and> \<not> block_used a m)"
    using dllL setL pool by (auto simp: pool_ok_def)
qed

lemma free_storage_sum:
  assumes rep: "alloc_rep a bs L"
  shows "free_storage a = (\<Sum>m \<in> free_blocks a. block_size a m)"
proof -
  have pool: "pool_ok a (set bs)" and dist: "distinct bs" and fs: "free_storage a = free_sum a bs"
    using rep by (auto simp: alloc_rep_def blocks_ok_def)
  have "free_storage a = (\<Sum>m \<in> set bs. if \<not> block_used a m then block_size a m else 0)"
    using dist unfolding fs free_sum_def by (simp add: sum_list_distinct_conv_sum_set if_not_P cong: if_cong)
      (intro sum.cong, auto)
  then show ?thesis
    unfolding free_blocks_rep [OF pool] using sum.inter_filter [of "set bs" "block_size a"] by simp
qed

lemma report_exact:
  assumes rep: "alloc_rep a bs L" and sz: "0 < sz"
  shows "storage_report_for_size a sz = Some
    \<lparr>exact_total_free_space = free_storage a,
     exact_largest_free_region = Max (insert 0 (block_size a ` free_blocks a)),
     allocatable_slots = (\<Sum>m \<in> free_blocks a. block_size a m div sz),
     free_regions = card {m \<in> free_blocks a. 0 < block_size a m}\<rparr>"
proof -
  define js where "js = [0..<NUM_LEAF_BINS]"
  define fs where "fs = concat (map L js)"
  note bl = bins_list_free_blocks [OF rep, folded js_def, folded fs_def]
  let ?r = "\<lparr>exact_total_free_space = 0, exact_largest_free_region = 0, allocatable_slots = 0, free_regions = 0\<rparr>"
  have sums: "sum_list (map f fs) = (\<Sum>m \<in> free_blocks a. f m)" for f :: "nat \<Rightarrow> nat"
    using bl(1,2) by (simp add: sum_list_distinct_conv_sum_set)
  have count: "length (filter P fs) = card {m \<in> free_blocks a. P m}" for P
    using distinct_card [OF distinct_filter [OF bl(1), of P]] bl(2) by simp
  have small: "free_storage a < u32_bound"
    using alloc_rep_accounted [OF rep] alloc_rep_size [OF rep] by linarith
  have "(\<Sum>m \<in> free_blocks a. block_size a m div sz) \<le> (\<Sum>m \<in> free_blocks a. block_size a m)"
    by (intro sum_mono) simp
  then have slots: "(\<Sum>m \<in> free_blocks a. block_size a m div sz) < u64_bound"
    using small free_storage_sum [OF rep] by simp
  have "card {m \<in> free_blocks a. 0 < block_size a m} \<le> card {..<max_allocs a}"
    by (intro card_mono) (auto simp: free_blocks_def)
  moreover have "max_allocs a < u32_bound" using rep by (simp add: alloc_rep_def pool_ok_def)
  ultimately have regs: "card {m \<in> free_blocks a. 0 < block_size a m} < u32_bound" by simp
  have vis: "visited a sz fs ?r =
     \<lparr>exact_total_free_space = free_storage a,
     exact_largest_free_region = Max (insert 0 (block_size a ` free_blocks a)),
     allocatable_slots = (\<Sum>m \<in> free_blocks a. block_size a m div sz),
     free_regions = card {m \<in> free_blocks a. 0 < block_size a m}\<rparr>"
    using bl(2) by (simp add: visited_def sums count fold_max_Max free_storage_sum [OF rep])
  have "report_room a sz fs ?r" unfolding report_room_def vis using small slots regs by simp
  then have "report_bins a sz (bin_indices a) ?r = Some (visited a sz fs ?r)"
    unfolding bl(3) fs_def using bl(4) by (intro report_bins_visits) auto
  then show ?thesis using sz vis by (simp add: storage_report_for_size_def)
qed

lemma bit_highest: "0 < n \<Longrightarrow> bit n (highest_set_bit n)"
proof -
  assume "0 < n"
  note b = highest_set_bit_bounds [OF this]
  have "n div 2 ^ highest_set_bit n = 1" using b by (intro div_nat_eqI) simp_all
  then show ?thesis by (simp add: bit_iff_odd)
qed

text \<open>The summary names the class of some free block.\<close>

lemma summary_report:
  assumes rep: "alloc_rep a bs L"
  shows "\<exists>r. storage_report a = Some r \<and> total_free_space r = (if free_offset a = 0 then 0 else free_storage a) \<and>
    largest_free_region r \<le> Max (insert 0 (block_size a ` free_blocks a))"
proof (cases "0 < free_offset a \<and> 0 < used_bins_top a")
  case False
  then show ?thesis by (auto simp: storage_report_def)
next
  case True
  let ?t = "highest_set_bit (used_bins_top a)"
  let ?l = "highest_set_bit (used_bins a ! ?t)"
  have pool: "pool_ok a (set bs)" and bins: "bins_ok a L (set bs)" and blocks: "blocks_ok a bs"
    using rep by (auto simp: alloc_rep_def)
  have bm: "bitmap_ok (used_bins_top a) (used_bins a) (bin_indices a)" using bins by (simp add: bins_ok_def)
  have t: "?t < NUM_TOP_BINS" "0 < used_bins a ! ?t"
    using bit_highest [of "used_bins_top a"] True bm by (auto simp: bitmap_ok_def)
  have l: "?l < 8" "bin_indices a ! (8 * ?t + ?l) \<noteq> None"
    using bit_highest [OF t(2)] t(1) bm by (auto simp: bitmap_ok_def)
  have i: "8 * ?t + ?l < NUM_LEAF_BINS" using t(1) l(1) by simp
  then have "L (8 * ?t + ?l) \<noteq> []" using l(2) bins by (auto simp: bins_ok_def)
  then obtain m where m: "m \<in> set (L (8 * ?t + ?l))" using hd_in_set by blast
  then have mb: "m \<in> set bs" "\<not> block_used a m" "bin_of a m = 8 * ?t + ?l" using bins by (auto simp: bins_ok_def)
  have small: "block_size a m < u32_bound"
    using blocks_ok_bounds(1) [OF blocks mb(1)] blocks by (simp add: blocks_ok_def)
  have mf: "m \<in> free_blocks a" using mb free_blocks_rep [OF pool] by simp
  have cs: "class_size (8 * ?t + ?l) \<le> block_size a m" "8 * ?t + ?l < 240"
    using round_down_bounds(1) [of "block_size a m"] round_down_bin [OF small] mb(3) by simp_all
  have fin: "finite (free_blocks a)" by (simp add: free_blocks_def)
  have "block_size a m \<le> free_storage a"
    unfolding free_storage_sum [OF rep] using mf fin by (intro member_le_sum) simp_all
  moreover have "block_size a m \<le> Max (insert 0 (block_size a ` free_blocks a))" using mf fin by simp
  moreover have "float_to_uint (push_bit TOP_BINS_INDEX_SHIFT ?t OR ?l) = Some (class_size (8 * ?t + ?l))"
    using or_disjoint_nat [OF l(1), of ?t] float_to_uint_fits [OF cs(2)] by simp
  ultimately show ?thesis using True t bm cs by (simp add: storage_report_def bitmap_ok_def)
qed

text \<open>A fresh allocator with a spare node serves any request whose size class fits.\<close>

lemma pristine_serves:
  assumes "with_max_allocs sz n = Some a" "3 \<le> n" "n < u32_bound - 2" "sz < u32_bound"
    and "class_size (uint_to_float_round_up req) \<le> sz"
  shows "\<exists>a' al. allocate a req = Some (a', Some al) \<and> client_step (a, []) (a', [al])"
proof -
  from with_max_allocs_rep [of n sz] assms obtain bs L where rep: "alloc_rep a bs L" and pr: "pristine a"
    and a: "alloc_size a = sz" "max_allocs a = n" "layout_revision a = 1" by auto
  have pool: "pool_ok a (set bs)" using rep by (simp add: alloc_rep_def)
  from pr obtain m where m: "free_blocks a = {m}" "block_size a m = sz" "live a = {}"
    using a by (auto simp: pristine_def)
  have "set bs = live a \<union> free_blocks a" unfolding live_rep [OF pool] free_blocks_rep [OF pool] by auto
  then have "card (set bs) = 1" using m by simp
  then have fo: "free_offset a \<noteq> 0" using pool_ok_card [OF pool] a(2) assms(2) by linarith
  have "\<not> bin_of a m < uint_to_float_round_up req"
    using assms(5) m(2) round_down_galois by (simp add: not_less)
  moreover have "req < u32_bound"
    using round_up_bounds(1) [of req] assms(4,5) by simp
  moreover note allocate_rep [OF rep this]
  ultimately obtain a' al where "allocate a req = Some (a', Some al)"
    using fo m(1) a(3) by auto
  with \<open>req < u32_bound\<close> show ?thesis by (auto intro: client_step.intros)
qed

lemma sample_client:
  "\<exists>a0 a1 al a2. with_max_allocs 100 4 = Some a0 \<and> (client_step ^^ 1) (a0, []) (a1, [al]) \<and>
     (client_step ^^ 2) (a0, []) (a2, []) \<and> alloc_inv a0 \<and> revision_room a0 \<and> allocate a0 101 = Some (a0, None)"
proof -
  obtain a0 bs L where a0: "with_max_allocs 100 4 = Some a0" and rep: "alloc_rep a0 bs L"
    and f: "alloc_size a0 = 100" "layout_revision a0 = 1"
    using with_max_allocs_rep [of 4 100] by auto
  have "class_size (uint_to_float_round_up 10) \<le> 100"
    using round_up_galois [of 10 10] class_size_mono [of "uint_to_float_round_up 10" 10]
    by (simp add: class_size_arith)
  then obtain a1 al where s1: "allocate a0 10 = Some (a1, Some al)" "client_step (a0, []) (a1, [al])"
    using pristine_serves [OF a0, of 10] by auto
  have k1: "(client_step ^^ 1) (a0, []) (a1, [al])"
    using s1(2) by (simp add: relcompp_apply)
  then have inv1: "client_inv 100 1 (a1, [al])"
    using client_inv_run [OF client_inv_init [OF _ _ _ a0], of 1] by simp
  then obtain bs1 L1 where "alloc_rep a1 bs1 L1" by (auto simp: client_inv_def alloc_inv_def)
  from free_rep [OF this, of "metadata al" al] inv1 obtain a2 where "free a1 al = Some a2"
    by (auto simp: client_inv_def)
  then have "client_step (a1, [al]) (a2, [])" using client_free [of al "[al]" a1 a2] by simp
  with k1 have k2: "(client_step ^^ 2) (a0, []) (a2, [])"
    by (auto simp: numeral_2_eq_2 relcompp_apply)
  have "\<not> allocated a0 101 a' x \<or> \<not> alloc_inv a'" for a' x
    using oa.region_bounds [of a' "metadata x"] f by (auto simp: allocated_def)
  then have "allocate a0 101 = Some (a0, None)"
    using allocate_rep [OF rep, of 101] f by (auto simp: alloc_inv_def)
  with a0 k1 k2 rep f show ?thesis by (auto simp: alloc_inv_def revision_room_def)
qed

section \<open>Properties\<close>

text \<open>C7: Over any sequence of allocations, refused allocations and frees of held allocations
  from a fresh allocator of \<open>sz\<close> units, the held allocations lie inside the range, no two
  of them overlap, and the held and the free units add up to \<open>sz\<close>.\<close>

theorem allocator_regions_sound:
  assumes "2 \<le> n" "n < u32_bound - 2" "sz < u32_bound" "with_max_allocs sz n = Some a0"
    and "(client_step ^^ k) (a0, []) (a, h)" and "k + 1 < u64_bound"
  shows "(\<forall>al \<in> set h. offset al + allocation_size a al \<le> sz) \<and>
    (\<forall>i < length h. \<forall>j < length h. i \<noteq> j \<longrightarrow>
       offset (h ! i) + allocation_size a (h ! i) \<le> offset (h ! j) \<or>
       offset (h ! j) + allocation_size a (h ! j) \<le> offset (h ! i)) \<and>
    sum_list (map (allocation_size a) h) + free_storage a = sz"
proof -
  have inv: "client_inv sz k (a, h)"
    using client_inv_run [OF client_inv_init [OF assms(1-4)] assms(5)] assms(6) by simp
  then have c: "alloc_inv a" "alloc_size a = sz" "distinct (map metadata h)" "live a = metadata ` set h"
      "\<forall>al \<in> set h. offset al = block_offset a (metadata al)"
    by (auto simp: client_inv_def)
  note sizes = held_sizes [OF inv] and sum = held_accounted [OF inv]
  have "metadata (h ! i) \<noteq> metadata (h ! j)" if "i < length h" "j < length h" "i \<noteq> j" for i j
    using that c(3) by (simp add: distinct_conv_nth)
  with sum sizes c(5) oa.region_bounds [OF c(1)] oa.regions_disjoint [OF c(1)] c(2)
  show ?thesis by (metis nth_mem)
qed

theorem allocator_regions_sound_witness:
  "\<exists>a h. h \<noteq> [] \<and> (\<forall>al \<in> set h. offset al + allocation_size a al \<le> 100) \<and>
    sum_list (map (allocation_size a) h) + free_storage a = 100"
proof -
  obtain a0 a1 al where "with_max_allocs 100 4 = Some a0" "(client_step ^^ 1) (a0, []) (a1, [al])"
    using sample_client by blast
  from allocator_regions_sound [OF _ _ _ this]
  have "(\<forall>x \<in> set [al]. offset x + allocation_size a1 x \<le> 100) \<and>
      sum_list (map (allocation_size a1) [al]) + free_storage a1 = 100" by simp
  then show ?thesis by blast
qed

text \<open>C23: After any such sequence the allocator answers: an allocation of any 32-bit size, a free of any
  held allocation and both reports return without a panic, debug assertions included. The summary
  reports the free units while a spare node is left and zero otherwise, and never a largest region
  above the largest free one; the walk of the exact report ends with exactly the free units, the
  largest free region, the number of requests that fit region by region, and the number of
  nonempty free regions.\<close>

theorem allocator_never_panics:
  assumes "2 \<le> n" "n < u32_bound - 2" "sz < u32_bound" "with_max_allocs sz n = Some a0"
    and "(client_step ^^ k) (a0, []) (a, h)" and "k + 2 < u64_bound"
  shows "(\<forall>req < u32_bound. allocate a req \<noteq> None) \<and> (\<forall>al \<in> set h. free a al \<noteq> None) \<and>
    (\<exists>r. storage_report a = Some r \<and> total_free_space r = (if free_offset a = 0 then 0 else free_storage a) \<and>
       largest_free_region r \<le> Max (insert 0 (block_size a ` free_blocks a))) \<and>
    (\<forall>req > 0. storage_report_for_size a req = Some
       \<lparr>exact_total_free_space = sz - sum_list (map (allocation_size a) h),
        exact_largest_free_region = Max (insert 0 (block_size a ` free_blocks a)),
        allocatable_slots = (\<Sum>m \<in> free_blocks a. block_size a m div req),
        free_regions = card {m \<in> free_blocks a. 0 < block_size a m}\<rparr>)"
proof -
  have inv: "client_inv sz k (a, h)"
    using client_inv_run [OF client_inv_init [OF assms(1-4)] assms(5)] assms(6) by simp
  then obtain bs L where rep: "alloc_rep a bs L" by (auto simp: client_inv_def alloc_inv_def)
  have rev: "Suc (layout_revision a) < u64_bound" using inv assms(6) by (simp add: client_inv_def)
  have "allocate a req \<noteq> None" if "req < u32_bound" for req
    using allocate_rep [OF rep that rev] by auto
  moreover have "free a al \<noteq> None" if "al \<in> set h" for al
    using free_rep [OF rep _ refl rev, of al] inv that by (auto simp: client_inv_def)
  moreover have "free_storage a = sz - sum_list (map (allocation_size a) h)"
    using held_accounted [OF inv] by simp
  ultimately show ?thesis using report_exact [OF rep] summary_report [OF rep] by simp
qed

theorem allocator_never_panics_witness:
  "\<exists>a al. allocate a 7 \<noteq> None \<and> free a al \<noteq> None \<and> storage_report a \<noteq> None \<and> storage_report_for_size a 7 \<noteq> None"
proof -
  obtain a0 a1 al where "with_max_allocs 100 4 = Some a0" "(client_step ^^ 1) (a0, []) (a1, [al])"
    using sample_client by blast
  from allocator_never_panics [OF _ _ _ this]
  have "allocate a1 7 \<noteq> None \<and> free a1 al \<noteq> None \<and> storage_report a1 \<noteq> None \<and> storage_report_for_size a1 7 \<noteq> None"
    by auto
  then show ?thesis by blast
qed

text \<open>C26: When everything held has been freed, the allocator is as fresh: one free region
  covers the whole range, however the frees were ordered.\<close>

theorem allocator_recovers:
  assumes "2 \<le> n" "n < u32_bound - 2" "0 < sz" "sz < u32_bound" "with_max_allocs sz n = Some a0"
    and "(client_step ^^ k) (a0, []) (a, [])" and "k + 1 < u64_bound"
  shows "pristine a \<and> alloc_size a = sz"
proof -
  have inv: "client_inv sz k (a, [])"
    using client_inv_run [OF client_inv_init [OF assms(1,2,4,5)] assms(6)] assms(7) by simp
  then obtain bs L where "alloc_rep a bs L" by (auto simp: client_inv_def alloc_inv_def)
  then show ?thesis using no_live_pristine inv assms(3) by (simp add: client_inv_def)
qed

theorem allocator_recovers_witness:
  "\<exists>a. pristine a \<and> alloc_size a = 100"
proof -
  obtain a0 a2 where "with_max_allocs 100 4 = Some a0" "(client_step ^^ 2) (a0, []) (a2, [])"
    using sample_client by blast
  from allocator_recovers [OF _ _ _ _ this] show ?thesis by auto
qed

text \<open>C39: An allocation is refused only when the node table is exhausted, when the request is beyond the
  largest size class (\<open>0xF0000000\<close> units), or when every free region is smaller than the request
  rounded up to its size class; the state is unchanged.\<close>

theorem allocate_refused:
  assumes "alloc_inv a" "revision_room a" "sz < u32_bound" and "allocate a sz = Some (a', None)"
  shows "a' = a \<and> (free_offset a = 0 \<or> 4026531840 < sz \<or>
    (\<exists>b. min_allocator_size sz = Some b \<and> (\<forall>m \<in> free_blocks a. block_size a m < b)))"
proof -
  obtain bs L where rep: "alloc_rep a bs L" using assms(1) by (auto simp: alloc_inv_def)
  from allocate_rep [OF rep assms(3) assms(2) [unfolded revision_room_def]] assms(4)
  have "a' = a" "free_offset a = 0 \<or> (\<forall>m \<in> free_blocks a. bin_of a m < uint_to_float_round_up sz)" by auto
  then show ?thesis
    using round_down_galois min_allocator_size_fits [of sz] by (auto simp: not_le [symmetric])
qed

theorem allocate_refused_witness:
  "\<exists>a. allocate a 101 = Some (a, None) \<and>
     (free_offset a = 0 \<or> (\<exists>b. min_allocator_size 101 = Some b \<and> free_blocks a \<subseteq> {m. block_size a m < b}))"
proof -
  obtain a0 where "alloc_inv a0" "revision_room a0" and eq: "allocate a0 101 = Some (a0, None)"
    using sample_client by blast
  from allocate_refused [OF this(1,2) _ eq] eq show ?thesis by auto
qed

end
