(* ===== verification/Owner_Slots.thy ===== *)
theory Owner_Slots
  imports Owner_Segment Region_Allocator "HOL-Library.AList"
begin

text \<open>
  The physical slots of one owner's registered DRAM segment, \<open>OwnerSegmentState\<close> of
  \<open>fluxon_kv/src/client_kv_api/mod.rs\<close>: claiming and freeing slots of the offset allocator,
  the slot state machine (prepared, pending-visible, committed with route and holder
  references), the manifest that binds slots to key generations, source read leases and the
  reservations of the global-shared budget.

  The maps the code iterates (\<open>allocations\<close>, \<open>source_leases\<close>,
  \<open>global_demotion_reservations\<close>) are association lists, the others partial functions. The
  sixteen \<open>OnceLock\<close>s of the report cache are the list of the entries set so far: they are
  set in order and cleared together. A method on \<open>&mut self\<close> returns the new state; an
  \<open>assert!\<close>, \<open>expect\<close> or \<open>unreachable!\<close> that fails is \<open>None\<close>.
\<close>

section \<open>Slots and leases\<close>

abbreviation GRANULARITY :: nat where
  "GRANULARITY \<equiv> 4096"

definition owner_segment_offset_bytes :: "u32 \<Rightarrow> u64 option" where
  "owner_segment_offset_bytes offset_units = checked_mul u64_bound offset_units GRANULARITY"

text \<open>Clearing the low twelve bits rounds down to the granularity.\<close>

definition owner_segment_allocation_capacity_bytes :: "u64 \<Rightarrow> u64 option" where
  "owner_segment_allocation_capacity_bytes value_len =
     do { rounded \<leftarrow> checked_add u64_bound (max value_len GRANULARITY) (GRANULARITY - 1);
          let slot_size = rounded - rounded mod GRANULARITY in
          if slot_size div GRANULARITY < u32_bound then Some slot_size else None }"

datatype owner_slot_state =
    Prepared
  | PendingLocalVisible (pending_holders: u32)
  | Committed (route_live: bool) (committed_holders: u32)

record owner_allocation_state =
  os_allocation_id :: u64
  os_allocation :: allocation
  os_segment_offset :: u64
  os_capacity_bytes :: u64
  os_value_len :: u64
  os_source_read_lease_count :: u32
  os_state :: owner_slot_state

datatype owner_source_lease_state = ActiveLease | ReleasedLease owner_transfer_outcome

record owner_source_lease_record =
  sl_lease_id :: owner_lease_id
  sl_route_token :: owner_source_route_token
  sl_state :: owner_source_lease_state

datatype owner_target_lease_state =
    TargetPreparedState
  | TargetDataReadyState owner_transfer_receipt
  | TargetRoutePendingState owner_transfer_receipt "owner_target_route_token option"
  | TargetCommittedState u64
  | TargetAbortedState string

record owner_target_lease_record =
  tl_lease_id :: owner_lease_id
  tl_key :: string
  tl_put_id :: put_id_for_a_key
  tl_len :: u64
  tl_disposition :: owner_target_disposition
  tl_atomic_batch :: "put_atomic_group option"
  tl_slot :: owner_slot_desc
  tl_state :: owner_target_lease_state

record owner_segment_allocatable_report =
  raw_free_bytes :: u64
  report_slots :: u64
  report_bytes :: u64
  slot_unallocatable_bytes :: u64

record owner_cached_allocatable_report =
  cached_layout_revision :: u64
  cached_slot_size :: u64
  cached_report :: owner_segment_allocatable_report

record owner_segment_state =
  seg_owner :: owner_generation
  seg_registration_epoch :: u64
  seg_base_addr :: u64
  seg_addr :: u64
  seg_len :: u64
  seg_allocator :: allocator
  allocatable_report_cache :: "owner_cached_allocatable_report list"
  allocations :: "(u64 \<times> owner_allocation_state) list"
  allocations_by_offset :: "u32 \<Rightarrow> u64 option"
  manifest_by_key :: "owner_manifest_key \<Rightarrow> owner_slot_manifest_entry option"
  manifest_key_by_allocation :: "u64 \<Rightarrow> owner_manifest_key option"
  source_leases :: "(owner_transfer_op_id \<times> owner_source_lease_record) list"
  target_leases :: "owner_transfer_op_id \<Rightarrow> owner_target_lease_record option"
  global_demotion_reservations :: "(owner_manifest_key \<times> owner_slot_desc) list"
  seg_physical_free_epoch :: u64

section \<open>Creation and claims\<close>

definition segment_new ::
  "owner_generation \<Rightarrow> u64 \<Rightarrow> u64 \<Rightarrow> u64 \<Rightarrow> u64 \<Rightarrow> (unit + owner_segment_state) option" where
  "segment_new owner registration_epoch base_addr addr len =
     (if \<not> owner_generation_is_initialized owner then Some (Inl ())
      else if registration_epoch = 0 then Some (Inl ())
      else do {
        assert_or_panic (0 < len \<and> len mod GRANULARITY = 0);
        if u32_bound \<le> len div GRANULARITY then Some (Inl ())
        else do {
          let allocation_units = len div GRANULARITY;
          let max_allocation_nodes = min (saturating_add u32_bound allocation_units 2) (128 * 1024);
          a \<leftarrow> with_max_allocs allocation_units max_allocation_nodes;
          Some (Inr
            \<lparr>seg_owner = owner, seg_registration_epoch = registration_epoch, seg_base_addr = base_addr,
             seg_addr = addr, seg_len = len, seg_allocator = a, allocatable_report_cache = [],
             allocations = [], allocations_by_offset = Map.empty, manifest_by_key = Map.empty,
             manifest_key_by_allocation = Map.empty, source_leases = [], target_leases = Map.empty,
             global_demotion_reservations = [], seg_physical_free_epoch = 0\<rparr>) } })"

definition clear_allocatable_report_cache :: "owner_segment_state \<Rightarrow> owner_segment_state" where
  "clear_allocatable_report_cache s = s\<lparr>allocatable_report_cache := []\<rparr>"

definition claim_prepared_slot ::
  "owner_segment_state \<Rightarrow> u64 \<Rightarrow> u64 \<Rightarrow> u64 \<Rightarrow> (owner_segment_state \<times> owner_slot_desc option) option" where
  "claim_prepared_slot s capacity_bytes value_len allocation_id =
     (if allocation_id = 0 then Some (s, None)
      else if value_len = 0 \<or> capacity_bytes = 0 \<or> capacity_bytes < value_len \<or> seg_len s < capacity_bytes \<or>
              capacity_bytes mod GRANULARITY \<noteq> 0
      then Some (s, None)
      else if u32_bound \<le> capacity_bytes div GRANULARITY then Some (s, None)
      else do {
        (a, claimed) \<leftarrow> allocate (seg_allocator s) (capacity_bytes div GRANULARITY);
        let s = s\<lparr>seg_allocator := a\<rparr>;
        case claimed of
          None \<Rightarrow> Some (s, None)
        | Some al \<Rightarrow>
            let s = clear_allocatable_report_cache s in
            (case owner_segment_offset_bytes (offset al) of
               None \<Rightarrow> Some (s, None)
             | Some segment_offset \<Rightarrow> do {
                 assert_or_panic (map_of (allocations s) allocation_id = None);
                 assert_or_panic (allocations_by_offset s (offset al) = None);
                 let s = s\<lparr>allocations := AList.update allocation_id
                             \<lparr>os_allocation_id = allocation_id, os_allocation = al,
                              os_segment_offset = segment_offset, os_capacity_bytes = capacity_bytes,
                              os_value_len = value_len, os_source_read_lease_count = 0,
                              os_state = Prepared\<rparr> (allocations s),
                           allocations_by_offset := (allocations_by_offset s)(offset al \<mapsto> allocation_id)\<rparr>;
                 Some (s, map_option (\<lambda>addr.
                   \<lparr>slot_owner = seg_owner s, slot_allocation_id = allocation_id,
                    slot_segment_offset = segment_offset, slot_capacity_bytes = capacity_bytes,
                    slot_addr = addr, slot_base_addr = seg_base_addr s, slot_len = value_len,
                    slot_registration_epoch = seg_registration_epoch s\<rparr>)
                   (checked_add u64_bound (seg_addr s) segment_offset)) }) })"

definition seg_allocation :: "owner_segment_state \<Rightarrow> u64 \<Rightarrow> owner_allocation_state option" where
  "seg_allocation s allocation_id = map_of (allocations s) allocation_id"

definition set_allocation :: "owner_segment_state \<Rightarrow> u64 \<Rightarrow> owner_allocation_state \<Rightarrow> owner_segment_state" where
  "set_allocation s allocation_id r = s\<lparr>allocations := AList.update allocation_id r (allocations s)\<rparr>"

definition identity_matches :: "owner_segment_state \<Rightarrow> u64 \<Rightarrow> u64 \<Rightarrow> u64 \<Rightarrow> bool" where
  "identity_matches s allocation_id segment_offset capacity_bytes =
     (case seg_allocation s allocation_id of
        None \<Rightarrow> False
      | Some r \<Rightarrow> os_allocation_id r = allocation_id \<and> os_segment_offset r = segment_offset \<and>
                  os_capacity_bytes r = capacity_bytes)"

definition slot_desc :: "owner_segment_state \<Rightarrow> u64 \<Rightarrow> owner_slot_desc option" where
  "slot_desc s allocation_id =
     do { r \<leftarrow> seg_allocation s allocation_id;
          addr \<leftarrow> checked_add u64_bound (seg_addr s) (os_segment_offset r);
          Some \<lparr>slot_owner = seg_owner s, slot_allocation_id = allocation_id,
                slot_segment_offset = os_segment_offset r, slot_capacity_bytes = os_capacity_bytes r,
                slot_addr = addr, slot_base_addr = seg_base_addr s, slot_len = os_value_len r,
                slot_registration_epoch = seg_registration_epoch s\<rparr> }"

definition identity_matches_desc :: "owner_segment_state \<Rightarrow> owner_slot_desc \<Rightarrow> bool" where
  "identity_matches_desc s slot \<longleftrightarrow>
     slot_owner slot = seg_owner s \<and>
     slot_registration_epoch slot = seg_registration_epoch s \<and>
     slot_addr slot = (case checked_add u64_bound (seg_addr s) (slot_segment_offset slot) of
                         None \<Rightarrow> u64_bound - 1 | Some a \<Rightarrow> a) \<and>
     slot_base_addr slot = seg_base_addr s \<and>
     (case seg_allocation s (slot_allocation_id slot) of
        None \<Rightarrow> False
      | Some r \<Rightarrow> os_segment_offset r = slot_segment_offset slot \<and>
                  os_capacity_bytes r = slot_capacity_bytes slot \<and> os_value_len r = slot_len slot)"

section \<open>The manifest\<close>

abbreviation manifest_key :: "string \<Rightarrow> put_id_for_a_key \<Rightarrow> owner_manifest_key" where
  "manifest_key key put_id \<equiv> \<lparr>mk_key = key, mk_put_id = put_id\<rparr>"

definition install_manifest_entry ::
  "owner_segment_state \<Rightarrow> owner_slot_manifest_entry \<Rightarrow>
   owner_segment_state \<times> (owner_transfer_item_error + unit)" where
  "install_manifest_entry s entry =
     (if me_key entry = [] \<or> \<not> slot_is_valid (me_slot entry) \<or> \<not> identity_matches_desc s (me_slot entry)
      then (s, Inl \<lparr>err_code = InvalidArgument\<rparr>)
      else let mk = manifest_key (me_key entry) (me_put_id entry) in
        case manifest_by_key s mk of
          Some existing \<Rightarrow>
            if geometry_matches (me_slot existing) (me_slot entry) \<and>
               slot_len (me_slot existing) = slot_len (me_slot entry) \<and>
               slot_registration_epoch (me_slot existing) = slot_registration_epoch (me_slot entry)
            then (s, Inr ())
            else (s, Inl \<lparr>err_code = Conflict\<rparr>)
        | None \<Rightarrow>
            (case manifest_key_by_allocation s (slot_allocation_id (me_slot entry)) of
               Some _ \<Rightarrow> (s, Inl \<lparr>err_code = Conflict\<rparr>)
             | None \<Rightarrow>
                 (s\<lparr>manifest_key_by_allocation :=
                      (manifest_key_by_allocation s)(slot_allocation_id (me_slot entry) \<mapsto> mk),
                    manifest_by_key := (manifest_by_key s)(mk \<mapsto> entry)\<rparr>, Inr ())))"

definition seg_manifest_entry ::
  "owner_segment_state \<Rightarrow> string \<Rightarrow> put_id_for_a_key \<Rightarrow> owner_slot_manifest_entry option" where
  "seg_manifest_entry s key put_id = manifest_by_key s (manifest_key key put_id)"

definition manifest_entry_by_allocation ::
  "owner_segment_state \<Rightarrow> u64 \<Rightarrow> (owner_manifest_key \<times> owner_slot_manifest_entry) option" where
  "manifest_entry_by_allocation s allocation_id =
     do { mk \<leftarrow> manifest_key_by_allocation s allocation_id;
          e \<leftarrow> manifest_by_key s mk;
          Some (mk, e) }"

text \<open>\<open>manifest_entry_mut_by_allocation\<close> hands out a reference; its uses write through it.\<close>

definition update_manifest_by_allocation ::
  "owner_segment_state \<Rightarrow> u64 \<Rightarrow> (owner_slot_manifest_entry \<Rightarrow> owner_slot_manifest_entry) \<Rightarrow>
   owner_segment_state option" where
  "update_manifest_by_allocation s allocation_id f =
     (case manifest_entry_by_allocation s allocation_id of
        None \<Rightarrow> None
      | Some (mk, e) \<Rightarrow> Some (s\<lparr>manifest_by_key := (manifest_by_key s)(mk \<mapsto> f e)\<rparr>))"

definition remove_manifest_for_allocation ::
  "owner_segment_state \<Rightarrow> u64 \<Rightarrow> owner_segment_state \<times> owner_slot_manifest_entry option" where
  "remove_manifest_for_allocation s allocation_id =
     (case manifest_key_by_allocation s allocation_id of
        None \<Rightarrow> (s, None)
      | Some mk \<Rightarrow>
          (s\<lparr>manifest_key_by_allocation := (manifest_key_by_allocation s)(allocation_id := None),
             manifest_by_key := (manifest_by_key s)(mk := None)\<rparr>, manifest_by_key s mk))"

section \<open>Freeing a slot\<close>

definition free_allocation :: "owner_segment_state \<Rightarrow> u64 \<Rightarrow> owner_segment_state option" where
  "free_allocation s allocation_id =
     do { r \<leftarrow> map_of (allocations s) allocation_id;
          let s = s\<lparr>allocations := AList.delete allocation_id (allocations s)\<rparr>;
          assert_or_panic (os_allocation_id r = allocation_id);
          assert_or_panic (os_source_read_lease_count r = 0);
          let (s, manifest) = remove_manifest_for_allocation s allocation_id;
          let s = (case manifest of
                     None \<Rightarrow> s
                   | Some e \<Rightarrow> s\<lparr>global_demotion_reservations :=
                       AList.delete (manifest_key (me_key e) (me_put_id e)) (global_demotion_reservations s)\<rparr>);
          assert_or_panic (allocations_by_offset s (offset (os_allocation r)) = Some allocation_id);
          let s = s\<lparr>allocations_by_offset := (allocations_by_offset s)(offset (os_allocation r) := None)\<rparr>;
          a \<leftarrow> free (seg_allocator s) (os_allocation r);
          let s = clear_allocatable_report_cache (s\<lparr>seg_allocator := a\<rparr>);
          Some (s\<lparr>seg_physical_free_epoch := saturating_add u64_bound (seg_physical_free_epoch s) 1\<rparr>) }"

section \<open>Source read leases\<close>

definition seg_acquire_source ::
  "owner_segment_state \<Rightarrow> owner_transfer_op_id \<Rightarrow> owner_source_route_token \<Rightarrow> owner_lease_id \<Rightarrow>
   (owner_segment_state \<times> owner_segment_transfer_outcome) option" where
  "seg_acquire_source s op_id route_token lease_id =
     (case map_of (source_leases s) op_id of
        Some existing \<Rightarrow>
          if sl_route_token existing \<noteq> route_token then Some (s, error_outcome Conflict)
          else (case sl_state existing of
                  ActiveLease \<Rightarrow> Some (s, SourceAcquired (sl_lease_id existing) (src_source (sl_route_token existing)))
                | ReleasedLease _ \<Rightarrow> Some (s, SourceReleased))
      | None \<Rightarrow>
          if \<not> owner_transfer_op_id_is_initialized op_id \<or> \<not> owner_lease_id_is_initialized lease_id \<or>
             src_plan_nonce route_token = 0
          then Some (s, error_outcome InvalidArgument)
          else if slot_owner (src_source route_token) \<noteq> seg_owner s \<or>
                  slot_registration_epoch (src_source route_token) \<noteq> seg_registration_epoch s
          then Some (s, error_outcome StaleGeneration)
          else (case manifest_by_key s (manifest_key (src_key route_token) (src_put_id route_token)) of
            None \<Rightarrow> Some (s, error_outcome NotFound)
          | Some manifest \<Rightarrow>
              if me_physical_state manifest \<noteq> CommittedPhysical \<or>
                 me_route_epoch manifest \<noteq> src_route_epoch route_token \<or>
                 \<not> geometry_matches (me_slot manifest) (src_source route_token) \<or>
                 slot_len (me_slot manifest) \<noteq> slot_len (src_source route_token) \<or>
                 \<not> identity_matches_desc s (src_source route_token)
              then Some (s, error_outcome Conflict)
              else (case seg_allocation s (slot_allocation_id (src_source route_token)) of
                None \<Rightarrow> Some (s, error_outcome NotFound)
              | Some r \<Rightarrow>
                  (case os_state r of
                     Committed True _ \<Rightarrow> do {
                       count \<leftarrow> checked_add u32_bound (os_source_read_lease_count r) 1;
                       let s = set_allocation s (slot_allocation_id (src_source route_token))
                                 (r\<lparr>os_source_read_lease_count := count\<rparr>);
                       Some (s\<lparr>source_leases := AList.update op_id
                               \<lparr>sl_lease_id = lease_id, sl_route_token = route_token,
                                sl_state = ActiveLease\<rparr> (source_leases s)\<rparr>,
                             SourceAcquired lease_id (src_source route_token)) }
                   | _ \<Rightarrow> Some (s, error_outcome Reclaiming)))))"

definition seg_release_source ::
  "owner_segment_state \<Rightarrow> owner_transfer_op_id \<Rightarrow> owner_lease_id \<Rightarrow> owner_transfer_outcome \<Rightarrow>
   (owner_segment_state \<times> owner_segment_transfer_outcome) option" where
  "seg_release_source s op_id lease_id outcome =
     (case map_of (source_leases s) op_id of
        None \<Rightarrow> Some (s, error_outcome NotFound)
      | Some record \<Rightarrow>
          if sl_lease_id record \<noteq> lease_id then Some (s, error_outcome Conflict)
          else (case sl_state record of
            ReleasedLease previous \<Rightarrow>
              if previous \<noteq> outcome then Some (s, error_outcome Conflict) else Some (s, SourceReleased)
          | ActiveLease \<Rightarrow>
              (let allocation_id = slot_allocation_id (src_source (sl_route_token record)) in
               case seg_allocation s allocation_id of
                 None \<Rightarrow> Some (s, error_outcome Internal)
               | Some r \<Rightarrow>
                   (case checked_sub (os_source_read_lease_count r) 1 of
                      None \<Rightarrow> Some (s, error_outcome Internal)
                    | Some next_count \<Rightarrow> do {
                        let s = set_allocation s allocation_id (r\<lparr>os_source_read_lease_count := next_count\<rparr>);
                        let s = s\<lparr>source_leases := AList.update op_id
                                    (record\<lparr>sl_state := ReleasedLease outcome\<rparr>) (source_leases s)\<rparr>;
                        s \<leftarrow> (if next_count = 0 \<and> os_state r = Committed False 0
                              then free_allocation s allocation_id else Some s);
                        Some (s, SourceReleased) }))))"

section \<open>The slot state machine\<close>

definition seg_committed_route_only_matches :: "owner_segment_state \<Rightarrow> u64 \<Rightarrow> u64 \<Rightarrow> u64 \<Rightarrow> bool" where
  "seg_committed_route_only_matches s allocation_id segment_offset capacity_bytes =
     (case seg_allocation s allocation_id of
        None \<Rightarrow> False
      | Some r \<Rightarrow> os_segment_offset r = segment_offset \<and> os_capacity_bytes r = capacity_bytes \<and>
                  os_state r = Committed True 0)"

definition seg_retain_committed_route_only_holder ::
  "owner_segment_state \<Rightarrow> u64 \<Rightarrow> owner_segment_state \<times> bool" where
  "seg_retain_committed_route_only_holder s allocation_id =
     (case seg_allocation s allocation_id of
        None \<Rightarrow> (s, False)
      | Some r \<Rightarrow>
          if os_state r = Committed True 0
          then (set_allocation s allocation_id (r\<lparr>os_state := Committed True 1\<rparr>), True)
          else (s, False))"

definition seg_mark_prepared_slot_pending_visible ::
  "owner_segment_state \<Rightarrow> u64 \<Rightarrow> owner_segment_state option" where
  "seg_mark_prepared_slot_pending_visible s allocation_id =
     do { r \<leftarrow> seg_allocation s allocation_id;
          assert_or_panic (os_state r = Prepared);
          Some (set_allocation s allocation_id (r\<lparr>os_state := PendingLocalVisible 0\<rparr>)) }"

definition seg_promote_pending_visible_slot_to_committed ::
  "owner_segment_state \<Rightarrow> u64 \<Rightarrow> owner_segment_state option" where
  "seg_promote_pending_visible_slot_to_committed s allocation_id =
     do { r \<leftarrow> seg_allocation s allocation_id;
          (case os_state r of
             PendingLocalVisible holder_ref_count \<Rightarrow>
               Some (set_allocation s allocation_id (r\<lparr>os_state := Committed True holder_ref_count\<rparr>))
           | _ \<Rightarrow> None) }"

definition seg_release_prepared_slot :: "owner_segment_state \<Rightarrow> u64 \<Rightarrow> owner_segment_state option" where
  "seg_release_prepared_slot s allocation_id =
     do { r \<leftarrow> seg_allocation s allocation_id;
          assert_or_panic (os_state r = Prepared);
          free_allocation s allocation_id }"

definition seg_retain_resident_slot_holder :: "owner_segment_state \<Rightarrow> u64 \<Rightarrow> owner_segment_state option" where
  "seg_retain_resident_slot_holder s allocation_id =
     do { r \<leftarrow> seg_allocation s allocation_id;
          (case os_state r of
             PendingLocalVisible n \<Rightarrow> do {
               n' \<leftarrow> checked_add u32_bound n 1;
               Some (set_allocation s allocation_id (r\<lparr>os_state := PendingLocalVisible n'\<rparr>)) }
           | Committed rl n \<Rightarrow> do {
               n' \<leftarrow> checked_add u32_bound n 1;
               Some (set_allocation s allocation_id (r\<lparr>os_state := Committed rl n'\<rparr>)) }
           | Prepared \<Rightarrow> None) }"

definition seg_release_resident_slot_holder :: "owner_segment_state \<Rightarrow> u64 \<Rightarrow> owner_segment_state option" where
  "seg_release_resident_slot_holder s allocation_id =
     do { r \<leftarrow> seg_allocation s allocation_id;
          (state, should_free) \<leftarrow>
            (case os_state r of
               PendingLocalVisible n \<Rightarrow> do {
                 assert_or_panic (0 < n);
                 Some (PendingLocalVisible (n - 1), n - 1 = 0 \<and> os_source_read_lease_count r = 0) }
             | Committed rl n \<Rightarrow> do {
                 n' \<leftarrow> checked_sub n 1;
                 Some (Committed rl n', \<not> rl \<and> n' = 0 \<and> os_source_read_lease_count r = 0) }
             | Prepared \<Rightarrow> None);
          let s = set_allocation s allocation_id (r\<lparr>os_state := state\<rparr>);
          if should_free then free_allocation s allocation_id else Some s }"

text \<open>Both route releases mark the slot's manifest entry, if any, as reclaiming.\<close>

definition mark_manifest_reclaiming :: "owner_segment_state \<Rightarrow> u64 \<Rightarrow> owner_segment_state" where
  "mark_manifest_reclaiming s allocation_id =
     (case update_manifest_by_allocation s allocation_id (\<lambda>e. e\<lparr>me_physical_state := ReclaimingPhysical\<rparr>) of
        None \<Rightarrow> s
      | Some s' \<Rightarrow> s')"

definition seg_release_committed_slot_route :: "owner_segment_state \<Rightarrow> u64 \<Rightarrow> owner_segment_state option" where
  "seg_release_committed_slot_route s allocation_id =
     do { r \<leftarrow> seg_allocation s allocation_id;
          (state, should_free) \<leftarrow>
            (case os_state r of
               Committed rl n \<Rightarrow> do {
                 assert_or_panic rl;
                 Some (Committed False n, n = 0 \<and> os_source_read_lease_count r = 0) }
             | _ \<Rightarrow> None);
          let s = mark_manifest_reclaiming (set_allocation s allocation_id (r\<lparr>os_state := state\<rparr>)) allocation_id;
          if should_free then free_allocation s allocation_id else Some s }"

definition seg_release_committed_resident_slot :: "owner_segment_state \<Rightarrow> u64 \<Rightarrow> owner_segment_state option" where
  "seg_release_committed_resident_slot s allocation_id =
     do { r \<leftarrow> seg_allocation s allocation_id;
          (state, should_free) \<leftarrow>
            (case os_state r of
               Committed rl n \<Rightarrow> do {
                 assert_or_panic rl;
                 assert_or_panic (0 < n);
                 Some (Committed False (n - 1), n - 1 = 0 \<and> os_source_read_lease_count r = 0) }
             | _ \<Rightarrow> None);
          let s = mark_manifest_reclaiming (set_allocation s allocation_id (r\<lparr>os_state := state\<rparr>)) allocation_id;
          if should_free then free_allocation s allocation_id else Some s }"

section \<open>Capacity reports\<close>

definition seg_used_slot_count :: "owner_segment_state \<Rightarrow> usize" where
  "seg_used_slot_count s = length (allocations s)"

definition seg_total_free_bytes :: "owner_segment_state \<Rightarrow> u64 option" where
  "seg_total_free_bytes s =
     do { r \<leftarrow> storage_report (seg_allocator s); Some (total_free_space r * GRANULARITY) }"

definition seg_largest_free_bytes :: "owner_segment_state \<Rightarrow> u64 option" where
  "seg_largest_free_bytes s =
     do { r \<leftarrow> storage_report (seg_allocator s); Some (largest_free_region r * GRANULARITY) }"

definition report_default :: owner_segment_allocatable_report where
  "report_default = \<lparr>raw_free_bytes = 0, report_slots = 0, report_bytes = 0, slot_unallocatable_bytes = 0\<rparr>"

definition find_cached_report ::
  "owner_segment_state \<Rightarrow> u64 \<Rightarrow> owner_cached_allocatable_report option" where
  "find_cached_report s slot_size =
     find (\<lambda>c. cached_layout_revision c = layout_revision (seg_allocator s) \<and> cached_slot_size c = slot_size)
       (allocatable_report_cache s)"

definition compute_allocatable_report ::
  "owner_segment_state \<Rightarrow> u64 \<Rightarrow> u64 \<Rightarrow> owner_segment_allocatable_report option" where
  "compute_allocatable_report s raw slot_size =
     do { assert_or_panic (slot_size div GRANULARITY < u32_bound);
          exact \<leftarrow> storage_report_for_size (seg_allocator s) (slot_size div GRANULARITY);
          assert_or_panic (exact_total_free_space exact * GRANULARITY = raw);
          bytes \<leftarrow> checked_mul u64_bound (allocatable_slots exact) slot_size;
          rest \<leftarrow> checked_sub raw bytes;
          Some \<lparr>raw_free_bytes = raw, report_slots = allocatable_slots exact, report_bytes = bytes,
                slot_unallocatable_bytes = rest\<rparr> }"

definition seg_allocatable_report ::
  "owner_segment_state \<Rightarrow> u64 \<Rightarrow> (owner_segment_state \<times> owner_segment_allocatable_report) option" where
  "seg_allocatable_report s slot_size =
     do { raw \<leftarrow> seg_total_free_bytes s;
          if slot_size = 0 \<or> seg_len s < slot_size \<or> slot_size mod GRANULARITY \<noteq> 0
          then Some (s, report_default\<lparr>raw_free_bytes := raw, slot_unallocatable_bytes := raw\<rparr>)
          else (case find_cached_report s slot_size of
                  Some c \<Rightarrow> Some (s, cached_report c)
                | None \<Rightarrow> do {
                    report \<leftarrow> compute_allocatable_report s raw slot_size;
                    let c = \<lparr>cached_layout_revision = layout_revision (seg_allocator s),
                             cached_slot_size = slot_size, cached_report = report\<rparr>;
                    Some (if length (allocatable_report_cache s) < 16
                          then s\<lparr>allocatable_report_cache := allocatable_report_cache s @ [c]\<rparr>
                          else s, report) }) }"

section \<open>The global-shared budget\<close>

definition seg_global_committed_bytes :: "owner_segment_state \<Rightarrow> u64" where
  "seg_global_committed_bytes s =
     foldl (saturating_add u64_bound) 0
       (List.map_filter (\<lambda>(allocation_id, r). do {
          mk \<leftarrow> manifest_key_by_allocation s allocation_id;
          e \<leftarrow> manifest_by_key s mk;
          (if me_disposition e = GlobalShared then Some (os_capacity_bytes r) else None) }) (allocations s))"

definition seg_global_reserved_demotion_bytes :: "owner_segment_state \<Rightarrow> u64" where
  "seg_global_reserved_demotion_bytes s =
     foldl (saturating_add u64_bound) 0
       (map (\<lambda>(_, slot). slot_capacity_bytes slot) (global_demotion_reservations s))"

definition seg_global_accounted_bytes :: "owner_segment_state \<Rightarrow> u64" where
  "seg_global_accounted_bytes s =
     saturating_add u64_bound (seg_global_committed_bytes s) (seg_global_reserved_demotion_bytes s)"

text \<open>The running total of a batch is threaded through (\<open>&mut global_accounted_bytes\<close>).\<close>

definition seg_try_reserve_global_demotion ::
  "owner_segment_state \<Rightarrow> u64 \<Rightarrow> string \<Rightarrow> put_id_for_a_key \<Rightarrow> u64 \<Rightarrow> u64 \<Rightarrow> u64 \<Rightarrow> u64 \<Rightarrow>
   owner_segment_state \<times> u64 \<times> (owner_transfer_item_error + bool)" where
  "seg_try_reserve_global_demotion s local_target_bytes key put_id allocation_id segment_offset
     capacity_bytes accounted =
     (let mk = manifest_key key put_id in
      case manifest_by_key s mk of
        None \<Rightarrow> (s, accounted, Inl \<lparr>err_code = NotFound\<rparr>)
      | Some manifest \<Rightarrow>
          if slot_allocation_id (me_slot manifest) \<noteq> allocation_id \<or>
             slot_segment_offset (me_slot manifest) \<noteq> segment_offset \<or>
             slot_capacity_bytes (me_slot manifest) \<noteq> capacity_bytes \<or>
             me_physical_state manifest \<noteq> CommittedPhysical
          then (s, accounted, Inl \<lparr>err_code = Conflict\<rparr>)
          else if me_scope manifest = Some GlobalSharedScope then (s, accounted, Inr True)
          else if me_scope manifest \<noteq> Some LocalExclusiveScope then (s, accounted, Inl \<lparr>err_code = Conflict\<rparr>)
          else (case map_of (global_demotion_reservations s) mk of
            Some existing \<Rightarrow>
              if geometry_matches existing (me_slot manifest) \<and>
                 slot_len existing = slot_len (me_slot manifest) \<and>
                 slot_registration_epoch existing = slot_registration_epoch (me_slot manifest)
              then (s, accounted, Inr True)
              else (s, accounted, Inl \<lparr>err_code = Conflict\<rparr>)
          | None \<Rightarrow>
              (case checked_add u64_bound accounted capacity_bytes of
                 None \<Rightarrow> (s, accounted, Inr False)
               | Some next \<Rightarrow>
                   if seg_len s - local_target_bytes < next then (s, accounted, Inr False)
                   else (s\<lparr>global_demotion_reservations :=
                            AList.update mk (me_slot manifest) (global_demotion_reservations s)\<rparr>,
                         next, Inr True))))"

end
