(* ===== verification/Owner_Slots_Inv.thy ===== *)
theory Owner_Slots_Inv
  imports Owner_Slots
begin

text \<open>
  The invariant of a segment state and that every operation keeps it: the allocations are
  exactly the regions the offset allocator has handed out, indexed by offset; the manifest's
  two maps are inverse to each other and name live slots; every slot counts exactly its active
  source leases, which name it exactly; a demotion reservation belongs to a manifest entry.
\<close>

declare map_of_eq_Some_iff [simp del] Some_eq_map_of_iff [simp del]

section \<open>Geometry of the slots\<close>

abbreviation alloc_map :: "owner_segment_state \<Rightarrow> u64 \<Rightarrow> owner_allocation_state option" where
  "alloc_map s \<equiv> map_of (allocations s)"

abbreviation src_map :: "owner_segment_state \<Rightarrow> owner_transfer_op_id \<Rightarrow> owner_source_lease_record option" where
  "src_map s \<equiv> map_of (source_leases s)"

abbreviation res_map :: "owner_segment_state \<Rightarrow> owner_manifest_key \<Rightarrow> owner_slot_desc option" where
  "res_map s \<equiv> map_of (global_demotion_reservations s)"

record geometry =
  g_id :: u64
  g_allocation :: allocation
  g_offset :: u64
  g_capacity :: u64
  g_len :: u64

definition slot_geometry :: "owner_allocation_state \<Rightarrow> geometry" where
  "slot_geometry r = \<lparr>g_id = os_allocation_id r, g_allocation = os_allocation r,
     g_offset = os_segment_offset r, g_capacity = os_capacity_bytes r, g_len = os_value_len r\<rparr>"

lemma slot_geometry_simps [simp]:
  "g_id (slot_geometry r) = os_allocation_id r" "g_allocation (slot_geometry r) = os_allocation r"
  "g_offset (slot_geometry r) = os_segment_offset r" "g_capacity (slot_geometry r) = os_capacity_bytes r"
  "g_len (slot_geometry r) = os_value_len r"
  "slot_geometry (r\<lparr>os_state := st\<rparr>) = slot_geometry r"
  "slot_geometry (r\<lparr>os_source_read_lease_count := n\<rparr>) = slot_geometry r"
  by (simp_all add: slot_geometry_def)

definition geom :: "owner_segment_state \<Rightarrow> u64 \<Rightarrow> geometry option" where
  "geom s = (\<lambda>aid. map_option slot_geometry (alloc_map s aid))"

lemma geom_Some: "geom s aid = Some g \<longleftrightarrow> (\<exists>r. alloc_map s aid = Some r \<and> g = slot_geometry r)"
  by (auto simp: geom_def)

lemma geom_None: "geom s aid = None \<longleftrightarrow> alloc_map s aid = None"
  by (simp add: geom_def)

text \<open>What identifies the segment itself, which no operation changes.\<close>

definition same_segment :: "owner_segment_state \<Rightarrow> owner_segment_state \<Rightarrow> bool" where
  "same_segment s s' \<longleftrightarrow> seg_owner s' = seg_owner s \<and> seg_registration_epoch s' = seg_registration_epoch s \<and>
     seg_base_addr s' = seg_base_addr s \<and> seg_addr s' = seg_addr s \<and> seg_len s' = seg_len s"

lemma same_segment_refl [simp]: "same_segment s s"
  by (simp add: same_segment_def)

lemma same_segment_trans: "same_segment s s' \<Longrightarrow> same_segment s' s'' \<Longrightarrow> same_segment s s''"
  by (simp add: same_segment_def)

definition geometry_ok :: "allocator \<Rightarrow> u64 \<Rightarrow> geometry \<Rightarrow> bool" where
  "geometry_ok a aid g \<longleftrightarrow>
     g_id g = aid \<and> aid \<noteq> 0 \<and> metadata (g_allocation g) \<in> live a \<and>
     offset (g_allocation g) = block_offset a (metadata (g_allocation g)) \<and>
     g_offset g = GRANULARITY * offset (g_allocation g) \<and>
     g_capacity g = GRANULARITY * block_size a (metadata (g_allocation g)) \<and>
     0 < g_len g \<and> g_len g \<le> g_capacity g"

abbreviation g_node :: "geometry \<Rightarrow> nat" where
  "g_node g \<equiv> metadata (g_allocation g)"

definition phys_ok :: "owner_segment_state \<Rightarrow> bool" where
  "phys_ok s \<longleftrightarrow>
     alloc_inv (seg_allocator s) \<and> GRANULARITY * alloc_size (seg_allocator s) = seg_len s \<and>
     seg_addr s + seg_len s \<le> u64_bound \<and> distinct (map fst (allocations s)) \<and>
     (\<forall>aid g. geom s aid = Some g \<longrightarrow> geometry_ok (seg_allocator s) aid g) \<and>
     (\<forall>m \<in> live (seg_allocator s). \<exists>aid g. geom s aid = Some g \<and> g_node g = m) \<and>
     inj_on (\<lambda>i. g_node (the (geom s i))) (dom (geom s)) \<and>
     (\<forall>off aid. allocations_by_offset s off = Some aid \<longleftrightarrow>
        (\<exists>g. geom s aid = Some g \<and> offset (g_allocation g) = off))"

section \<open>Manifest, leases, reservations\<close>

definition man_ok :: "owner_segment_state \<Rightarrow> bool" where
  "man_ok s \<longleftrightarrow>
     (\<forall>aid k. manifest_key_by_allocation s aid = Some k \<longleftrightarrow>
        (\<exists>e. manifest_by_key s k = Some e \<and> slot_allocation_id (me_slot e) = aid)) \<and>
     (\<forall>k e. manifest_by_key s k = Some e \<longrightarrow>
        k = manifest_key (me_key e) (me_put_id e) \<and> identity_matches_desc s (me_slot e))"

definition active_on :: "u64 \<Rightarrow> owner_source_lease_record \<Rightarrow> bool" where
  "active_on aid l \<longleftrightarrow> sl_state l = ActiveLease \<and> slot_allocation_id (src_source (sl_route_token l)) = aid"

definition lease_ok :: "owner_segment_state \<Rightarrow> bool" where
  "lease_ok s \<longleftrightarrow> distinct (map fst (source_leases s)) \<and>
     (\<forall>aid r. alloc_map s aid = Some r \<longrightarrow>
        os_source_read_lease_count r = map_count (src_map s) (active_on aid)) \<and>
     (\<forall>op l. src_map s op = Some l \<and> sl_state l = ActiveLease \<longrightarrow>
        identity_matches_desc s (src_source (sl_route_token l)))"

definition res_ok :: "owner_segment_state \<Rightarrow> bool" where
  "res_ok s \<longleftrightarrow> distinct (map fst (global_demotion_reservations s)) \<and>
     (\<forall>k slot. res_map s k = Some slot \<longrightarrow> (\<exists>e. manifest_by_key s k = Some e \<and> me_slot e = slot))"

definition seg_inv :: "owner_segment_state \<Rightarrow> bool" where
  "seg_inv s \<longleftrightarrow> phys_ok s \<and> man_ok s \<and> lease_ok s \<and> res_ok s"

lemma lease_okD:
  assumes "lease_ok s"
  shows "distinct (map fst (source_leases s))"
    and "alloc_map s aid = Some r \<Longrightarrow> os_source_read_lease_count r = map_count (src_map s) (active_on aid)"
    and "src_map s op = Some l \<Longrightarrow> sl_state l = ActiveLease \<Longrightarrow>
           identity_matches_desc s (src_source (sl_route_token l))"
  using assms by (auto simp: lease_ok_def)

lemma man_okD:
  assumes "man_ok s"
  shows "manifest_key_by_allocation s aid = Some k \<longleftrightarrow>
           (\<exists>e. manifest_by_key s k = Some e \<and> slot_allocation_id (me_slot e) = aid)"
    and "manifest_by_key s k = Some e \<Longrightarrow> k = manifest_key (me_key e) (me_put_id e)"
    and "manifest_by_key s k = Some e \<Longrightarrow> identity_matches_desc s (me_slot e)"
  using assms by (auto simp: man_ok_def)

lemma phys_okD:
  assumes "phys_ok s"
  shows "alloc_inv (seg_allocator s)" and "GRANULARITY * alloc_size (seg_allocator s) = seg_len s"
    and "seg_addr s + seg_len s \<le> u64_bound" and "distinct (map fst (allocations s))"
    and "geom s aid = Some g \<Longrightarrow> geometry_ok (seg_allocator s) aid g"
    and "m \<in> live (seg_allocator s) \<Longrightarrow> \<exists>aid g. geom s aid = Some g \<and> g_node g = m"
    and "geom s i = Some g \<Longrightarrow> geom s j = Some h \<Longrightarrow> g_node g = g_node h \<Longrightarrow> i = j"
    and "allocations_by_offset s off = Some aid \<longleftrightarrow> (\<exists>g. geom s aid = Some g \<and> offset (g_allocation g) = off)"
proof -
  show "geom s i = Some g \<Longrightarrow> geom s j = Some h \<Longrightarrow> g_node g = g_node h \<Longrightarrow> i = j"
    using assms by (auto simp: phys_ok_def dest!: inj_onD [of _ _ i j])
qed (use assms in \<open>auto simp: phys_ok_def\<close>)

lemma identity_geom:
  "identity_matches_desc s slot \<longleftrightarrow>
     slot_owner slot = seg_owner s \<and> slot_registration_epoch slot = seg_registration_epoch s \<and>
     slot_addr slot = (case checked_add u64_bound (seg_addr s) (slot_segment_offset slot) of
                         None \<Rightarrow> u64_bound - 1 | Some a \<Rightarrow> a) \<and>
     slot_base_addr slot = seg_base_addr s \<and>
     (\<exists>g. geom s (slot_allocation_id slot) = Some g \<and> g_offset g = slot_segment_offset slot \<and>
          g_capacity g = slot_capacity_bytes slot \<and> g_len g = slot_len slot)"
  by (auto simp: identity_matches_desc_def geom_def seg_allocation_def split: option.splits)

lemma identity_frame:
  assumes "same_segment s s'" and "geom s' (slot_allocation_id slot) = geom s (slot_allocation_id slot)"
  shows "identity_matches_desc s' slot = identity_matches_desc s slot"
  using assms by (simp add: identity_geom same_segment_def)

lemma identity_live: "identity_matches_desc s slot \<Longrightarrow> alloc_map s (slot_allocation_id slot) \<noteq> None"
  by (auto simp: identity_geom geom_def)

lemma src_finite [simp]: "finite (dom (src_map s))" "finite (dom (alloc_map s))"
  by (simp_all add: finite_dom_map_of)

section \<open>Frames\<close>

text \<open>An operation that leaves the allocator and the geometry of the slots alone.\<close>

lemma phys_frame:
  assumes "phys_ok s" "same_segment s s'" "seg_allocator s' = seg_allocator s" "geom s' = geom s"
    and "distinct (map fst (allocations s'))" "allocations_by_offset s' = allocations_by_offset s"
  shows "phys_ok s'"
  using assms by (simp add: phys_ok_def same_segment_def)

lemma man_frame:
  assumes "man_ok s" "same_segment s s'" "geom s' = geom s"
    and "manifest_by_key s' = manifest_by_key s" "manifest_key_by_allocation s' = manifest_key_by_allocation s"
  shows "man_ok s'"
  using assms identity_frame [OF assms(2)] by (simp add: man_ok_def)

lemma lease_frame:
  assumes "lease_ok s" "same_segment s s'" "geom s' = geom s" "source_leases s' = source_leases s"
    and "\<And>aid r'. alloc_map s' aid = Some r' \<Longrightarrow>
           \<exists>r. alloc_map s aid = Some r \<and> os_source_read_lease_count r' = os_source_read_lease_count r"
  shows "lease_ok s'"
  unfolding lease_ok_def
proof (intro conjI allI impI)
  show "distinct (map fst (source_leases s'))" using assms(1,4) by (simp add: lease_ok_def)
  show "os_source_read_lease_count r = map_count (src_map s') (active_on aid)" if "alloc_map s' aid = Some r" for aid r
    using assms(5) [OF that] assms(1,4) by (auto simp: lease_ok_def)
  show "identity_matches_desc s' (src_source (sl_route_token l))"
    if "src_map s' op = Some l \<and> sl_state l = ActiveLease" for op l
    unfolding identity_frame [OF assms(2) fun_cong [OF assms(3)]]
    using that assms(4) lease_okD(3) [OF assms(1), of op l] by simp
qed

lemma res_frame:
  assumes "res_ok s" "manifest_by_key s' = manifest_by_key s"
    "global_demotion_reservations s' = global_demotion_reservations s"
  shows "res_ok s'"
  using assms by (simp add: res_ok_def)

lemma set_allocation_maps [simp]:
  "alloc_map (set_allocation s aid r) = (alloc_map s)(aid \<mapsto> r)"
  "source_leases (set_allocation s aid r) = source_leases s"
  "manifest_by_key (set_allocation s aid r) = manifest_by_key s"
  "manifest_key_by_allocation (set_allocation s aid r) = manifest_key_by_allocation s"
  "target_leases (set_allocation s aid r) = target_leases s"
  "global_demotion_reservations (set_allocation s aid r) = global_demotion_reservations s"
  "seg_allocator (set_allocation s aid r) = seg_allocator s"
  "allocations_by_offset (set_allocation s aid r) = allocations_by_offset s"
  "allocatable_report_cache (set_allocation s aid r) = allocatable_report_cache s"
  "same_segment s (set_allocation s aid r)"
  by (simp_all add: set_allocation_def update_conv' same_segment_def)

lemma set_allocation_geom:
  assumes "alloc_map s aid = Some r" "slot_geometry r' = slot_geometry r"
  shows "geom (set_allocation s aid r') = geom s"
  using assms by (auto simp: geom_def fun_eq_iff)

lemma set_allocation_distinct:
  "distinct (map fst (allocations s)) \<Longrightarrow> distinct (map fst (allocations (set_allocation s aid r)))"
  by (simp add: set_allocation_def distinct_update)

lemma seg_inv_set_state:
  assumes "seg_inv s" "alloc_map s aid = Some r"
  shows "seg_inv (set_allocation s aid (r\<lparr>os_state := st\<rparr>))"
proof -
  let ?s = "set_allocation s aid (r\<lparr>os_state := st\<rparr>)"
  have inv: "phys_ok s" "man_ok s" "lease_ok s" "res_ok s" using assms(1) by (simp_all add: seg_inv_def)
  have g: "geom ?s = geom s" by (rule set_allocation_geom [OF assms(2)]) simp
  have "phys_ok ?s"
    by (rule phys_frame [OF inv(1) _ _ g]) (use inv(1) in \<open>simp_all add: set_allocation_distinct phys_ok_def\<close>)
  moreover have "man_ok ?s" by (rule man_frame [OF inv(2) _ g]) simp_all
  moreover have "lease_ok ?s"
    by (rule lease_frame [OF inv(3) _ g]) (use assms(2) in \<open>auto split: if_splits\<close>)
  moreover have "res_ok ?s" by (rule res_frame [OF inv(4)]) simp_all
  ultimately show ?thesis by (simp add: seg_inv_def)
qed

text \<open>Target leases and the report cache are not part of the invariant.\<close>

lemma seg_inv_target_leases [simp]: "seg_inv (s\<lparr>target_leases := t\<rparr>) = seg_inv s"
proof -
  let ?s = "s\<lparr>target_leases := t\<rparr>"
  have "identity_matches_desc ?s = identity_matches_desc s"
    by (rule ext, rule identity_frame) (simp_all add: same_segment_def geom_def)
  moreover have "geom ?s = geom s" by (simp add: geom_def)
  ultimately show ?thesis by (simp add: seg_inv_def phys_ok_def man_ok_def lease_ok_def res_ok_def)
qed

lemma seg_inv_cache [simp]: "seg_inv (s\<lparr>allocatable_report_cache := c\<rparr>) = seg_inv s"
proof -
  let ?s = "s\<lparr>allocatable_report_cache := c\<rparr>"
  have "identity_matches_desc ?s = identity_matches_desc s"
    by (rule ext, rule identity_frame) (simp_all add: same_segment_def geom_def)
  moreover have "geom ?s = geom s" by (simp add: geom_def)
  ultimately show ?thesis by (simp add: seg_inv_def phys_ok_def man_ok_def lease_ok_def res_ok_def)
qed

section \<open>Manifest operations\<close>

lemma seg_inv_manifest_entry:
  assumes inv: "seg_inv s" and e: "manifest_by_key s k = Some e"
    and e': "me_key e' = me_key e" "me_put_id e' = me_put_id e" "me_slot e' = me_slot e"
  shows "seg_inv (s\<lparr>manifest_by_key := (manifest_by_key s)(k \<mapsto> e')\<rparr>)"
proof -
  let ?s = "s\<lparr>manifest_by_key := (manifest_by_key s)(k \<mapsto> e')\<rparr>"
  have parts: "phys_ok s" "man_ok s" "lease_ok s" "res_ok s" using inv by (simp_all add: seg_inv_def)
  have g: "geom ?s = geom s" by (simp add: geom_def)
  have ss: "same_segment s ?s" by (simp add: same_segment_def)
  have idm: "identity_matches_desc ?s slot = identity_matches_desc s slot" for slot
    by (rule identity_frame [OF ss]) (simp add: g)
  have lookup: "(\<exists>x. ((manifest_by_key s)(k \<mapsto> e')) j = Some x \<and> slot_allocation_id (me_slot x) = aid) \<longleftrightarrow>
      (\<exists>x. manifest_by_key s j = Some x \<and> slot_allocation_id (me_slot x) = aid)" for j aid
    using e e'(3) by auto
  have "man_ok ?s"
    unfolding man_ok_def
  proof (intro conjI allI impI)
    show "manifest_key_by_allocation ?s aid = Some j \<longleftrightarrow>
        (\<exists>x. manifest_by_key ?s j = Some x \<and> slot_allocation_id (me_slot x) = aid)" for aid j
      using man_okD(1) [OF parts(2), of aid j] lookup [of j aid] by simp
    fix j x assume x: "manifest_by_key ?s j = Some x"
    show "j = manifest_key (me_key x) (me_put_id x)" "identity_matches_desc ?s (me_slot x)"
      unfolding idm using x e e' man_okD(2,3) [OF parts(2), of j] by (auto split: if_splits)
  qed
  moreover have "phys_ok ?s"
    by (rule phys_frame [OF parts(1) ss _ g]) (use phys_okD(4) [OF parts(1)] in simp_all)
  moreover have "lease_ok ?s" by (rule lease_frame [OF parts(3) ss g]) simp_all
  moreover have "res_ok ?s"
    unfolding res_ok_def
  proof (intro conjI allI impI)
    show "distinct (map fst (global_demotion_reservations ?s))" using parts(4) by (simp add: res_ok_def)
    fix j slot assume "res_map ?s j = Some slot"
    then obtain x where "manifest_by_key s j = Some x" "me_slot x = slot"
      using parts(4) by (auto simp: res_ok_def)
    then show "\<exists>x. manifest_by_key ?s j = Some x \<and> me_slot x = slot" using e e'(3) by auto
  qed
  ultimately show ?thesis by (simp add: seg_inv_def)
qed

lemma seg_inv_update_manifest:
  assumes inv: "seg_inv s" and upd: "update_manifest_by_allocation s aid f = Some s'"
    and f: "\<And>e. me_key (f e) = me_key e \<and> me_put_id (f e) = me_put_id e \<and> me_slot (f e) = me_slot e"
  shows "seg_inv s'"
  using upd seg_inv_manifest_entry [OF inv] f
  by (auto simp: update_manifest_by_allocation_def manifest_entry_by_allocation_def bind_eq_Some_conv
      split: option.splits)

lemma update_manifest_frame:
  assumes "update_manifest_by_allocation s aid f = Some s'"
  shows "alloc_map s' = alloc_map s" "source_leases s' = source_leases s" "target_leases s' = target_leases s"
    "allocations s' = allocations s" "global_demotion_reservations s' = global_demotion_reservations s"
    "seg_allocator s' = seg_allocator s" "allocatable_report_cache s' = allocatable_report_cache s"
    "same_segment s s'" "manifest_key_by_allocation s' = manifest_key_by_allocation s"
  using assms
  by (auto simp: update_manifest_by_allocation_def manifest_entry_by_allocation_def bind_eq_Some_conv
      same_segment_def split: option.splits)

lemma install_manifest_cases:
  obtains (fail) e where "install_manifest_entry s entry = (s, Inl e)"
  | (replay) "install_manifest_entry s entry = (s, Inr ())"
      "manifest_by_key s (manifest_key (me_key entry) (me_put_id entry)) \<noteq> None"
  | (new) "install_manifest_entry s entry =
       (s\<lparr>manifest_key_by_allocation := (manifest_key_by_allocation s)
            (slot_allocation_id (me_slot entry) \<mapsto> manifest_key (me_key entry) (me_put_id entry)),
          manifest_by_key := (manifest_by_key s)(manifest_key (me_key entry) (me_put_id entry) \<mapsto> entry)\<rparr>, Inr ())"
     "manifest_by_key s (manifest_key (me_key entry) (me_put_id entry)) = None"
     "manifest_key_by_allocation s (slot_allocation_id (me_slot entry)) = None"
     "identity_matches_desc s (me_slot entry)" "slot_is_valid (me_slot entry)"
proof -
  let ?bad = "me_key entry = [] \<or> \<not> slot_is_valid (me_slot entry) \<or> \<not> identity_matches_desc s (me_slot entry)"
  let ?k = "manifest_key (me_key entry) (me_put_id entry)"
  show ?thesis
  proof (cases ?bad)
    case True
    then show ?thesis by (intro fail) (simp add: install_manifest_entry_def)
  next
    case good: False
    show ?thesis
    proof (cases "manifest_by_key s ?k")
      case (Some existing)
      show ?thesis
      proof (cases "geometry_matches (me_slot existing) (me_slot entry) \<and>
               slot_len (me_slot existing) = slot_len (me_slot entry) \<and>
               slot_registration_epoch (me_slot existing) = slot_registration_epoch (me_slot entry)")
        case True
        with good Some show ?thesis by (intro replay) (simp_all add: install_manifest_entry_def Let_def)
      next
        case False
        with good Some show ?thesis by (intro fail) (simp add: install_manifest_entry_def Let_def)
      qed
    next
      case None
      show ?thesis
      proof (cases "manifest_key_by_allocation s (slot_allocation_id (me_slot entry))")
        case (Some k)
        with good None show ?thesis by (intro fail) (simp add: install_manifest_entry_def Let_def)
      next
        case None
        with good \<open>manifest_by_key s ?k = None\<close> show ?thesis
          by (intro new) (simp_all add: install_manifest_entry_def Let_def)
      qed
    qed
  qed
qed

lemma seg_inv_install_manifest:
  assumes inv: "seg_inv s"
  shows "seg_inv (fst (install_manifest_entry s entry))"
proof (cases rule: install_manifest_cases [of s entry])
  case new
  let ?k = "manifest_key (me_key entry) (me_put_id entry)"
  let ?i = "slot_allocation_id (me_slot entry)"
  let ?s = "s\<lparr>manifest_key_by_allocation := (manifest_key_by_allocation s)(?i \<mapsto> ?k),
          manifest_by_key := (manifest_by_key s)(?k \<mapsto> entry)\<rparr>"
  have parts: "phys_ok s" "man_ok s" "lease_ok s" "res_ok s" using inv by (simp_all add: seg_inv_def)
  have g: "geom ?s = geom s" by (simp add: geom_def)
  have ss: "same_segment s ?s" by (simp add: same_segment_def)
  have idm: "identity_matches_desc ?s slot = identity_matches_desc s slot" for slot
    by (rule identity_frame [OF ss]) (simp add: g)
  have other: "slot_allocation_id (me_slot x) \<noteq> ?i" if "manifest_by_key s j = Some x" for j x
    using that new(3) man_okD(1) [OF parts(2), of ?i j] by auto
  have "man_ok ?s"
    unfolding man_ok_def
  proof (intro conjI allI impI)
    show "manifest_key_by_allocation ?s aid = Some j \<longleftrightarrow>
        (\<exists>x. manifest_by_key ?s j = Some x \<and> slot_allocation_id (me_slot x) = aid)" for aid j
    proof (cases "j = ?k")
      case True
      with man_okD(1) [OF parts(2), of aid j] new(2) show ?thesis by simp
    next
      case False
      with man_okD(1) [OF parts(2), of aid j] other [of j] show ?thesis by (cases "aid = ?i") auto
    qed
    fix j x assume x: "manifest_by_key ?s j = Some x"
    have "j = manifest_key (me_key x) (me_put_id x) \<and> identity_matches_desc s (me_slot x)"
    proof (cases "j = ?k")
      case True
      with x new(4) show ?thesis by simp
    next
      case False
      with x have "manifest_by_key s j = Some x" by simp
      from man_okD(2,3) [OF parts(2) this] show ?thesis by (rule conjI)
    qed
    then show "j = manifest_key (me_key x) (me_put_id x)" "identity_matches_desc ?s (me_slot x)"
      unfolding idm by (rule conjunct1, rule conjunct2)
  qed
  moreover have "phys_ok ?s"
    by (rule phys_frame [OF parts(1) ss _ g]) (use phys_okD(4) [OF parts(1)] in simp_all)
  moreover have "lease_ok ?s" by (rule lease_frame [OF parts(3) ss g]) simp_all
  moreover have "res_ok ?s"
    unfolding res_ok_def
  proof (intro conjI allI impI)
    show "distinct (map fst (global_demotion_reservations ?s))" using parts(4) by (simp add: res_ok_def)
    fix j slot assume "res_map ?s j = Some slot"
    then obtain x where "manifest_by_key s j = Some x" "me_slot x = slot"
      using parts(4) by (auto simp: res_ok_def)
    then show "\<exists>x. manifest_by_key ?s j = Some x \<and> me_slot x = slot" using new(2) by auto
  qed
  ultimately show ?thesis using new(1) by (simp add: seg_inv_def)
qed (use inv in simp_all)

lemma install_manifest_frame:
  "alloc_map (fst (install_manifest_entry s entry)) = alloc_map s"
  "allocations (fst (install_manifest_entry s entry)) = allocations s"
  "source_leases (fst (install_manifest_entry s entry)) = source_leases s"
  "target_leases (fst (install_manifest_entry s entry)) = target_leases s"
  "global_demotion_reservations (fst (install_manifest_entry s entry)) = global_demotion_reservations s"
  "seg_allocator (fst (install_manifest_entry s entry)) = seg_allocator s"
  "allocatable_report_cache (fst (install_manifest_entry s entry)) = allocatable_report_cache s"
  "same_segment s (fst (install_manifest_entry s entry))"
  by (cases rule: install_manifest_cases [of s entry]; simp add: same_segment_def)+

section \<open>Reservations\<close>

lemma seg_inv_reservations:
  assumes "seg_inv s" and "res_ok (s\<lparr>global_demotion_reservations := rs\<rparr>)"
  shows "seg_inv (s\<lparr>global_demotion_reservations := rs\<rparr>)"
proof -
  let ?s = "s\<lparr>global_demotion_reservations := rs\<rparr>"
  have parts: "phys_ok s" "man_ok s" "lease_ok s" using assms(1) by (simp_all add: seg_inv_def)
  have g: "geom ?s = geom s" by (simp add: geom_def)
  have ss: "same_segment s ?s" by (simp add: same_segment_def)
  have "phys_ok ?s"
    by (rule phys_frame [OF parts(1) ss _ g]) (use phys_okD(4) [OF parts(1)] in simp_all)
  moreover have "man_ok ?s" by (rule man_frame [OF parts(2) ss g]) simp_all
  moreover have "lease_ok ?s" by (rule lease_frame [OF parts(3) ss g]) simp_all
  ultimately show ?thesis using assms(2) by (simp add: seg_inv_def)
qed

lemma seg_inv_drop_reservation:
  assumes "seg_inv s"
  shows "seg_inv (s\<lparr>global_demotion_reservations := AList.delete k (global_demotion_reservations s)\<rparr>)"
  by (rule seg_inv_reservations [OF assms])
    (use assms in \<open>auto simp: seg_inv_def res_ok_def delete_conv' distinct_delete split: if_splits\<close>)

lemma seg_inv_add_reservation:
  assumes "seg_inv s" and "manifest_by_key s k = Some e"
  shows "seg_inv (s\<lparr>global_demotion_reservations := AList.update k (me_slot e) (global_demotion_reservations s)\<rparr>)"
  by (rule seg_inv_reservations [OF assms(1)])
    (use assms in \<open>auto simp: seg_inv_def res_ok_def update_conv' distinct_update split: if_splits\<close>)

end
