(* ===== verification/Owner_Pool.thy ===== *)
theory Owner_Pool
  imports Owner_Slots
begin

text \<open>
  The owner's authority over its segment, \<open>OwnerSegmentAllocator\<close> of
  \<open>fluxon_kv/src/client_kv_api/mod.rs\<close>: installing the segment, claims, source and target
  leases of transfers, the commit and abort paths, the manifest's scope conversions and the
  global-shared budget, and the slot counters. All its methods run under one mutex, so each is
  one atomic step of the state.

  \<open>pending_demand_by_slot_size\<close> is an association list (it is summed); the set
  \<open>failed_claim_slot_sizes\<close> and the ordered set \<open>capacity_report_requested_size_classes\<close> are
  lists without duplicates.
\<close>

record owner_pool =
  segment :: "owner_segment_state option"
  next_allocation_id :: u64
  next_lease_sequence :: u64
  prepared_slots :: usize
  pending_visible_slots :: usize
  committed_slots :: usize
  pending_demand_by_slot_size :: "(u64 \<times> usize) list"
  failed_claim_slot_sizes :: "u64 list"
  claim_progress_epoch :: u64
  local_target_bytes :: u64
  controller_epoch :: u64
  expected_slot_size :: "u64 option"
  requested_size_classes :: "u64 list"

definition pool_default :: owner_pool where
  "pool_default =
     \<lparr>segment = None, next_allocation_id = 0, next_lease_sequence = 0, prepared_slots = 0,
      pending_visible_slots = 0, committed_slots = 0, pending_demand_by_slot_size = [],
      failed_claim_slot_sizes = [], claim_progress_epoch = 0, local_target_bytes = 0,
      controller_epoch = 0, expected_slot_size = None, requested_size_classes = []\<rparr>"

section \<open>Installation and control\<close>

definition install_segment ::
  "owner_pool \<Rightarrow> owner_generation \<Rightarrow> u64 \<Rightarrow> u64 \<Rightarrow> u64 \<Rightarrow> u64 \<Rightarrow> u64 \<Rightarrow> u64 option \<Rightarrow>
   (owner_pool \<times> (unit + unit)) option" where
  "install_segment p owner registration_epoch base_addr addr len target expected =
     (if segment p \<noteq> None then Some (p, Inl ())
      else if len < target then Some (p, Inl ())
      else do {
        created \<leftarrow> segment_new owner registration_epoch base_addr addr len;
        (case created of
           Inl e \<Rightarrow> Some (p, Inl e)
         | Inr s \<Rightarrow> Some (p\<lparr>segment := Some s, local_target_bytes := target, controller_epoch := 1,
                             expected_slot_size := expected,
                             requested_size_classes := (case expected of None \<Rightarrow> [] | Some x \<Rightarrow> [x])\<rparr>, Inr ())) })"

definition apply_target_control :: "owner_pool \<Rightarrow> u64 \<Rightarrow> u64 \<Rightarrow> owner_pool \<times> (unit + bool)" where
  "apply_target_control p epoch target =
     (case segment p of
        None \<Rightarrow> (p, Inl ())
      | Some s \<Rightarrow>
          if controller_epoch p = 0 then (p, Inl ())
          else if epoch = controller_epoch p
          then (if target \<noteq> local_target_bytes p then (p, Inl ()) else (p, Inr False))
          else (case checked_add u64_bound (controller_epoch p) 1 of
                  None \<Rightarrow> (p, Inl ())
                | Some next_epoch \<Rightarrow>
                    if epoch \<noteq> next_epoch then (p, Inl ())
                    else if target = 0 \<or> seg_len s < target then (p, Inl ())
                    else (p\<lparr>local_target_bytes := target, controller_epoch := epoch\<rparr>, Inr True)))"

section \<open>Claims\<close>

text \<open>The loop of \<open>claim_available_with_len\<close>; \<open>fuel\<close> is the number of slots still wanted.\<close>

fun claim_loop ::
  "owner_pool \<Rightarrow> u64 \<Rightarrow> u64 \<Rightarrow> nat \<Rightarrow> owner_slot_desc list \<Rightarrow> (owner_pool \<times> owner_slot_desc list) option" where
  "claim_loop p slot_size value_len 0 slots = Some (p, slots)"
| "claim_loop p slot_size value_len (Suc n) slots =
     (case segment p of
        None \<Rightarrow> Some (p, slots)
      | Some s \<Rightarrow> do {
          allocation_id \<leftarrow> checked_add u64_bound (next_allocation_id p) 1;
          let p = p\<lparr>next_allocation_id := allocation_id\<rparr>;
          (s, claimed) \<leftarrow> claim_prepared_slot s slot_size value_len allocation_id;
          let p = p\<lparr>segment := Some s\<rparr>;
          (case claimed of
             None \<Rightarrow> Some (p, slots)
           | Some slot \<Rightarrow> do {
               n' \<leftarrow> checked_add u64_bound (prepared_slots p) 1;
               claim_loop (p\<lparr>prepared_slots := n'\<rparr>) slot_size value_len n (slots @ [slot]) }) })"

text \<open>The size of an \<open>OwnerSlotDesc\<close> in memory: a \<open>String\<close> of three words, the \<open>i64\<close> start time and
  seven \<open>u64\<close> fields.\<close>

definition OWNER_SLOT_DESC_BYTES :: nat where
  "OWNER_SLOT_DESC_BYTES = 3 * 8 + 8 + 7 * 8"

definition claim_available_with_len ::
  "owner_pool \<Rightarrow> u64 \<Rightarrow> u64 \<Rightarrow> usize \<Rightarrow> (owner_pool \<times> owner_slot_desc list) option" where
  "claim_available_with_len p slot_size value_len max_slots =
     do { vec_with_capacity OWNER_SLOT_DESC_BYTES max_slots;
          claim_loop p slot_size value_len max_slots [] }"

definition claim_value :: "owner_pool \<Rightarrow> u64 \<Rightarrow> usize \<Rightarrow> (owner_pool \<times> owner_slot_desc list) option" where
  "claim_value p value_len max_slots =
     (case owner_segment_allocation_capacity_bytes value_len of
        None \<Rightarrow> Some (p, [])
      | Some slot_size \<Rightarrow> claim_available_with_len p slot_size value_len max_slots)"

section \<open>Source leases\<close>

definition allocate_lease_id ::
  "owner_pool \<Rightarrow> owner_pool \<times> (owner_transfer_item_error + owner_lease_id)" where
  "allocate_lease_id p =
     (case segment p of
        None \<Rightarrow> (p, Inl \<lparr>err_code = Busy\<rparr>)
      | Some s \<Rightarrow>
          (case checked_add u64_bound (next_lease_sequence p) 1 of
             None \<Rightarrow> (p, Inl \<lparr>err_code = Internal\<rparr>)
           | Some n \<Rightarrow> (p\<lparr>next_lease_sequence := n\<rparr>,
                         Inr \<lparr>lease_owner = seg_owner s, lease_sequence = n\<rparr>)))"

definition acquire_source ::
  "owner_pool \<Rightarrow> owner_transfer_op_id \<Rightarrow> owner_source_route_token \<Rightarrow>
   (owner_pool \<times> owner_segment_transfer_outcome) option" where
  "acquire_source p op_id route_token =
     (let existing_lease = (case segment p of
            None \<Rightarrow> None
          | Some s \<Rightarrow> map_option sl_lease_id (map_of (source_leases s) op_id));
          (p, lease) = (case existing_lease of
            Some lease_id \<Rightarrow> (p, Inr lease_id)
          | None \<Rightarrow> allocate_lease_id p)
      in case lease of
           Inl error \<Rightarrow> Some (p, ErrorOutcome error)
         | Inr lease_id \<Rightarrow>
             (case segment p of
                None \<Rightarrow> None
              | Some s \<Rightarrow> do {
                  (s, outcome) \<leftarrow> seg_acquire_source s op_id route_token lease_id;
                  Some (p\<lparr>segment := Some s\<rparr>, outcome) }))"

definition release_source ::
  "owner_pool \<Rightarrow> owner_transfer_op_id \<Rightarrow> owner_lease_id \<Rightarrow> owner_transfer_outcome \<Rightarrow>
   (owner_pool \<times> owner_segment_transfer_outcome) option" where
  "release_source p op_id lease_id outcome =
     (case segment p of
        None \<Rightarrow> Some (p, error_outcome Busy)
      | Some s \<Rightarrow> do {
          let allocations_before = length (allocations s);
          (s, result) \<leftarrow> seg_release_source s op_id lease_id outcome;
          n \<leftarrow> (if length (allocations s) < allocations_before
                then checked_sub (committed_slots p) 1 else Some (committed_slots p));
          Some (p\<lparr>segment := Some s, committed_slots := n\<rparr>, result) })"

section \<open>Target leases\<close>

definition pool_release_prepared_slot ::
  "owner_pool \<Rightarrow> u64 \<Rightarrow> u64 \<Rightarrow> u64 \<Rightarrow> (owner_pool \<times> bool) option" where
  "pool_release_prepared_slot p allocation_id segment_offset capacity_bytes =
     (case segment p of
        None \<Rightarrow> Some (p, False)
      | Some s \<Rightarrow>
          if \<not> identity_matches s allocation_id segment_offset capacity_bytes then Some (p, False)
          else do {
            s \<leftarrow> seg_release_prepared_slot s allocation_id;
            n \<leftarrow> checked_sub (prepared_slots p) 1;
            Some (p\<lparr>segment := Some s, prepared_slots := n\<rparr>, True) })"

text \<open>The answer to a replay of a preparation, by the state the lease has reached.\<close>

definition prepared_replay :: "owner_target_lease_record \<Rightarrow> owner_segment_transfer_outcome" where
  "prepared_replay r =
     (case tl_state r of
        TargetPreparedState \<Rightarrow> TargetPrepared (tl_lease_id r) (tl_slot r) PreparedView
      | TargetDataReadyState _ \<Rightarrow> TargetDataReady (tl_lease_id r) (tl_slot r)
      | TargetRoutePendingState _ _ \<Rightarrow> TargetCommitPending (tl_lease_id r) (tl_slot r)
      | TargetCommittedState route_epoch \<Rightarrow> TargetCommitted (tl_lease_id r) (tl_slot r) route_epoch
      | TargetAbortedState _ \<Rightarrow> TargetAborted)"

fun disposition_scope :: "owner_target_disposition \<Rightarrow> owner_slot_scope option" where
  "disposition_scope LocalExclusive = Some LocalExclusiveScope"
| "disposition_scope GlobalShared = Some GlobalSharedScope"
| "disposition_scope _ = None"

definition global_budget_full :: "owner_pool \<Rightarrow> owner_segment_state \<Rightarrow> u64 \<Rightarrow> bool" where
  "global_budget_full p s slot_size =
     (case checked_add u64_bound (seg_global_accounted_bytes s) slot_size of
        None \<Rightarrow> True
      | Some next \<Rightarrow> seg_len s - local_target_bytes p < next)"

definition insert_target_lease ::
  "owner_segment_state \<Rightarrow> owner_transfer_op_id \<Rightarrow> owner_target_lease_record \<Rightarrow> owner_segment_state" where
  "insert_target_lease s op_id r = s\<lparr>target_leases := (target_leases s)(op_id \<mapsto> r)\<rparr>"

text \<open>The second half of \<open>prepare_target\<close>: the claimed slot gets a lease and a manifest entry, or is
  given back.\<close>

definition lease_claimed_target ::
  "owner_pool \<Rightarrow> owner_transfer_op_id \<Rightarrow> string \<Rightarrow> put_id_for_a_key \<Rightarrow> u64 \<Rightarrow>
   owner_target_disposition \<Rightarrow> put_atomic_group option \<Rightarrow> owner_slot_desc \<Rightarrow>
   (owner_pool \<times> owner_segment_transfer_outcome) option" where
  "lease_claimed_target p op_id key put_id len disposition atomic_batch slot =
     (case allocate_lease_id p of
        (p, Inl error) \<Rightarrow> do {
          (p, released) \<leftarrow> pool_release_prepared_slot p (slot_allocation_id slot)
             (slot_segment_offset slot) (slot_capacity_bytes slot);
          assert_or_panic released;
          Some (p, ErrorOutcome error) }
      | (p, Inr lease_id) \<Rightarrow> do {
          s \<leftarrow> segment p;
          (case install_manifest_entry s
                 \<lparr>me_key = key, me_put_id = put_id, me_slot = slot,
                  me_scope = disposition_scope disposition, me_disposition = disposition,
                  me_route_epoch = 0, me_physical_state = ReservedPhysical\<rparr> of
             (s, Inl error) \<Rightarrow> do {
               s \<leftarrow> seg_release_prepared_slot s (slot_allocation_id slot);
               n \<leftarrow> checked_sub (prepared_slots p) 1;
               Some (p\<lparr>segment := Some s, prepared_slots := n\<rparr>, ErrorOutcome error) }
           | (s, Inr _) \<Rightarrow>
               Some (p\<lparr>segment := Some (insert_target_lease s op_id
                        \<lparr>tl_lease_id = lease_id, tl_key = key, tl_put_id = put_id,
                         tl_len = len, tl_disposition = disposition,
                         tl_atomic_batch = atomic_batch, tl_slot = slot,
                         tl_state = TargetPreparedState\<rparr>)\<rparr>,
                     TargetPrepared lease_id slot PreparedView)) })"

definition prepare_target ::
  "owner_pool \<Rightarrow> owner_transfer_op_id \<Rightarrow> owner_generation \<Rightarrow> string \<Rightarrow> put_id_for_a_key \<Rightarrow> u64 \<Rightarrow>
   owner_target_disposition \<Rightarrow> put_atomic_group option \<Rightarrow>
   (owner_pool \<times> owner_segment_transfer_outcome) option" where
  "prepare_target p op_id expected_target key put_id len disposition atomic_batch =
     (case segment p of
        None \<Rightarrow> Some (p, error_outcome Busy)
      | Some s \<Rightarrow>
          if expected_target \<noteq> seg_owner s then Some (p, error_outcome StaleGeneration)
          else (case target_leases s op_id of
            Some existing \<Rightarrow>
              if tl_key existing \<noteq> key \<or> tl_put_id existing \<noteq> put_id \<or> tl_len existing \<noteq> len \<or>
                 tl_disposition existing \<noteq> disposition \<or> tl_atomic_batch existing \<noteq> atomic_batch
              then Some (p, error_outcome Conflict)
              else Some (p, prepared_replay existing)
          | None \<Rightarrow>
              if \<not> owner_transfer_op_id_is_initialized op_id \<or> key = [] \<or> len = 0
              then Some (p, error_outcome InvalidArgument)
              else if seg_manifest_entry s key put_id \<noteq> None then Some (p, error_outcome Conflict)
              else (case owner_segment_allocation_capacity_bytes len of
                None \<Rightarrow> Some (p, error_outcome InvalidArgument)
              | Some slot_size \<Rightarrow>
                  if disposition = GlobalShared \<and> global_budget_full p s slot_size
                  then Some (p, error_outcome NoSpace)
                  else do {
                    (p, slots) \<leftarrow> claim_available_with_len p slot_size len 1;
                    (case slots of
                       [] \<Rightarrow> Some (p, error_outcome NoSpace)
                     | _ \<Rightarrow> lease_claimed_target p op_id key put_id len disposition atomic_batch (last slots)) })))"

definition prepare_claimed_get_target ::
  "owner_pool \<Rightarrow> owner_transfer_op_id \<Rightarrow> string \<Rightarrow> put_id_for_a_key \<Rightarrow> put_atomic_group option \<Rightarrow>
   owner_slot_desc \<Rightarrow> (owner_pool \<times> owner_segment_transfer_outcome) option" where
  "prepare_claimed_get_target p op_id key put_id atomic_batch slot =
     (case segment p of
        None \<Rightarrow> Some (p, error_outcome Busy)
      | Some s \<Rightarrow>
          (case target_leases s op_id of
            Some existing \<Rightarrow>
              if tl_key existing \<noteq> key \<or> tl_put_id existing \<noteq> put_id \<or> tl_len existing \<noteq> slot_len slot \<or>
                 tl_disposition existing \<noteq> LocalExclusive \<or> tl_atomic_batch existing \<noteq> atomic_batch \<or>
                 tl_slot existing \<noteq> slot
              then Some (p, error_outcome Conflict)
              else Some (p, prepared_replay existing)
          | None \<Rightarrow>
              if \<not> owner_transfer_op_id_is_initialized op_id \<or> op_kind op_id \<noteq> GetOp \<or> key = [] \<or>
                 \<not> slot_is_valid slot \<or> slot_owner slot \<noteq> seg_owner s \<or> slot_len slot = 0 \<or>
                 \<not> identity_matches_desc s slot \<or>
                 \<not> (case seg_allocation s (slot_allocation_id slot) of
                       None \<Rightarrow> False | Some r \<Rightarrow> os_state r = Prepared)
              then Some (p, error_outcome InvalidArgument)
              else
                let key_generation_conflict = (seg_manifest_entry s key put_id \<noteq> None);
                    allocation_identity_conflict =
                      (manifest_key_by_allocation s (slot_allocation_id slot) \<noteq> None)
                in if key_generation_conflict \<and> \<not> allocation_identity_conflict
                   then Some (p, error_outcome StalePlan)
                   else if allocation_identity_conflict then Some (p, error_outcome Conflict)
                   else (case allocate_lease_id p of
                     (p, Inl error) \<Rightarrow> Some (p, ErrorOutcome error)
                   | (p, Inr lease_id) \<Rightarrow> do {
                       s \<leftarrow> segment p;
                       (case install_manifest_entry s
                              \<lparr>me_key = key, me_put_id = put_id, me_slot = slot,
                               me_scope = Some LocalExclusiveScope, me_disposition = LocalExclusive,
                               me_route_epoch = 0, me_physical_state = ReservedPhysical\<rparr> of
                          (s, Inl error) \<Rightarrow> Some (p\<lparr>segment := Some s\<rparr>, ErrorOutcome error)
                        | (s, Inr _) \<Rightarrow>
                            Some (p\<lparr>segment := Some (insert_target_lease s op_id
                                     \<lparr>tl_lease_id = lease_id, tl_key = key, tl_put_id = put_id,
                                      tl_len = slot_len slot, tl_disposition = LocalExclusive,
                                      tl_atomic_batch = atomic_batch, tl_slot = slot,
                                      tl_state = TargetPreparedState\<rparr>)\<rparr>,
                                  TargetPrepared lease_id slot PreparedView)) })))"

definition receipt_proves ::
  "owner_transfer_receipt \<Rightarrow> owner_target_lease_record \<Rightarrow> bool" where
  "receipt_proves receipt existing \<longleftrightarrow>
     rcpt_completion_id receipt \<noteq> 0 \<and> rcpt_bytes receipt = tl_len existing \<and>
     rcpt_target receipt = tl_slot existing \<and>
     rcpt_target_registration_epoch receipt = slot_registration_epoch (tl_slot existing)"

definition set_target_state ::
  "owner_segment_state \<Rightarrow> owner_transfer_op_id \<Rightarrow> owner_target_lease_state \<Rightarrow> owner_segment_state option" where
  "set_target_state s op_id st =
     (case target_leases s op_id of
        None \<Rightarrow> None
      | Some r \<Rightarrow> Some (s\<lparr>target_leases := (target_leases s)(op_id \<mapsto> r\<lparr>tl_state := st\<rparr>)\<rparr>))"

definition mark_target_data_ready ::
  "owner_pool \<Rightarrow> owner_transfer_op_id \<Rightarrow> owner_lease_id \<Rightarrow> owner_transfer_receipt \<Rightarrow>
   (owner_pool \<times> owner_segment_transfer_outcome) option" where
  "mark_target_data_ready p op_id lease_id receipt =
     (case segment p of
        None \<Rightarrow> Some (p, error_outcome Busy)
      | Some s \<Rightarrow>
          (case target_leases s op_id of
             None \<Rightarrow> Some (p, error_outcome NotFound)
           | Some existing \<Rightarrow>
               if tl_lease_id existing \<noteq> lease_id then Some (p, error_outcome Conflict)
               else (case tl_state existing of
                 TargetDataReadyState previous_receipt \<Rightarrow>
                   if previous_receipt \<noteq> receipt then Some (p, error_outcome Conflict)
                   else Some (p, TargetDataReady (tl_lease_id existing) (tl_slot existing))
               | TargetCommittedState route_epoch \<Rightarrow>
                   Some (p, TargetCommitted (tl_lease_id existing) (tl_slot existing) route_epoch)
               | TargetRoutePendingState _ _ \<Rightarrow>
                   Some (p, TargetCommitPending (tl_lease_id existing) (tl_slot existing))
               | TargetAbortedState _ \<Rightarrow> Some (p, TargetAborted)
               | TargetPreparedState \<Rightarrow>
                   if \<not> receipt_proves receipt existing then Some (p, error_outcome InvalidArgument)
                   else do {
                     s \<leftarrow> set_target_state s op_id (TargetDataReadyState receipt);
                     s \<leftarrow> update_manifest_by_allocation s (slot_allocation_id (tl_slot existing))
                            (\<lambda>e. e\<lparr>me_physical_state := DataReadyPhysical\<rparr>);
                     Some (p\<lparr>segment := Some s\<rparr>, TargetDataReady (tl_lease_id existing) (tl_slot existing)) })))"

definition persistent :: "owner_target_disposition \<Rightarrow> bool" where
  "persistent d \<longleftrightarrow> d = LocalExclusive \<or> d = GlobalShared"

text \<open>The check of the route token in \<open>begin_target_commit\<close>, as the error it answers.\<close>

definition route_token_error ::
  "owner_transfer_op_id \<Rightarrow> owner_target_lease_record \<Rightarrow> owner_target_route_token option \<Rightarrow>
   owner_transfer_error_code option" where
  "route_token_error op_id existing route_token =
     (if persistent (tl_disposition existing)
      then (case route_token of
              None \<Rightarrow> Some InvalidArgument
            | Some token \<Rightarrow>
                if tgt_operation token \<noteq> op_id \<or> tgt_key token \<noteq> tl_key existing \<or>
                   tgt_put_id token \<noteq> tl_put_id existing \<or>
                   tgt_target_owner token \<noteq> slot_owner (tl_slot existing) \<or>
                   tgt_atomic_batch token \<noteq> tl_atomic_batch existing \<or> tgt_plan_nonce token = 0
                then Some Conflict else None)
      else if route_token \<noteq> None then Some InvalidArgument else None)"

definition begin_target_commit ::
  "owner_pool \<Rightarrow> owner_transfer_op_id \<Rightarrow> owner_lease_id \<Rightarrow> owner_transfer_receipt \<Rightarrow>
   owner_target_route_token option \<Rightarrow> (owner_pool \<times> owner_segment_transfer_outcome) option" where
  "begin_target_commit p op_id lease_id receipt route_token =
     (case segment p of
        None \<Rightarrow> Some (p, error_outcome Busy)
      | Some s \<Rightarrow>
          (case target_leases s op_id of
             None \<Rightarrow> Some (p, error_outcome NotFound)
           | Some existing \<Rightarrow>
               if tl_lease_id existing \<noteq> lease_id then Some (p, error_outcome Conflict)
               else (case tl_state existing of
                 TargetCommittedState route_epoch \<Rightarrow>
                   Some (p, TargetCommitted (tl_lease_id existing) (tl_slot existing) route_epoch)
               | TargetAbortedState _ \<Rightarrow> Some (p, TargetAborted)
               | TargetRoutePendingState previous_receipt previous_token \<Rightarrow>
                   if previous_receipt \<noteq> receipt \<or> previous_token \<noteq> route_token
                   then Some (p, error_outcome Conflict)
                   else Some (p, TargetCommitPending (tl_lease_id existing) (tl_slot existing))
               | _ \<Rightarrow>
                   if \<not> receipt_proves receipt existing then Some (p, error_outcome InvalidArgument)
                   else (case route_token_error op_id existing route_token of
                     Some code \<Rightarrow> Some (p, error_outcome code)
                   | None \<Rightarrow> do {
                       s \<leftarrow> set_target_state s op_id (TargetRoutePendingState receipt route_token);
                       s \<leftarrow> update_manifest_by_allocation s (slot_allocation_id (tl_slot existing))
                              (\<lambda>e. e\<lparr>me_physical_state := RoutePendingPhysical\<rparr>);
                       Some (p\<lparr>segment := Some s\<rparr>,
                             TargetCommitPending (tl_lease_id existing) (tl_slot existing)) }))))"

definition finish_target_commit ::
  "owner_pool \<Rightarrow> owner_transfer_op_id \<Rightarrow> owner_lease_id \<Rightarrow> u64 \<Rightarrow>
   (owner_pool \<times> owner_segment_transfer_outcome) option" where
  "finish_target_commit p op_id lease_id route_epoch =
     (case segment p of
        None \<Rightarrow> Some (p, error_outcome Busy)
      | Some s \<Rightarrow>
          (case target_leases s op_id of
             None \<Rightarrow> Some (p, error_outcome NotFound)
           | Some existing \<Rightarrow>
               if tl_lease_id existing \<noteq> lease_id then Some (p, error_outcome Conflict)
               else (case tl_state existing of
                 TargetCommittedState previous_epoch \<Rightarrow>
                   if previous_epoch \<noteq> route_epoch then Some (p, error_outcome Conflict)
                   else Some (p, TargetCommitted (tl_lease_id existing) (tl_slot existing) route_epoch)
               | TargetRoutePendingState _ _ \<Rightarrow>
                   if persistent (tl_disposition existing) \<noteq> (route_epoch \<noteq> 0)
                   then Some (p, error_outcome InvalidArgument)
                   else do {
                     let allocation_id = slot_allocation_id (tl_slot existing);
                     r \<leftarrow> seg_allocation s allocation_id;
                     if os_state r \<noteq> Prepared then Some (p, error_outcome Conflict)
                     else do {
                       let s = set_allocation s allocation_id
                                 (r\<lparr>os_state := Committed (persistent (tl_disposition existing))
                                                (if persistent (tl_disposition existing) then 0 else 1)\<rparr>);
                       s \<leftarrow> update_manifest_by_allocation s allocation_id
                              (\<lambda>e. e\<lparr>me_physical_state := CommittedPhysical, me_route_epoch := route_epoch\<rparr>);
                       s \<leftarrow> set_target_state s op_id (TargetCommittedState route_epoch);
                       n \<leftarrow> checked_sub (prepared_slots p) 1;
                       c \<leftarrow> checked_add u64_bound (committed_slots p) 1;
                       Some (p\<lparr>segment := Some s, prepared_slots := n, committed_slots := c\<rparr>,
                             TargetCommitted (tl_lease_id existing) (tl_slot existing) route_epoch) } }
               | _ \<Rightarrow> Some (p, error_outcome Busy))))"

fun is_pending_local_visible :: "owner_slot_state \<Rightarrow> bool" where
  "is_pending_local_visible (PendingLocalVisible _) = True"
| "is_pending_local_visible _ = False"

definition slot_is_pending :: "owner_segment_state \<Rightarrow> u64 \<Rightarrow> bool" where
  "slot_is_pending s allocation_id =
     (case seg_allocation s allocation_id of None \<Rightarrow> False | Some r \<Rightarrow> is_pending_local_visible (os_state r))"

definition begin_data_ready_get_target_commit ::
  "owner_pool \<Rightarrow> owner_target_write_capability \<Rightarrow> (owner_pool \<times> owner_segment_transfer_outcome) option" where
  "begin_data_ready_get_target_commit p capability =
     (case segment p of
        None \<Rightarrow> Some (p, error_outcome Busy)
      | Some s \<Rightarrow>
          (case target_leases s (wc_operation capability) of
             None \<Rightarrow> Some (p, error_outcome NotFound)
           | Some existing \<Rightarrow>
               if op_kind (wc_operation capability) \<noteq> GetOp \<or> tl_lease_id existing \<noteq> wc_lease_id capability \<or>
                  tl_slot existing \<noteq> wc_slot capability
               then Some (p, error_outcome Conflict)
               else (case tl_state existing of
                 TargetCommittedState route_epoch \<Rightarrow>
                   Some (p, TargetCommitted (tl_lease_id existing) (tl_slot existing) route_epoch)
               | TargetRoutePendingState _ route_token \<Rightarrow>
                   if route_token \<noteq> None then Some (p, error_outcome Conflict)
                   else Some (p, TargetCommitPending (tl_lease_id existing) (tl_slot existing))
               | TargetAbortedState _ \<Rightarrow> Some (p, TargetAborted)
               | TargetPreparedState \<Rightarrow> Some (p, error_outcome RouteCommitRequired)
               | TargetDataReadyState receipt \<Rightarrow>
                   if \<not> slot_is_pending s (slot_allocation_id (tl_slot existing))
                   then Some (p, error_outcome Conflict)
                   else do {
                     s \<leftarrow> set_target_state s (wc_operation capability) (TargetRoutePendingState receipt None);
                     s \<leftarrow> update_manifest_by_allocation s (slot_allocation_id (tl_slot existing))
                            (\<lambda>e. e\<lparr>me_physical_state := RoutePendingPhysical\<rparr>);
                     Some (p\<lparr>segment := Some s\<rparr>,
                           TargetCommitPending (tl_lease_id existing) (tl_slot existing)) })))"

text \<open>A get target that is not published: data ready, or route pending without a put's token.\<close>

fun unpublished_get :: "owner_target_lease_state \<Rightarrow> bool" where
  "unpublished_get (TargetDataReadyState _) = True"
| "unpublished_get (TargetRoutePendingState _ None) = True"
| "unpublished_get _ = False"

definition finish_data_ready_get_target ::
  "owner_pool \<Rightarrow> owner_transfer_op_id \<Rightarrow> owner_lease_id \<Rightarrow> u64 \<Rightarrow>
   (owner_pool \<times> owner_segment_transfer_outcome) option" where
  "finish_data_ready_get_target p op_id lease_id route_epoch =
     (case segment p of
        None \<Rightarrow> Some (p, error_outcome Busy)
      | Some s \<Rightarrow>
          (case target_leases s op_id of
             None \<Rightarrow> Some (p, error_outcome NotFound)
           | Some existing \<Rightarrow>
               if tl_lease_id existing \<noteq> lease_id \<or> op_kind op_id \<noteq> GetOp then Some (p, error_outcome Conflict)
               else (case tl_state existing of
                 TargetCommittedState previous_epoch \<Rightarrow>
                   if previous_epoch \<noteq> route_epoch then Some (p, error_outcome Conflict)
                   else Some (p, TargetCommitted (tl_lease_id existing) (tl_slot existing) route_epoch)
               | st \<Rightarrow>
                   if route_epoch = 0 \<or> \<not> unpublished_get st then Some (p, error_outcome RouteCommitRequired)
                   else let allocation_id = slot_allocation_id (tl_slot existing) in
                     if \<not> slot_is_pending s allocation_id then Some (p, error_outcome Conflict)
                     else do {
                       s \<leftarrow> seg_promote_pending_visible_slot_to_committed s allocation_id;
                       s \<leftarrow> update_manifest_by_allocation s allocation_id
                              (\<lambda>e. e\<lparr>me_physical_state := CommittedPhysical, me_route_epoch := route_epoch\<rparr>);
                       s \<leftarrow> set_target_state s op_id (TargetCommittedState route_epoch);
                       n \<leftarrow> checked_sub (pending_visible_slots p) 1;
                       c \<leftarrow> checked_add u64_bound (committed_slots p) 1;
                       Some (p\<lparr>segment := Some s, pending_visible_slots := n, committed_slots := c\<rparr>,
                             TargetCommitted (tl_lease_id existing) (tl_slot existing) route_epoch) })))"

definition abort_data_ready_visible_get_target ::
  "owner_pool \<Rightarrow> owner_transfer_op_id \<Rightarrow> owner_lease_id \<Rightarrow> string \<Rightarrow>
   (owner_pool \<times> owner_segment_transfer_outcome) option" where
  "abort_data_ready_visible_get_target p op_id lease_id reason =
     (case segment p of
        None \<Rightarrow> Some (p, error_outcome Busy)
      | Some s \<Rightarrow>
          (case target_leases s op_id of
             None \<Rightarrow> Some (p, error_outcome NotFound)
           | Some existing \<Rightarrow>
               if tl_lease_id existing \<noteq> lease_id then Some (p, error_outcome Conflict)
               else (case tl_state existing of
                 TargetAbortedState _ \<Rightarrow> Some (p, TargetAborted)
               | st \<Rightarrow>
                   if op_kind op_id \<noteq> GetOp \<or> \<not> unpublished_get st then Some (p, error_outcome Conflict)
                   else let allocation_id = slot_allocation_id (tl_slot existing) in
                     if \<not> slot_is_pending s allocation_id then Some (p, error_outcome Conflict)
                     else do {
                       s \<leftarrow> set_target_state s op_id (TargetAbortedState reason);
                       s \<leftarrow> update_manifest_by_allocation s allocation_id
                              (\<lambda>e. e\<lparr>me_physical_state := ReclaimingPhysical\<rparr>);
                       Some (p\<lparr>segment := Some s\<rparr>, TargetAborted) })))"

text \<open>The common end of both aborts of a prepared slot.\<close>

definition abort_prepared ::
  "owner_pool \<Rightarrow> owner_segment_state \<Rightarrow> owner_transfer_op_id \<Rightarrow> u64 \<Rightarrow> string \<Rightarrow>
   (owner_pool \<times> owner_segment_transfer_outcome) option" where
  "abort_prepared p s op_id allocation_id reason =
     do { s \<leftarrow> set_target_state s op_id (TargetAbortedState reason);
          s \<leftarrow> seg_release_prepared_slot s allocation_id;
          n \<leftarrow> checked_sub (prepared_slots p) 1;
          Some (p\<lparr>segment := Some s, prepared_slots := n\<rparr>, TargetAborted) }"

definition abort_target ::
  "owner_pool \<Rightarrow> owner_transfer_op_id \<Rightarrow> owner_lease_id \<Rightarrow> string \<Rightarrow>
   (owner_pool \<times> owner_segment_transfer_outcome) option" where
  "abort_target p op_id lease_id reason =
     (case segment p of
        None \<Rightarrow> Some (p, error_outcome Busy)
      | Some s \<Rightarrow>
          (case target_leases s op_id of
             None \<Rightarrow> Some (p, error_outcome NotFound)
           | Some existing \<Rightarrow>
               if tl_lease_id existing \<noteq> lease_id then Some (p, error_outcome Conflict)
               else (case tl_state existing of
                 TargetAbortedState _ \<Rightarrow> Some (p, TargetAborted)
               | TargetCommittedState _ \<Rightarrow> Some (p, error_outcome Conflict)
               | TargetRoutePendingState _ _ \<Rightarrow> Some (p, error_outcome RouteCommitRequired)
               | _ \<Rightarrow> abort_prepared p s op_id (slot_allocation_id (tl_slot existing)) reason)))"

definition abort_route_rejected_target ::
  "owner_pool \<Rightarrow> owner_transfer_op_id \<Rightarrow> owner_lease_id \<Rightarrow> string \<Rightarrow>
   (owner_pool \<times> owner_segment_transfer_outcome) option" where
  "abort_route_rejected_target p op_id lease_id reason =
     (case segment p of
        None \<Rightarrow> Some (p, error_outcome Busy)
      | Some s \<Rightarrow>
          (case target_leases s op_id of
             None \<Rightarrow> Some (p, error_outcome NotFound)
           | Some existing \<Rightarrow>
               if tl_lease_id existing \<noteq> lease_id then Some (p, error_outcome Conflict)
               else (case tl_state existing of
                 TargetAbortedState _ \<Rightarrow> Some (p, TargetAborted)
               | TargetRoutePendingState _ _ \<Rightarrow>
                   abort_prepared p s op_id (slot_allocation_id (tl_slot existing)) reason
               | _ \<Rightarrow> Some (p, error_outcome Conflict))))"

section \<open>Committed manifests and scopes\<close>

fun scope_disposition :: "owner_slot_scope \<Rightarrow> owner_target_disposition" where
  "scope_disposition LocalExclusiveScope = LocalExclusive"
| "scope_disposition GlobalSharedScope = GlobalShared"

definition install_committed_manifest ::
  "owner_pool \<Rightarrow> string \<Rightarrow> put_id_for_a_key \<Rightarrow> u64 \<Rightarrow> owner_slot_scope \<Rightarrow> u64 \<Rightarrow>
   owner_pool \<times> (owner_transfer_item_error + owner_slot_desc)" where
  "install_committed_manifest p key put_id allocation_id scope route_epoch =
     (case segment p of
        None \<Rightarrow> (p, Inl \<lparr>err_code = Busy\<rparr>)
      | Some s \<Rightarrow>
          (case slot_desc s allocation_id of
             None \<Rightarrow> (p, Inl \<lparr>err_code = NotFound\<rparr>)
           | Some slot \<Rightarrow>
               (case map_option os_state (seg_allocation s allocation_id) of
                  Some (Committed True _) \<Rightarrow>
                    (case install_manifest_entry s
                            \<lparr>me_key = key, me_put_id = put_id, me_slot = slot, me_scope = Some scope,
                             me_disposition = scope_disposition scope, me_route_epoch = route_epoch,
                             me_physical_state = CommittedPhysical\<rparr> of
                       (s, Inl error) \<Rightarrow> (p\<lparr>segment := Some s\<rparr>, Inl error)
                     | (s, Inr _) \<Rightarrow> (p\<lparr>segment := Some s\<rparr>, Inr slot))
                | _ \<Rightarrow> (p, Inl \<lparr>err_code = Conflict\<rparr>))))"

definition pool_manifest_entry ::
  "owner_pool \<Rightarrow> string \<Rightarrow> put_id_for_a_key \<Rightarrow> owner_slot_manifest_entry option" where
  "pool_manifest_entry p key put_id =
     (case segment p of None \<Rightarrow> None | Some s \<Rightarrow> seg_manifest_entry s key put_id)"

definition update_committed_manifest_scope_inner ::
  "owner_pool \<Rightarrow> string \<Rightarrow> put_id_for_a_key \<Rightarrow> u64 \<Rightarrow> u64 \<Rightarrow> u64 \<Rightarrow> owner_slot_scope \<Rightarrow> bool \<Rightarrow>
   owner_pool \<times> (owner_transfer_item_error + unit)" where
  "update_committed_manifest_scope_inner p key put_id allocation_id segment_offset capacity_bytes scope
     allow_unreserved_global =
     (case segment p of
        None \<Rightarrow> (p, Inl \<lparr>err_code = Busy\<rparr>)
      | Some s \<Rightarrow>
          (case manifest_by_key s (manifest_key key put_id) of
             None \<Rightarrow> (p, Inl \<lparr>err_code = NotFound\<rparr>)
           | Some manifest \<Rightarrow>
               if slot_allocation_id (me_slot manifest) \<noteq> allocation_id \<or>
                  slot_segment_offset (me_slot manifest) \<noteq> segment_offset \<or>
                  slot_capacity_bytes (me_slot manifest) \<noteq> capacity_bytes \<or>
                  me_physical_state manifest \<noteq> CommittedPhysical
               then (p, Inl \<lparr>err_code = Conflict\<rparr>)
               else if scope = GlobalSharedScope \<and> me_scope manifest \<noteq> Some GlobalSharedScope \<and>
                       \<not> allow_unreserved_global
               then (p, Inl \<lparr>err_code = Conflict\<rparr>)
               else (p\<lparr>segment := Some (s\<lparr>manifest_by_key := (manifest_by_key s)(manifest_key key put_id \<mapsto>
                        manifest\<lparr>me_scope := Some scope, me_disposition := scope_disposition scope\<rparr>)\<rparr>)\<rparr>,
                     Inr ())))"

definition update_committed_manifest_scope ::
  "owner_pool \<Rightarrow> string \<Rightarrow> put_id_for_a_key \<Rightarrow> u64 \<Rightarrow> u64 \<Rightarrow> u64 \<Rightarrow> owner_slot_scope \<Rightarrow>
   owner_pool \<times> (owner_transfer_item_error + unit)" where
  "update_committed_manifest_scope p key put_id allocation_id segment_offset capacity_bytes scope =
     update_committed_manifest_scope_inner p key put_id allocation_id segment_offset capacity_bytes scope False"

definition commit_legacy_a19_global_demotion ::
  "owner_pool \<Rightarrow> string \<Rightarrow> put_id_for_a_key \<Rightarrow> u64 \<Rightarrow> u64 \<Rightarrow> u64 \<Rightarrow>
   owner_pool \<times> (owner_transfer_item_error + unit)" where
  "commit_legacy_a19_global_demotion p key put_id allocation_id segment_offset capacity_bytes =
     update_committed_manifest_scope_inner p key put_id allocation_id segment_offset capacity_bytes
       GlobalSharedScope True"

section \<open>Reserving and committing demotions\<close>

type_synonym demotion_request = "string \<times> put_id_for_a_key \<times> u64 \<times> u64 \<times> u64"

fun reserve_each ::
  "owner_segment_state \<Rightarrow> u64 \<Rightarrow> u64 \<Rightarrow> demotion_request list \<Rightarrow>
   owner_segment_state \<times> (owner_transfer_item_error + bool) list" where
  "reserve_each s target accounted [] = (s, [])"
| "reserve_each s target accounted ((key, put_id, allocation_id, segment_offset, capacity_bytes) # rest) =
     (let (s, accounted, result) = seg_try_reserve_global_demotion s target key put_id allocation_id
                                     segment_offset capacity_bytes accounted;
          (s, results) = reserve_each s target accounted rest
      in (s, result # results))"

definition try_reserve_global_demotions ::
  "owner_pool \<Rightarrow> demotion_request list \<Rightarrow> owner_pool \<times> (owner_transfer_item_error + bool) list" where
  "try_reserve_global_demotions p requests =
     (case segment p of
        None \<Rightarrow> (p, map (\<lambda>_. Inl \<lparr>err_code = Busy\<rparr>) requests)
      | Some s \<Rightarrow>
          (let (s, results) = reserve_each s (local_target_bytes p) (seg_global_accounted_bytes s) requests
           in (p\<lparr>segment := Some s\<rparr>, results)))"

definition try_reserve_global_demotion ::
  "owner_pool \<Rightarrow> string \<Rightarrow> put_id_for_a_key \<Rightarrow> u64 \<Rightarrow> u64 \<Rightarrow> u64 \<Rightarrow>
   (owner_pool \<times> (owner_transfer_item_error + bool)) option" where
  "try_reserve_global_demotion p key put_id allocation_id segment_offset capacity_bytes =
     (let (p, results) = try_reserve_global_demotions p
            [(key, put_id, allocation_id, segment_offset, capacity_bytes)]
      in if results = [] then None else Some (p, last results))"

definition reservation_matches ::
  "owner_segment_state \<Rightarrow> owner_manifest_key \<Rightarrow> u64 \<Rightarrow> u64 \<Rightarrow> u64 \<Rightarrow> bool" where
  "reservation_matches s mk allocation_id segment_offset capacity_bytes =
     (case map_of (global_demotion_reservations s) mk of
        None \<Rightarrow> False
      | Some slot \<Rightarrow> slot_allocation_id slot = allocation_id \<and> slot_segment_offset slot = segment_offset \<and>
                     slot_capacity_bytes slot = capacity_bytes)"

definition release_global_demotion_reservation ::
  "owner_pool \<Rightarrow> string \<Rightarrow> put_id_for_a_key \<Rightarrow> u64 \<Rightarrow> u64 \<Rightarrow> u64 \<Rightarrow> owner_pool \<times> bool" where
  "release_global_demotion_reservation p key put_id allocation_id segment_offset capacity_bytes =
     (case segment p of
        None \<Rightarrow> (p, False)
      | Some s \<Rightarrow>
          if reservation_matches s (manifest_key key put_id) allocation_id segment_offset capacity_bytes
          then (p\<lparr>segment := Some (s\<lparr>global_demotion_reservations :=
                   AList.delete (manifest_key key put_id) (global_demotion_reservations s)\<rparr>)\<rparr>, True)
          else (p, False))"

definition validate_global_demotion_reservation ::
  "owner_pool \<Rightarrow> string \<Rightarrow> put_id_for_a_key \<Rightarrow> u64 \<Rightarrow> u64 \<Rightarrow> u64 \<Rightarrow> owner_transfer_item_error + unit" where
  "validate_global_demotion_reservation p key put_id allocation_id segment_offset capacity_bytes =
     (case segment p of
        None \<Rightarrow> Inl \<lparr>err_code = Busy\<rparr>
      | Some s \<Rightarrow>
          (case manifest_by_key s (manifest_key key put_id) of
             None \<Rightarrow> Inl \<lparr>err_code = NotFound\<rparr>
           | Some manifest \<Rightarrow>
               if slot_allocation_id (me_slot manifest) \<noteq> allocation_id \<or>
                  slot_segment_offset (me_slot manifest) \<noteq> segment_offset \<or>
                  slot_capacity_bytes (me_slot manifest) \<noteq> capacity_bytes \<or>
                  me_physical_state manifest \<noteq> CommittedPhysical
               then Inl \<lparr>err_code = Conflict\<rparr>
               else if me_scope manifest = Some GlobalSharedScope then Inr ()
               else if reservation_matches s (manifest_key key put_id) allocation_id segment_offset capacity_bytes
               then Inr ()
               else Inl \<lparr>err_code = NoSpace\<rparr>))"

definition commit_reserved_global_demotion ::
  "owner_pool \<Rightarrow> string \<Rightarrow> put_id_for_a_key \<Rightarrow> u64 \<Rightarrow> u64 \<Rightarrow> u64 \<Rightarrow>
   (owner_pool \<times> (owner_transfer_item_error + unit)) option" where
  "commit_reserved_global_demotion p key put_id allocation_id segment_offset capacity_bytes =
     (case validate_global_demotion_reservation p key put_id allocation_id segment_offset capacity_bytes of
        Inl error \<Rightarrow> Some (p, Inl error)
      | Inr _ \<Rightarrow> do {
          s \<leftarrow> segment p;
          let mk = manifest_key key put_id;
          manifest \<leftarrow> manifest_by_key s mk;
          let s = s\<lparr>manifest_by_key := (manifest_by_key s)(mk \<mapsto>
                      manifest\<lparr>me_scope := Some GlobalSharedScope, me_disposition := GlobalShared\<rparr>),
                    global_demotion_reservations := AList.delete mk (global_demotion_reservations s)\<rparr>;
          Some (p\<lparr>segment := Some s\<rparr>, Inr ()) })"

section \<open>Failed claims\<close>

definition record_failed_claim :: "owner_pool \<Rightarrow> u64 \<Rightarrow> owner_pool" where
  "record_failed_claim p slot_size =
     p\<lparr>failed_claim_slot_sizes := List.insert slot_size (failed_claim_slot_sizes p)\<rparr>"

definition record_successful_claim :: "owner_pool \<Rightarrow> u64 \<Rightarrow> owner_pool" where
  "record_successful_claim p slot_size =
     p\<lparr>claim_progress_epoch := saturating_add u64_bound (claim_progress_epoch p) 1,
       failed_claim_slot_sizes := removeAll slot_size (failed_claim_slot_sizes p)\<rparr>"

definition slot_size_has_failed_claim :: "owner_pool \<Rightarrow> u64 \<Rightarrow> bool" where
  "slot_size_has_failed_claim p slot_size \<longleftrightarrow> slot_size \<in> set (failed_claim_slot_sizes p)"

definition clear_failed_claim :: "owner_pool \<Rightarrow> u64 \<Rightarrow> owner_pool" where
  "clear_failed_claim p slot_size =
     p\<lparr>failed_claim_slot_sizes := removeAll slot_size (failed_claim_slot_sizes p)\<rparr>"

section \<open>Slot transitions\<close>

definition committed_route_only_matches :: "owner_pool \<Rightarrow> u64 \<Rightarrow> u64 \<Rightarrow> u64 \<Rightarrow> bool" where
  "committed_route_only_matches p allocation_id segment_offset capacity_bytes =
     (case segment p of
        None \<Rightarrow> False
      | Some s \<Rightarrow> seg_committed_route_only_matches s allocation_id segment_offset capacity_bytes)"

definition retain_committed_route_only_holder ::
  "owner_pool \<Rightarrow> u64 \<Rightarrow> u64 \<Rightarrow> u64 \<Rightarrow> owner_pool \<times> bool" where
  "retain_committed_route_only_holder p allocation_id segment_offset capacity_bytes =
     (case segment p of
        None \<Rightarrow> (p, False)
      | Some s \<Rightarrow>
          if \<not> identity_matches s allocation_id segment_offset capacity_bytes then (p, False)
          else let (s, b) = seg_retain_committed_route_only_holder s allocation_id
               in (p\<lparr>segment := Some s\<rparr>, b))"

definition mark_prepared_slot_pending_visible ::
  "owner_pool \<Rightarrow> u64 \<Rightarrow> u64 \<Rightarrow> u64 \<Rightarrow> (owner_pool \<times> bool) option" where
  "mark_prepared_slot_pending_visible p allocation_id segment_offset capacity_bytes =
     (case segment p of
        None \<Rightarrow> Some (p, False)
      | Some s \<Rightarrow>
          if \<not> identity_matches s allocation_id segment_offset capacity_bytes then Some (p, False)
          else do {
            s \<leftarrow> seg_mark_prepared_slot_pending_visible s allocation_id;
            n \<leftarrow> checked_sub (prepared_slots p) 1;
            v \<leftarrow> checked_add u64_bound (pending_visible_slots p) 1;
            Some (p\<lparr>segment := Some s, prepared_slots := n, pending_visible_slots := v\<rparr>, True) })"

fun is_target_data_ready :: "owner_target_lease_state \<Rightarrow> bool" where
  "is_target_data_ready (TargetDataReadyState _) = True"
| "is_target_data_ready _ = False"

definition mark_data_ready_get_target_pending_visible ::
  "owner_pool \<Rightarrow> owner_target_write_capability \<Rightarrow>
   (owner_pool \<times> (owner_transfer_item_error + unit)) option" where
  "mark_data_ready_get_target_pending_visible p capability =
     (case segment p of
        None \<Rightarrow> Some (p, Inl \<lparr>err_code = Busy\<rparr>)
      | Some s \<Rightarrow>
          (case target_leases s (wc_operation capability) of
             None \<Rightarrow> Some (p, Inl \<lparr>err_code = NotFound\<rparr>)
           | Some record \<Rightarrow>
               if tl_lease_id record \<noteq> wc_lease_id capability \<or> tl_slot record \<noteq> wc_slot capability \<or>
                  \<not> is_target_data_ready (tl_state record) \<or> \<not> identity_matches_desc s (wc_slot capability) \<or>
                  \<not> (case seg_allocation s (slot_allocation_id (wc_slot capability)) of
                        None \<Rightarrow> False | Some r \<Rightarrow> os_state r = Prepared)
               then Some (p, Inl \<lparr>err_code = Conflict\<rparr>)
               else do {
                 s \<leftarrow> seg_mark_prepared_slot_pending_visible s (slot_allocation_id (wc_slot capability));
                 n \<leftarrow> checked_sub (prepared_slots p) 1;
                 v \<leftarrow> checked_add u64_bound (pending_visible_slots p) 1;
                 Some (p\<lparr>segment := Some s, prepared_slots := n, pending_visible_slots := v\<rparr>, Inr ()) }))"

definition promote_pending_visible_slot_to_committed ::
  "owner_pool \<Rightarrow> u64 \<Rightarrow> u64 \<Rightarrow> u64 \<Rightarrow> (owner_pool \<times> bool) option" where
  "promote_pending_visible_slot_to_committed p allocation_id segment_offset capacity_bytes =
     (case segment p of
        None \<Rightarrow> Some (p, False)
      | Some s \<Rightarrow>
          if \<not> identity_matches s allocation_id segment_offset capacity_bytes then Some (p, False)
          else do {
            s \<leftarrow> seg_promote_pending_visible_slot_to_committed s allocation_id;
            v \<leftarrow> checked_sub (pending_visible_slots p) 1;
            c \<leftarrow> checked_add u64_bound (committed_slots p) 1;
            Some (p\<lparr>segment := Some s, pending_visible_slots := v, committed_slots := c\<rparr>, True) })"

definition retain_resident_slot_holder ::
  "owner_pool \<Rightarrow> u64 \<Rightarrow> u64 \<Rightarrow> u64 \<Rightarrow> (owner_pool \<times> bool) option" where
  "retain_resident_slot_holder p allocation_id segment_offset capacity_bytes =
     (case segment p of
        None \<Rightarrow> Some (p, False)
      | Some s \<Rightarrow>
          if \<not> identity_matches s allocation_id segment_offset capacity_bytes then Some (p, False)
          else do {
            s \<leftarrow> seg_retain_resident_slot_holder s allocation_id;
            Some (p\<lparr>segment := Some s\<rparr>, True) })"

definition release_resident_slot_holder ::
  "owner_pool \<Rightarrow> u64 \<Rightarrow> u64 \<Rightarrow> u64 \<Rightarrow> (owner_pool \<times> bool) option" where
  "release_resident_slot_holder p allocation_id segment_offset capacity_bytes =
     (case segment p of
        None \<Rightarrow> Some (p, False)
      | Some s \<Rightarrow>
          if \<not> identity_matches s allocation_id segment_offset capacity_bytes then Some (p, False)
          else do {
            prior \<leftarrow> map_option os_state (seg_allocation s allocation_id);
            s \<leftarrow> seg_release_resident_slot_holder s allocation_id;
            let p = p\<lparr>segment := Some s\<rparr>;
            if seg_allocation s allocation_id = None
            then (case prior of
                    PendingLocalVisible _ \<Rightarrow> do {
                      v \<leftarrow> checked_sub (pending_visible_slots p) 1;
                      Some (p\<lparr>pending_visible_slots := v\<rparr>, True) }
                  | Committed _ _ \<Rightarrow> do {
                      c \<leftarrow> checked_sub (committed_slots p) 1;
                      Some (p\<lparr>committed_slots := c\<rparr>, True) }
                  | Prepared \<Rightarrow> None)
            else Some (p, True) })"

text \<open>Counting a committed slot out when the release freed it.\<close>

definition count_freed_committed ::
  "owner_pool \<Rightarrow> owner_segment_state \<Rightarrow> u64 \<Rightarrow> (owner_pool \<times> bool) option" where
  "count_freed_committed p s allocation_id =
     do { c \<leftarrow> (if seg_allocation s allocation_id = None
                then checked_sub (committed_slots p) 1 else Some (committed_slots p));
          Some (p\<lparr>segment := Some s, committed_slots := c\<rparr>, True) }"

definition release_committed_slot_route ::
  "owner_pool \<Rightarrow> u64 \<Rightarrow> u64 \<Rightarrow> u64 \<Rightarrow> (owner_pool \<times> bool) option" where
  "release_committed_slot_route p allocation_id segment_offset capacity_bytes =
     (case segment p of
        None \<Rightarrow> Some (p, False)
      | Some s \<Rightarrow>
          if \<not> identity_matches s allocation_id segment_offset capacity_bytes then Some (p, False)
          else do {
            s \<leftarrow> seg_release_committed_slot_route s allocation_id;
            count_freed_committed p s allocation_id })"

definition release_deleted_global_manifest_route ::
  "owner_pool \<Rightarrow> string \<Rightarrow> put_id_for_a_key \<Rightarrow> (owner_pool \<times> owner_slot_desc option) option" where
  "release_deleted_global_manifest_route p key put_id =
     (case segment p of
        None \<Rightarrow> Some (p, None)
      | Some s \<Rightarrow>
          (case seg_manifest_entry s key put_id of
             None \<Rightarrow> Some (p, None)
           | Some manifest \<Rightarrow>
               if me_scope manifest \<noteq> Some GlobalSharedScope \<or> me_physical_state manifest \<noteq> CommittedPhysical
               then Some (p, None)
               else do {
                 let slot = me_slot manifest;
                 r \<leftarrow> seg_allocation s (slot_allocation_id slot);
                 assert_or_panic (case os_state r of Committed True _ \<Rightarrow> True | _ \<Rightarrow> False);
                 (p, released) \<leftarrow> release_committed_slot_route p (slot_allocation_id slot)
                    (slot_segment_offset slot) (slot_capacity_bytes slot);
                 assert_or_panic released;
                 Some (p, Some slot) }))"

definition release_committed_resident_slot ::
  "owner_pool \<Rightarrow> u64 \<Rightarrow> u64 \<Rightarrow> u64 \<Rightarrow> (owner_pool \<times> bool) option" where
  "release_committed_resident_slot p allocation_id segment_offset capacity_bytes =
     (case segment p of
        None \<Rightarrow> Some (p, False)
      | Some s \<Rightarrow>
          if \<not> identity_matches s allocation_id segment_offset capacity_bytes then Some (p, False)
          else do {
            s \<leftarrow> seg_release_committed_resident_slot s allocation_id;
            count_freed_committed p s allocation_id })"

section \<open>Counters and reports\<close>

definition physical_capacity_bytes :: "owner_pool \<Rightarrow> u64" where
  "physical_capacity_bytes p = (case segment p of None \<Rightarrow> 0 | Some s \<Rightarrow> seg_len s)"

definition physical_free_epoch :: "owner_pool \<Rightarrow> u64" where
  "physical_free_epoch p = (case segment p of None \<Rightarrow> 0 | Some s \<Rightarrow> seg_physical_free_epoch s)"

definition used_slot_count :: "owner_pool \<Rightarrow> usize" where
  "used_slot_count p = prepared_slots p + pending_visible_slots p + committed_slots p"

definition total_free_bytes :: "owner_pool \<Rightarrow> u64 option" where
  "total_free_bytes p = (case segment p of None \<Rightarrow> Some 0 | Some s \<Rightarrow> seg_total_free_bytes s)"

definition allocatable_report ::
  "owner_pool \<Rightarrow> u64 \<Rightarrow> (owner_pool \<times> owner_segment_allocatable_report) option" where
  "allocatable_report p slot_size =
     (case segment p of
        None \<Rightarrow> Some (p, report_default)
      | Some s \<Rightarrow> do {
          (s, report) \<leftarrow> seg_allocatable_report s slot_size;
          Some (p\<lparr>segment := Some s\<rparr>, report) })"

definition total_used_bytes :: "owner_pool \<Rightarrow> u64 option" where
  "total_used_bytes p = do { n \<leftarrow> total_free_bytes p; Some (physical_capacity_bytes p - n) }"

definition largest_free_bytes :: "owner_pool \<Rightarrow> u64 option" where
  "largest_free_bytes p = (case segment p of None \<Rightarrow> Some 0 | Some s \<Rightarrow> seg_largest_free_bytes s)"

definition global_accounted_bytes :: "owner_pool \<Rightarrow> u64" where
  "global_accounted_bytes p = (case segment p of None \<Rightarrow> 0 | Some s \<Rightarrow> seg_global_accounted_bytes s)"

definition capacity_report_size_classes :: "owner_pool \<Rightarrow> u64 list" where
  "capacity_report_size_classes p =
     sort (remdups ((case expected_slot_size p of None \<Rightarrow> [] | Some x \<Rightarrow> [x]) @ requested_size_classes p @
       map fst (filter (\<lambda>(_, count). count \<noteq> 0) (pending_demand_by_slot_size p)) @
       (case segment p of None \<Rightarrow> [] | Some s \<Rightarrow> map (\<lambda>(_, r). os_capacity_bytes r) (allocations s))))"

definition track_capacity_report_size_classes ::
  "owner_pool \<Rightarrow> u64 list \<Rightarrow> owner_pool \<times> (unit + bool)" where
  "track_capacity_report_size_classes p size_classes =
     (if \<exists>x \<in> set size_classes. x = 0 \<or> x mod GRANULARITY \<noteq> 0 then (p, Inl ())
      else let classes = fold List.insert size_classes (requested_size_classes p)
           in (p\<lparr>requested_size_classes := classes\<rparr>,
               Inr (length classes \<noteq> length (requested_size_classes p))))"

definition pending_demand_slots :: "owner_pool \<Rightarrow> u64 \<Rightarrow> usize" where
  "pending_demand_slots p slot_size =
     (case map_of (pending_demand_by_slot_size p) slot_size of None \<Rightarrow> 0 | Some n \<Rightarrow> n)"

text \<open>The iterator's \<open>sum\<close> is an unchecked addition: it panics on overflow in a checked build.\<close>

fun checked_sum :: "nat \<Rightarrow> nat list \<Rightarrow> nat option" where
  "checked_sum acc [] = Some acc"
| "checked_sum acc (x # xs) = do { acc' \<leftarrow> checked_add u64_bound acc x; checked_sum acc' xs }"

definition total_pending_bytes :: "owner_pool \<Rightarrow> u64 option" where
  "total_pending_bytes p =
     checked_sum 0 (map (\<lambda>(slot_size, count). saturating_mul u64_bound slot_size count)
       (pending_demand_by_slot_size p))"

definition largest_pending_slot_size :: "owner_pool \<Rightarrow> u64" where
  "largest_pending_slot_size p =
     fold max (map fst (filter (\<lambda>(_, count). count \<noteq> 0) (pending_demand_by_slot_size p))) 0"

end
