(* ===== verification/Owner_Slots_Ops.thy ===== *)
theory Owner_Slots_Ops
  imports Owner_Slots_Inv Owner_Pool
begin

text \<open>
  Every operation of a segment state keeps its invariant, and what it changes: claiming adds one
  prepared slot, freeing removes one, source leases are counted on their slot, and the slot
  transitions touch only the state of their slot.
\<close>

section \<open>What a returning allocator call tells\<close>

lemma allocate_None_same:
  assumes "allocate a sz = Some (a', None)"
  shows "a' = a"
proof (cases "free_offset a = 0")
  case True
  with assms show ?thesis by (simp add: allocate_def)
next
  case False
  with assms obtain found where f: "find_bin a (uint_to_float_round_up sz) = Some found"
    by (auto simp: allocate_def bind_eq_Some_conv)
  show ?thesis
  proof (cases found)
    case None
    with assms False f show ?thesis by (simp add: allocate_def)
  next
    case (Some q)
    obtain t l where "q = (t, l)" by (cases q)
    with assms False f Some show ?thesis
      by (auto simp: allocate_def Let_def bind_eq_Some_conv)
  qed
qed

lemma allocate_Some_room:
  assumes "allocate a sz = Some (a', Some al)"
  shows "revision_room a"
proof -
  have nz: "free_offset a \<noteq> 0"
  proof
    assume "free_offset a = 0"
    with assms show False by (simp add: allocate_def)
  qed
  with assms obtain found where f: "find_bin a (uint_to_float_round_up sz) = Some found"
    by (auto simp: allocate_def bind_eq_Some_conv)
  with assms nz obtain t l where "found = Some (t, l)"
    by (cases found) (auto simp: allocate_def)
  with assms nz f show ?thesis
    by (auto simp: allocate_def Let_def bind_eq_Some_conv next_layout_revision_def checked_add_def
        revision_room_def split: if_splits)
qed

lemma free_Some_room: "free a al = Some a' \<Longrightarrow> revision_room a"
  by (auto simp: free_def Let_def bind_eq_Some_conv next_layout_revision_def checked_add_def
      revision_room_def split: if_splits)

lemma allocate_Some_allocated:
  assumes "alloc_inv a" "sz < u32_bound" "allocate a sz = Some (a', Some al)"
  shows "alloc_inv a' \<and> allocated a sz a' al"
proof -
  obtain bs L where rep: "alloc_rep a bs L" using assms(1) by (auto simp: alloc_inv_def)
  from allocate_rep [OF rep assms(2) allocate_Some_room [OF assms(3), unfolded revision_room_def]] assms(3)
  show ?thesis by (auto simp: alloc_inv_def)
qed

lemma free_Some_freed:
  assumes "alloc_inv a" "metadata al \<in> live a" "free a al = Some a'"
  shows "alloc_inv a' \<and> freed a (metadata al) a'"
proof -
  obtain bs L where rep: "alloc_rep a bs L" using assms(1) by (auto simp: alloc_inv_def)
  from free_rep [OF rep assms(2) refl free_Some_room [OF assms(3), unfolded revision_room_def]] assms(3)
  show ?thesis by (auto simp: alloc_inv_def)
qed

section \<open>Claiming a slot\<close>

text \<open>The descriptor a claim answers with.\<close>

definition claimed_slot :: "owner_segment_state \<Rightarrow> u64 \<Rightarrow> owner_allocation_state \<Rightarrow> owner_slot_desc" where
  "claimed_slot s aid r =
     \<lparr>slot_owner = seg_owner s, slot_allocation_id = aid, slot_segment_offset = os_segment_offset r,
      slot_capacity_bytes = os_capacity_bytes r, slot_addr = seg_addr s + os_segment_offset r,
      slot_base_addr = seg_base_addr s, slot_len = os_value_len r,
      slot_registration_epoch = seg_registration_epoch s\<rparr>"

lemma claim_prepared_slot_cases:
  assumes inv: "phys_ok s" and eq: "claim_prepared_slot s cap vlen aid = Some (s', res)"
  obtains (refused) "s' = s" "res = None"
  | (claimed) a al r where "alloc_map s aid = None" "aid \<noteq> 0"
      "r = \<lparr>os_allocation_id = aid, os_allocation = al, os_segment_offset = GRANULARITY * offset al,
            os_capacity_bytes = cap, os_value_len = vlen, os_source_read_lease_count = 0, os_state = Prepared\<rparr>"
      "0 < vlen" "vlen \<le> cap" "cap = GRANULARITY * (cap div GRANULARITY)" "cap div GRANULARITY < u32_bound"
      "alloc_inv a" "allocated (seg_allocator s) (cap div GRANULARITY) a al"
      "allocations_by_offset s (offset al) = None"
      "s' = s\<lparr>seg_allocator := a, allocatable_report_cache := [],
              allocations := AList.update aid r (allocations s),
              allocations_by_offset := (allocations_by_offset s)(offset al \<mapsto> aid)\<rparr>"
      "res = Some (claimed_slot s aid r)"
proof (cases "aid = 0 \<or> vlen = 0 \<or> cap = 0 \<or> cap < vlen \<or> seg_len s < cap \<or> cap mod GRANULARITY \<noteq> 0 \<or>
    u32_bound \<le> cap div GRANULARITY")
  case True
  with eq show ?thesis by (intro refused) (auto simp: claim_prepared_slot_def split: if_splits)
next
  case False
  with eq obtain a c where al: "allocate (seg_allocator s) (cap div GRANULARITY) = Some (a, c)"
    by (auto simp: claim_prepared_slot_def bind_eq_Some_conv)
  have ai: "alloc_inv (seg_allocator s)" by (rule phys_okD(1) [OF inv])
  show ?thesis
  proof (cases c)
    case None
    have "a = seg_allocator s" using al allocate_None_same None by blast
    with False eq al None show ?thesis by (intro refused) (simp_all add: claim_prepared_slot_def)
  next
    case (Some al')
    have sz: "cap div GRANULARITY < u32_bound" using False by simp
    have st: "alloc_inv a" "allocated (seg_allocator s) (cap div GRANULARITY) a al'"
      using allocate_Some_allocated [OF ai sz] al Some by auto
    have "metadata al' \<in> live a" "offset al' = block_offset a (metadata al')" "alloc_size a = alloc_size (seg_allocator s)"
      using st(2) by (auto simp: allocated_def)
    then have bnd: "offset al' + block_size a (metadata al') \<le> alloc_size (seg_allocator s)"
      using oa.region_bounds [OF st(1), of "metadata al'"] by simp
    have lenb: "block_size a (metadata al') = cap div GRANULARITY" using st(2) by (simp add: allocated_def)
    have capeq: "cap = GRANULARITY * (cap div GRANULARITY)" using False by auto
    then have pos: "0 < cap div GRANULARITY" using False by (cases "cap div GRANULARITY") auto
    have "GRANULARITY * offset al' < seg_len s"
      using bnd pos lenb phys_okD(2) [OF inv] by linarith
    then have addr: "seg_addr s + GRANULARITY * offset al' < u64_bound"
      using phys_okD(3) [OF inv] by linarith
    then have off: "owner_segment_offset_bytes (offset al') = Some (GRANULARITY * offset al')"
      by (simp add: owner_segment_offset_bytes_def checked_mul_def mult.commute)
    let ?r = "\<lparr>os_allocation_id = aid, os_allocation = al', os_segment_offset = GRANULARITY * offset al',
            os_capacity_bytes = cap, os_value_len = vlen, os_source_read_lease_count = 0, os_state = Prepared\<rparr>"
    have chk: "alloc_map s aid = None" "allocations_by_offset s (offset al') = None"
      using False eq al Some off
      by (auto simp: claim_prepared_slot_def clear_allocatable_report_cache_def Let_def bind_eq_Some_conv)
    have res: "s' = s\<lparr>seg_allocator := a, allocatable_report_cache := [],
              allocations := AList.update aid ?r (allocations s),
              allocations_by_offset := (allocations_by_offset s)(offset al' \<mapsto> aid)\<rparr>"
       "res = Some (claimed_slot s aid ?r)"
      using False eq al Some off chk addr
      by (simp_all add: claim_prepared_slot_def clear_allocatable_report_cache_def Let_def checked_add_def
          claimed_slot_def)
    show ?thesis
      by (rule claimed [OF chk(1) _ refl _ _ capeq sz st chk(2) res]) (use False in auto)
  qed
qed

lemma allocated_keeps:
  assumes "alloc_inv a" "allocated a n a' al" "m \<in> live a"
  shows "m \<in> live a'" "block_offset a' m = block_offset a m" "block_size a' m = block_size a m" "m \<noteq> metadata al"
  using assms live_not_free by (auto simp: allocated_def)

lemma claim_phys_ok:
  assumes inv: "phys_ok s" and none: "alloc_map s aid = None" "allocations_by_offset s (offset al) = None"
    and nz: "aid \<noteq> 0" "0 < vlen" "vlen \<le> cap" and cap: "cap = GRANULARITY * n"
    and al: "alloc_inv a" "allocated (seg_allocator s) n a al"
    and r: "slot_geometry r = \<lparr>g_id = aid, g_allocation = al, g_offset = GRANULARITY * offset al,
              g_capacity = cap, g_len = vlen\<rparr>"
    and s': "s' = s\<lparr>seg_allocator := a, allocatable_report_cache := [],
              allocations := AList.update aid r (allocations s),
              allocations_by_offset := (allocations_by_offset s)(offset al \<mapsto> aid)\<rparr>"
  shows "phys_ok s'"
proof -
  let ?A = "seg_allocator s" and ?m = "metadata al"
  have ai: "alloc_inv ?A" by (rule phys_okD(1) [OF inv])
  have g: "geom s' = (geom s)(aid \<mapsto> slot_geometry r)"
    by (auto simp: geom_def s' update_conv' fun_eq_iff)
  have gnone: "geom s aid = None" using none(1) by (simp add: geom_None)
  have new: "?m \<notin> live ?A" "live a = insert ?m (live ?A)" "offset al = block_offset a ?m"
    "block_size a ?m = n" "alloc_size a = alloc_size ?A"
    using al(2) live_not_free by (auto simp: allocated_def)
  have old: "geometry_ok a i h \<and> g_node h \<noteq> ?m" if "geom s i = Some h" for i h
    using phys_okD(5) [OF inv that] allocated_keeps [OF ai al(2)] by (auto simp: geometry_ok_def)
  have ok: "geometry_ok a aid (slot_geometry r)"
    using nz cap new by (simp add: r geometry_ok_def)
  have "geometry_ok (seg_allocator s') i h" if "geom s' i = Some h" for i h
    using that old ok unfolding g by (cases "i = aid") (simp_all add: s')
  moreover have "\<exists>i h. geom s' i = Some h \<and> g_node h = m" if "m \<in> live (seg_allocator s')" for m
  proof (cases "m = ?m")
    case True
    then show ?thesis by (intro exI [of _ aid]) (simp add: g r)
  next
    case False
    then have "m \<in> live ?A" using that new(2) by (simp add: s')
    then obtain i h where "geom s i = Some h" "g_node h = m" using phys_okD(6) [OF inv] by blast
    with gnone show ?thesis by (intro exI [of _ i] exI [of _ h]) (auto simp: g)
  qed
  moreover have "inj_on (\<lambda>i. g_node (the (geom s' i))) (dom (geom s'))"
  proof (rule inj_onI)
    fix i j assume "i \<in> dom (geom s')" "j \<in> dom (geom s')"
      and eq: "g_node (the (geom s' i)) = g_node (the (geom s' j))"
    then obtain gi gj where gi: "geom s' i = Some gi" "geom s' j = Some gj" by blast
    show "i = j"
    proof (cases "i = aid"; cases "j = aid")
      assume "i \<noteq> aid" "j \<noteq> aid"
      then show ?thesis using gi eq phys_okD(7) [OF inv, of i gi j gj] by (simp add: g)
    qed (use gi eq old [of i gi] old [of j gj] in \<open>auto simp: g r\<close>)
  qed
  moreover have "allocations_by_offset s' off = Some i \<longleftrightarrow> (\<exists>h. geom s' i = Some h \<and> offset (g_allocation h) = off)"
    for off i
  proof (cases "i = aid")
    case True
    have "allocations_by_offset s off \<noteq> Some aid" for off
      using phys_okD(8) [OF inv, of off aid] gnone by simp
    then show ?thesis using True by (auto simp: s' g [unfolded s'] r)
  next
    case False
    have "offset (g_allocation h) \<noteq> offset al" if "geom s i = Some h" for h
      using phys_okD(8) [OF inv, of "offset al" i] that none(2) by auto
    then show ?thesis
      using False phys_okD(8) [OF inv, of off i] by (auto simp: s' g [unfolded s'])
  qed
  ultimately show ?thesis
    using inv al(1) new(5) unfolding phys_ok_def
    by (simp add: s' distinct_update)
qed

lemma map_count_fresh:
  assumes "lease_ok s" "alloc_map s aid = None"
  shows "map_count (src_map s) (active_on aid) = 0"
  unfolding map_count_0 [OF src_finite(1)]
proof (intro allI impI notI)
  fix op l assume "src_map s op = Some l" "active_on aid l"
  then show False using lease_okD(3) [OF assms(1), of op l] identity_live assms(2) by (fastforce simp: active_on_def)
qed

lemma identity_grow:
  assumes "same_segment s s'" "geom s' = (geom s)(aid \<mapsto> g)" "geom s aid = None" "identity_matches_desc s slot"
  shows "identity_matches_desc s' slot"
proof -
  have "slot_allocation_id slot \<noteq> aid" using assms(3,4) by (auto simp: identity_geom)
  then show ?thesis using identity_frame [OF assms(1)] assms(2,4) by simp
qed

lemma claim_prepared_slot_inv:
  assumes inv: "seg_inv s" and eq: "claim_prepared_slot s cap vlen aid = Some (s', res)"
  shows "seg_inv s' \<and> same_segment s s' \<and> source_leases s' = source_leases s \<and> target_leases s' = target_leases s \<and>
    manifest_by_key s' = manifest_by_key s \<and>
    (case res of
       None \<Rightarrow> s' = s
     | Some slot \<Rightarrow> (\<exists>r. alloc_map s aid = None \<and> alloc_map s' = (alloc_map s)(aid \<mapsto> r) \<and> os_state r = Prepared \<and>
         slot = claimed_slot s aid r \<and> os_value_len r = vlen \<and> os_capacity_bytes r = cap \<and>
         identity_matches_desc s' slot \<and> allocatable_report_cache s' = []))"
proof -
  have parts: "phys_ok s" "man_ok s" "lease_ok s" "res_ok s" using inv by (simp_all add: seg_inv_def)
  from parts(1) eq show ?thesis
  proof (cases rule: claim_prepared_slot_cases)
    case refused
    with inv show ?thesis by simp
  next
    case (claimed a al r)
    note r = claimed(3) and s' = claimed(11)
    have sg: "slot_geometry r = \<lparr>g_id = aid, g_allocation = al, g_offset = GRANULARITY * offset al,
              g_capacity = cap, g_len = vlen\<rparr>" by (simp add: r slot_geometry_def)
    have phys: "phys_ok s'"
      by (rule claim_phys_ok [OF parts(1) claimed(1) claimed(10) claimed(2,4,5,6,8,9) sg s'])
    have ss: "same_segment s s'" by (simp add: s' same_segment_def)
    have am: "alloc_map s' = (alloc_map s)(aid \<mapsto> r)" by (simp add: s' update_conv')
    have g: "geom s' = (geom s)(aid \<mapsto> slot_geometry r)" by (auto simp: geom_def am fun_eq_iff)
    have gn: "geom s aid = None" using claimed(1) by (simp add: geom_None)
    note grow = identity_grow [OF ss g gn]
    have "man_ok s'"
      unfolding man_ok_def
    proof (intro conjI allI impI)
      show "manifest_key_by_allocation s' i = Some k \<longleftrightarrow>
          (\<exists>e. manifest_by_key s' k = Some e \<and> slot_allocation_id (me_slot e) = i)" for i k
        using man_okD(1) [OF parts(2), of i k] by (simp add: s')
      fix k e assume "manifest_by_key s' k = Some e"
      then have "manifest_by_key s k = Some e" by (simp add: s')
      with man_okD(2,3) [OF parts(2) this] grow
      show "k = manifest_key (me_key e) (me_put_id e)" "identity_matches_desc s' (me_slot e)" by blast+
    qed
    moreover have "lease_ok s'"
      unfolding lease_ok_def
    proof (intro conjI allI impI)
      show "distinct (map fst (source_leases s'))" using lease_okD(1) [OF parts(3)] by (simp add: s')
      show "os_source_read_lease_count x = map_count (src_map s') (active_on i)" if "alloc_map s' i = Some x" for i x
      proof (cases "i = aid")
        case True
        then have "x = r" using that am by simp
        then show ?thesis using True map_count_fresh [OF parts(3) claimed(1)] by (simp add: r s')
      next
        case False
        then show ?thesis using that am lease_okD(2) [OF parts(3), of i x] by (simp add: s')
      qed
      fix op l assume "src_map s' op = Some l \<and> sl_state l = ActiveLease"
      then show "identity_matches_desc s' (src_source (sl_route_token l))"
        using lease_okD(3) [OF parts(3), of op l] grow by (simp add: s')
    qed
    moreover have "res_ok s'" by (rule res_frame [OF parts(4)]) (simp_all add: s')
    moreover have "identity_matches_desc s' (claimed_slot s aid r)"
    proof -
      have "geom s' aid = Some (slot_geometry r)" by (simp add: g)
      from phys_okD(5) [OF phys this] have "os_segment_offset r + os_capacity_bytes r \<le> seg_len s'"
        using oa.region_bounds [OF phys_okD(1) [OF phys], of "metadata al"] phys_okD(2) [OF phys]
        by (auto simp: geometry_ok_def sg r)
      then have "seg_addr s + os_segment_offset r < u64_bound"
        using phys_okD(3) [OF phys] claimed(4,5) ss by (simp add: r same_segment_def)
      then show ?thesis using ss
        by (simp add: identity_geom g claimed_slot_def same_segment_def checked_add_def)
    qed
    ultimately have "seg_inv s'" "\<exists>x. alloc_map s aid = None \<and> alloc_map s' = (alloc_map s)(aid \<mapsto> x) \<and>
        os_state x = Prepared \<and> claimed_slot s aid r = claimed_slot s aid x \<and> os_value_len x = vlen \<and>
        os_capacity_bytes x = cap \<and> identity_matches_desc s' (claimed_slot s aid r) \<and> allocatable_report_cache s' = []"
      using phys claimed(1) by (simp_all add: seg_inv_def am) (intro exI [of _ r], simp add: r s')
    then show ?thesis using ss by (simp add: claimed(12)) (simp add: s')
  qed
qed

section \<open>Freeing a slot\<close>

lemma free_allocation_cases:
  assumes inv: "seg_inv s" and eq: "free_allocation s aid = Some s'"
  obtains r a where "alloc_map s aid = Some r" "os_source_read_lease_count r = 0"
    "free (seg_allocator s) (os_allocation r) = Some a" "seg_allocator s' = a" "same_segment s s'"
    "allocations s' = AList.delete aid (allocations s)"
    "allocations_by_offset s' = (allocations_by_offset s)(offset (os_allocation r) := None)"
    "manifest_key_by_allocation s' = (manifest_key_by_allocation s)(aid := None)"
    "manifest_by_key s' = (\<lambda>j. if manifest_key_by_allocation s aid = Some j then None else manifest_by_key s j)"
    "res_map s' = (\<lambda>j. if manifest_key_by_allocation s aid = Some j then None else res_map s j)"
    "distinct (map fst (global_demotion_reservations s'))"
    "source_leases s' = source_leases s" "target_leases s' = target_leases s" "allocatable_report_cache s' = []"
    "seg_physical_free_epoch s' = saturating_add u64_bound (seg_physical_free_epoch s) 1"
proof -
  have parts: "man_ok s" "res_ok s" using inv by (simp_all add: seg_inv_def)
  have dist: "distinct (map fst (global_demotion_reservations s))" using parts(2) by (simp add: res_ok_def)
  obtain r where r: "alloc_map s aid = Some r" using eq by (auto simp: free_allocation_def bind_eq_Some_conv)
  show ?thesis
  proof (cases "manifest_key_by_allocation s aid")
    case None
    with eq r obtain a where "free (seg_allocator s) (os_allocation r) = Some a" "os_source_read_lease_count r = 0"
      "s' = s\<lparr>allocations := AList.delete aid (allocations s),
        allocations_by_offset := (allocations_by_offset s)(offset (os_allocation r) := None),
        seg_allocator := a, allocatable_report_cache := [],
        seg_physical_free_epoch := saturating_add u64_bound (seg_physical_free_epoch s) 1\<rparr>"
      by (auto simp: free_allocation_def bind_eq_Some_conv Let_def assert_or_panic_def
          remove_manifest_for_allocation_def clear_allocatable_report_cache_def split: if_splits)
    with None r dist show ?thesis by (intro that) (simp_all add: same_segment_def fun_upd_idem)
  next
    case (Some mk)
    then obtain e where e: "manifest_by_key s mk = Some e" using man_okD(1) [OF parts(1), of aid mk] by auto
    then have mk: "manifest_key (me_key e) (me_put_id e) = mk" using man_okD(2) [OF parts(1)] by simp
    from Some e mk eq r obtain a where "free (seg_allocator s) (os_allocation r) = Some a" "os_source_read_lease_count r = 0"
      "s' = s\<lparr>allocations := AList.delete aid (allocations s),
        manifest_key_by_allocation := (manifest_key_by_allocation s)(aid := None),
        manifest_by_key := (manifest_by_key s)(mk := None),
        global_demotion_reservations := AList.delete mk (global_demotion_reservations s),
        allocations_by_offset := (allocations_by_offset s)(offset (os_allocation r) := None),
        seg_allocator := a, allocatable_report_cache := [],
        seg_physical_free_epoch := saturating_add u64_bound (seg_physical_free_epoch s) 1\<rparr>"
      by (auto simp: free_allocation_def bind_eq_Some_conv Let_def assert_or_panic_def
          remove_manifest_for_allocation_def clear_allocatable_report_cache_def split: if_splits)
    with Some r dist show ?thesis
      by (intro that) (auto simp: same_segment_def delete_conv' distinct_delete fun_eq_iff)
  qed
qed

lemma free_phys_ok:
  assumes inv: "phys_ok s" and r: "alloc_map s aid = Some r"
    and al: "alloc_inv (seg_allocator s')" "freed (seg_allocator s) (metadata (os_allocation r)) (seg_allocator s')"
    and s': "same_segment s s'" "allocations s' = AList.delete aid (allocations s)"
      "allocations_by_offset s' = (allocations_by_offset s)(offset (os_allocation r) := None)"
  shows "phys_ok s'"
proof -
  let ?m = "metadata (os_allocation r)" and ?A = "seg_allocator s" and ?B = "seg_allocator s'"
  have g: "geom s' = (geom s)(aid := None)" by (auto simp: geom_def s' delete_conv' fun_eq_iff)
  have gr: "geom s aid = Some (slot_geometry r)" using r by (simp add: geom_def)
  have fr: "live ?B = live ?A - {?m}" "alloc_size ?B = alloc_size ?A"
    "\<And>i. i \<in> live ?B \<Longrightarrow> block_offset ?B i = block_offset ?A i \<and> block_size ?B i = block_size ?A i"
    using al(2) by (auto simp: freed_def)
  have other: "g_node h \<noteq> ?m" if "geom s i = Some h" "i \<noteq> aid" for i h
    using phys_okD(7) [OF inv that(1) gr] that(2) by auto
  have "geometry_ok ?B i h" if "geom s' i = Some h" for i h
  proof -
    have h: "geom s i = Some h" "i \<noteq> aid" using that by (auto simp: g split: if_splits)
    from phys_okD(5) [OF inv h(1)] other [OF h] show ?thesis using fr by (auto simp: geometry_ok_def)
  qed
  moreover have "\<exists>i h. geom s' i = Some h \<and> g_node h = m" if "m \<in> live ?B" for m
  proof -
    have m: "m \<in> live ?A" "m \<noteq> ?m" using that fr(1) by simp_all
    from phys_okD(6) [OF inv m(1)] obtain i h where h: "geom s i = Some h" "g_node h = m" by blast
    have "i \<noteq> aid"
    proof
      assume "i = aid"
      then have "h = slot_geometry r" using h(1) gr by simp
      then show False using h(2) m(2) by simp
    qed
    with h show ?thesis by (intro exI [of _ i] exI [of _ h]) (simp add: g)
  qed
  moreover have "inj_on (\<lambda>i. g_node (the (geom s' i))) (dom (geom s'))"
  proof (rule inj_onI)
    fix i j assume "i \<in> dom (geom s')" "j \<in> dom (geom s')"
      and eq: "g_node (the (geom s' i)) = g_node (the (geom s' j))"
    then obtain gi gj where gi: "geom s' i = Some gi" "geom s' j = Some gj" by blast
    then have "geom s i = Some gi" "geom s j = Some gj" by (auto simp: g split: if_splits)
    then show "i = j" using eq gi phys_okD(7) [OF inv] by simp
  qed
  moreover have "allocations_by_offset s' off = Some i \<longleftrightarrow> (\<exists>h. geom s' i = Some h \<and> offset (g_allocation h) = off)"
    for off i
  proof (cases "off = offset (os_allocation r)")
    case True
    have "i = aid" if "geom s i = Some h" "offset (g_allocation h) = off" for h
    proof -
      have "allocations_by_offset s off = Some i" "allocations_by_offset s off = Some aid"
        using that gr True by (simp_all add: phys_okD(8) [OF inv])
      then show ?thesis by simp
    qed
    then show ?thesis using True by (auto simp: g s')
  next
    case False
    then show ?thesis using phys_okD(8) [OF inv, of off i] gr by (auto simp: g s')
  qed
  ultimately show ?thesis
    using inv al(1) fr(2) s' unfolding phys_ok_def
    by (simp add: distinct_delete same_segment_def)
qed

lemma free_allocation_inv:
  assumes inv: "seg_inv s" and eq: "free_allocation s aid = Some s'"
  shows "seg_inv s'" "alloc_map s' = (alloc_map s)(aid := None)" "alloc_map s aid \<noteq> None"
    "source_leases s' = source_leases s" "target_leases s' = target_leases s" "same_segment s s'"
    "length (allocations s') < length (allocations s)" "allocatable_report_cache s' = []"
proof -
  have parts: "phys_ok s" "man_ok s" "lease_ok s" "res_ok s" using inv by (simp_all add: seg_inv_def)
  obtain r where r: "alloc_map s aid = Some r" "os_source_read_lease_count r = 0"
    "free (seg_allocator s) (os_allocation r) = Some (seg_allocator s')"
    and ss: "same_segment s s'" and s': "allocations s' = AList.delete aid (allocations s)"
    "allocations_by_offset s' = (allocations_by_offset s)(offset (os_allocation r) := None)"
    and mk: "manifest_key_by_allocation s' = (manifest_key_by_allocation s)(aid := None)"
    "manifest_by_key s' = (\<lambda>j. if manifest_key_by_allocation s aid = Some j then None else manifest_by_key s j)"
    "res_map s' = (\<lambda>j. if manifest_key_by_allocation s aid = Some j then None else res_map s j)"
    "distinct (map fst (global_demotion_reservations s'))"
    and same: "source_leases s' = source_leases s" "target_leases s' = target_leases s" "allocatable_report_cache s' = []"
    by (rule free_allocation_cases [OF inv eq]) blast
  have am: "alloc_map s' = (alloc_map s)(aid := None)" by (simp add: s' delete_conv')
  have g: "geom s' = (geom s)(aid := None)" by (auto simp: geom_def am fun_eq_iff)
  have "geom s aid = Some (slot_geometry r)" using r by (simp add: geom_def)
  from phys_okD(5) [OF parts(1) this] have "metadata (os_allocation r) \<in> live (seg_allocator s)"
    by (simp add: geometry_ok_def)
  then have fr: "alloc_inv (seg_allocator s')" "freed (seg_allocator s) (metadata (os_allocation r)) (seg_allocator s')"
    using free_Some_freed [OF phys_okD(1) [OF parts(1)] _ r(3)] by auto
  have keep: "identity_matches_desc s' slot = identity_matches_desc s slot" if "slot_allocation_id slot \<noteq> aid" for slot
    by (rule identity_frame [OF ss]) (simp add: g that)
  have "man_ok s'"
    unfolding man_ok_def
  proof (intro conjI allI impI)
    show "manifest_key_by_allocation s' i = Some k \<longleftrightarrow>
        (\<exists>e. manifest_by_key s' k = Some e \<and> slot_allocation_id (me_slot e) = i)" for i k
      using man_okD(1) [OF parts(2), of i k] man_okD(1) [OF parts(2), of aid k] by (auto simp: mk)
    fix k e assume "manifest_by_key s' k = Some e"
    then have e: "manifest_by_key s k = Some e" "manifest_key_by_allocation s aid \<noteq> Some k"
      by (auto simp: mk split: if_splits)
    then have "slot_allocation_id (me_slot e) \<noteq> aid" using man_okD(1) [OF parts(2), of aid k] by auto
    then show "k = manifest_key (me_key e) (me_put_id e)" "identity_matches_desc s' (me_slot e)"
      using man_okD(2,3) [OF parts(2) e(1)] keep by blast+
  qed
  moreover have "lease_ok s'"
    unfolding lease_ok_def
  proof (intro conjI allI impI)
    show "distinct (map fst (source_leases s'))" using lease_okD(1) [OF parts(3)] by (simp add: same)
    show "os_source_read_lease_count x = map_count (src_map s') (active_on i)" if "alloc_map s' i = Some x" for i x
      using that lease_okD(2) [OF parts(3), of i x] by (auto simp: am same split: if_splits)
    fix op l assume l: "src_map s' op = Some l \<and> sl_state l = ActiveLease"
    have "map_count (src_map s) (active_on aid) = 0" using lease_okD(2) [OF parts(3) r(1)] r(2) by simp
    then have "\<not> active_on aid l" using l unfolding map_count_0 [OF src_finite(1)] same by blast
    then have "slot_allocation_id (src_source (sl_route_token l)) \<noteq> aid" using l by (simp add: active_on_def)
    then show "identity_matches_desc s' (src_source (sl_route_token l))"
      using lease_okD(3) [OF parts(3), of op l] l keep by (simp add: same)
  qed
  moreover have "res_ok s'"
    using parts(4) mk(4) by (auto simp: res_ok_def mk(2,3) split: if_splits)
  ultimately show "seg_inv s'"
    using free_phys_ok [OF parts(1) r(1) fr ss s'] by (simp add: seg_inv_def)
  show "alloc_map s' = (alloc_map s)(aid := None)" "alloc_map s aid \<noteq> None"
    "source_leases s' = source_leases s" "target_leases s' = target_leases s" "same_segment s s'"
    "allocatable_report_cache s' = []"
    using am r(1) same ss by simp_all
  have "aid \<in> fst ` set (allocations s)" using r(1) by (metis domI dom_map_of_conv_image_fst)
  then show "length (allocations s') < length (allocations s)"
    unfolding s' AList.delete_eq by (auto intro!: length_filter_less)
qed

section \<open>Effects of the operations\<close>

text \<open>
  The states of the slots, which the pool's counters count; and a step to a segment state whose
  slots have the given states. A step may empty the report cache, and otherwise leaves it and
  the allocator alone.
\<close>

definition slot_states :: "owner_segment_state \<Rightarrow> u64 \<Rightarrow> owner_slot_state option" where
  "slot_states s = (\<lambda>aid. map_option os_state (alloc_map s aid))"

definition keeps_cache :: "owner_segment_state \<Rightarrow> owner_segment_state \<Rightarrow> bool" where
  "keeps_cache s s' \<longleftrightarrow> allocatable_report_cache s' = [] \<or>
     allocatable_report_cache s' = allocatable_report_cache s \<and> seg_allocator s' = seg_allocator s"

definition seg_to :: "owner_segment_state \<Rightarrow> owner_segment_state \<Rightarrow> (u64 \<Rightarrow> owner_slot_state option) \<Rightarrow> bool" where
  "seg_to s s' m \<longleftrightarrow> seg_inv s' \<and> same_segment s s' \<and> keeps_cache s s' \<and> slot_states s' = m"

lemma slot_states_finite [simp]: "finite (dom (slot_states s))"
proof -
  have "dom (slot_states s) = dom (alloc_map s)" by (auto simp: slot_states_def)
  then show ?thesis by (simp add: finite_dom_map_of)
qed

lemma slot_states_Some: "slot_states s aid = Some st \<longleftrightarrow> (\<exists>r. alloc_map s aid = Some r \<and> os_state r = st)"
  by (auto simp: slot_states_def)

lemma slot_states_None: "slot_states s aid = None \<longleftrightarrow> alloc_map s aid = None"
  by (simp add: slot_states_def)

lemma seg_toD:
  assumes "seg_to s s' m"
  shows "seg_inv s'" "same_segment s s'" "slot_states s' = m" "keeps_cache s s'"
  using assms by (simp_all add: seg_to_def)

lemma seg_to_refl [simp]: "seg_to s s m \<longleftrightarrow> seg_inv s \<and> slot_states s = m"
  by (simp add: seg_to_def keeps_cache_def)

lemma seg_to_trans:
  assumes "seg_to s s' m" "seg_to s' s'' m'"
  shows "seg_to s s'' m'"
proof -
  have "keeps_cache s s''"
    using seg_toD(4) [OF assms(1)] seg_toD(4) [OF assms(2)] unfolding keeps_cache_def by (elim disjE) simp_all
  moreover have "same_segment s s''"
    by (rule same_segment_trans [OF seg_toD(2) [OF assms(1)] seg_toD(2) [OF assms(2)]])
  ultimately show ?thesis using assms(2) by (simp add: seg_to_def)
qed

lemma seg_to_set_state:
  assumes "seg_inv s" "alloc_map s aid = Some r"
  shows "seg_to s (set_allocation s aid (r\<lparr>os_state := st\<rparr>)) ((slot_states s)(aid \<mapsto> st))"
  using seg_inv_set_state [OF assms] by (auto simp: seg_to_def keeps_cache_def slot_states_def fun_eq_iff)

lemma seg_to_update_manifest:
  assumes "seg_inv s" "update_manifest_by_allocation s aid f = Some s'"
    and "\<And>e. me_key (f e) = me_key e \<and> me_put_id (f e) = me_put_id e \<and> me_slot (f e) = me_slot e"
  shows "seg_to s s' (slot_states s)"
  using seg_inv_update_manifest [OF assms] update_manifest_frame [OF assms(2)]
  by (simp add: seg_to_def keeps_cache_def slot_states_def)

lemma seg_to_reclaiming:
  assumes "seg_inv s"
  shows "seg_to s (mark_manifest_reclaiming s aid) (slot_states s)"
proof (cases "update_manifest_by_allocation s aid (\<lambda>e. e\<lparr>me_physical_state := ReclaimingPhysical\<rparr>)")
  case None
  then show ?thesis using assms by (simp add: mark_manifest_reclaiming_def)
next
  case (Some s')
  from seg_to_update_manifest [OF assms this] Some show ?thesis by (simp add: mark_manifest_reclaiming_def)
qed

lemma seg_to_install_manifest:
  assumes "seg_inv s"
  shows "seg_to s (fst (install_manifest_entry s entry)) (slot_states s)"
  using seg_inv_install_manifest [OF assms, of entry]
  by (simp add: seg_to_def keeps_cache_def slot_states_def install_manifest_frame)

lemma seg_to_target_leases:
  "seg_inv s \<Longrightarrow> seg_to s (s\<lparr>target_leases := t\<rparr>) (slot_states s)"
  by (simp add: seg_to_def keeps_cache_def slot_states_def same_segment_def)

lemma seg_to_set_target:
  "seg_inv s \<Longrightarrow> set_target_state s op st = Some s' \<Longrightarrow> seg_to s s' (slot_states s)"
  by (auto simp: set_target_state_def intro: seg_to_target_leases split: option.splits)

lemma seg_to_free:
  assumes "seg_inv s" "free_allocation s aid = Some s'"
  shows "seg_to s s' ((slot_states s)(aid := None))"
  using free_allocation_inv [OF assms] by (auto simp: seg_to_def keeps_cache_def slot_states_def fun_eq_iff)

lemma seg_to_claim:
  assumes "seg_inv s" "claim_prepared_slot s cap vlen aid = Some (s', res)"
  shows "case res of None \<Rightarrow> s' = s
       | Some slot \<Rightarrow> slot_states s aid = None \<and> seg_to s s' ((slot_states s)(aid \<mapsto> Prepared)) \<and>
           identity_matches_desc s' slot \<and> slot_allocation_id slot = aid \<and> slot_capacity_bytes slot = cap \<and>
           slot_len slot = vlen"
  using claim_prepared_slot_inv [OF assms]
  by (cases res) (auto simp: seg_to_def keeps_cache_def slot_states_def claimed_slot_def fun_eq_iff)

section \<open>Source leases\<close>

definition lease_slot :: "owner_source_lease_record \<Rightarrow> u64" where
  "lease_slot l = slot_allocation_id (src_source (sl_route_token l))"

text \<open>A lease record is written together with the count of its slot.\<close>

lemma seg_inv_lease_update:
  assumes inv: "seg_inv s" and r: "alloc_map s (lease_slot l') = Some r"
    and old: "case src_map s op of None \<Rightarrow> b = False
      | Some l \<Rightarrow> lease_slot l = lease_slot l' \<and> b = (sl_state l = ActiveLease)"
    and n: "n + of_bool b = os_source_read_lease_count r + of_bool (sl_state l' = ActiveLease)"
    and act: "sl_state l' = ActiveLease \<Longrightarrow> identity_matches_desc s (src_source (sl_route_token l'))"
  shows "seg_to s ((set_allocation s (lease_slot l') (r\<lparr>os_source_read_lease_count := n\<rparr>))
           \<lparr>source_leases := AList.update op l' (source_leases s)\<rparr>) (slot_states s)"
proof -
  let ?i = "lease_slot l'"
  let ?s = "(set_allocation s ?i (r\<lparr>os_source_read_lease_count := n\<rparr>))
           \<lparr>source_leases := AList.update op l' (source_leases s)\<rparr>"
  have parts: "phys_ok s" "man_ok s" "lease_ok s" "res_ok s" using inv by (simp_all add: seg_inv_def)
  have am: "alloc_map ?s = (alloc_map s)(?i \<mapsto> r\<lparr>os_source_read_lease_count := n\<rparr>)"
    by (simp add: set_allocation_def update_conv')
  have sm: "src_map ?s = (src_map s)(op \<mapsto> l')" by (simp add: update_conv')
  have g: "geom ?s = geom s" using r by (auto simp: geom_def am fun_eq_iff)
  have ss: "same_segment s ?s" by (simp add: set_allocation_def same_segment_def)
  have idm: "identity_matches_desc ?s slot = identity_matches_desc s slot" for slot
    by (rule identity_frame [OF ss]) (simp add: g)
  have on: "active_on i l \<longleftrightarrow> sl_state l = ActiveLease \<and> lease_slot l = i" for i l
    by (simp add: active_on_def lease_slot_def)
  have count: "map_count ((src_map s)(op \<mapsto> l')) (active_on i) + of_bool (b \<and> ?i = i) =
      map_count (src_map s) (active_on i) + of_bool (sl_state l' = ActiveLease \<and> ?i = i)" for i
  proof (cases "src_map s op")
    case None
    with old map_count_insert [OF src_finite(1) None, of l' "active_on i"] show ?thesis by (simp add: on)
  next
    case (Some l)
    with old map_count_update [OF src_finite(1) Some, of l' "active_on i"] show ?thesis by (simp add: on)
  qed
  have "phys_ok ?s"
    by (rule phys_frame [OF parts(1) ss _ g])
      (use phys_okD(4) [OF parts(1)] in \<open>simp_all add: set_allocation_def distinct_update\<close>)
  moreover have "man_ok ?s" by (rule man_frame [OF parts(2) ss g]) simp_all
  moreover have "res_ok ?s" by (rule res_frame [OF parts(4)]) simp_all
  moreover have "lease_ok ?s"
    unfolding lease_ok_def sm idm
  proof (intro conjI allI impI)
    show "distinct (map fst (source_leases ?s))" using lease_okD(1) [OF parts(3)] by (simp add: distinct_update)
    show "os_source_read_lease_count x = map_count ((src_map s)(op \<mapsto> l')) (active_on i)"
      if x: "alloc_map ?s i = Some x" for i x
    proof (cases "i = ?i")
      case True
      have "os_source_read_lease_count x = n" using x True by (auto simp: am)
      then show ?thesis using count [of i] n lease_okD(2) [OF parts(3) r] True by simp
    next
      case False
      have "alloc_map s i = Some x" using x False by (simp add: am)
      from lease_okD(2) [OF parts(3) this] show ?thesis using count [of i] False by simp
    qed
    show "identity_matches_desc s (src_source (sl_route_token l))"
      if l: "((src_map s)(op \<mapsto> l')) o' = Some l \<and> sl_state l = ActiveLease" for o' l
      using l act lease_okD(3) [OF parts(3), of o' l] by (cases "o' = op") simp_all
  qed
  ultimately have "seg_inv ?s" by (simp add: seg_inv_def)
  moreover have "slot_states ?s = slot_states s" using r by (auto simp: slot_states_def am fun_eq_iff)
  ultimately show ?thesis using ss by (simp add: seg_to_def keeps_cache_def)
qed

lemma seg_acquire_source_cases:
  assumes "seg_acquire_source s op tok lid = Some (s', out)"
  obtains (same) "s' = s"
  | (acquired) r n where "src_map s op = None" "alloc_map s (slot_allocation_id (src_source tok)) = Some r"
      "n = os_source_read_lease_count r + 1" "identity_matches_desc s (src_source tok)" "out = SourceAcquired lid (src_source tok)"
      "s' = (set_allocation s (slot_allocation_id (src_source tok)) (r\<lparr>os_source_read_lease_count := n\<rparr>))
         \<lparr>source_leases := AList.update op \<lparr>sl_lease_id = lid, sl_route_token = tok, sl_state = ActiveLease\<rparr>
            (source_leases s)\<rparr>"
proof (cases "s' = s")
  case True
  then show ?thesis by (rule same)
next
  case False
  with assms have none: "src_map s op = None"
    by (auto simp: seg_acquire_source_def split: option.splits if_splits owner_source_lease_state.splits)
  with assms False obtain r h where r: "alloc_map s (slot_allocation_id (src_source tok)) = Some r"
    "identity_matches_desc s (src_source tok)" "os_state r = Committed True h"
    by (auto simp: seg_acquire_source_def seg_allocation_def split: option.splits if_splits owner_slot_state.splits bool.splits)
  from none False assms r show ?thesis
    by (intro acquired [OF none r(1) refl r(2)])
      (auto simp: seg_acquire_source_def seg_allocation_def bind_eq_Some_conv checked_add_def Let_def
        split: option.splits if_splits)
qed

lemma seg_acquire_source_inv:
  assumes inv: "seg_inv s" and eq: "seg_acquire_source s op tok lid = Some (s', out)"
  shows "seg_to s s' (slot_states s)"
  using eq
proof (cases rule: seg_acquire_source_cases)
  case same
  with inv show ?thesis by simp
next
  case (acquired r n)
  let ?l = "\<lparr>sl_lease_id = lid, sl_route_token = tok, sl_state = ActiveLease\<rparr>"
  from acquired seg_inv_lease_update [OF inv, of ?l r False op n] show ?thesis
    by (simp add: lease_slot_def)
qed

lemma seg_release_source_cases:
  assumes inv: "seg_inv s" and eq: "seg_release_source s op lid oc = Some (s', out)"
  obtains (same) "s' = s"
  | (released) l r n s1 where "src_map s op = Some l" "sl_lease_id l = lid" "sl_state l = ActiveLease"
      "alloc_map s (lease_slot l) = Some r" "os_source_read_lease_count r = Suc n" "out = SourceReleased"
      "s1 = (set_allocation s (lease_slot l) (r\<lparr>os_source_read_lease_count := n\<rparr>))
         \<lparr>source_leases := AList.update op (l\<lparr>sl_state := ReleasedLease oc\<rparr>) (source_leases s)\<rparr>"
      "if n = 0 \<and> os_state r = Committed False 0 then free_allocation s1 (lease_slot l) = Some s' else s' = s1"
proof (cases "s' = s")
  case True
  then show ?thesis by (rule same)
next
  case False
  obtain l where l: "src_map s op = Some l" "sl_lease_id l = lid" "sl_state l = ActiveLease"
    using eq False by (auto simp: seg_release_source_def split: option.splits if_splits owner_source_lease_state.splits)
  obtain r where r: "alloc_map s (lease_slot l) = Some r"
    using eq False l
    by (cases "alloc_map s (lease_slot l)") (auto simp: seg_release_source_def seg_allocation_def lease_slot_def Let_def)
  obtain n where n: "os_source_read_lease_count r = Suc n"
    using eq False l r
    by (cases "os_source_read_lease_count r")
      (auto simp: seg_release_source_def seg_allocation_def lease_slot_def checked_sub_def Let_def)
  show ?thesis
    by (rule released [OF l r n _ refl])
      (use eq l r n in \<open>auto simp: seg_release_source_def seg_allocation_def lease_slot_def checked_sub_def
          bind_eq_Some_conv Let_def split: if_splits\<close>)
qed

lemma seg_release_source_inv:
  assumes inv: "seg_inv s" and eq: "seg_release_source s op lid oc = Some (s', out)"
  obtains (kept) "seg_to s s' (slot_states s)" "length (allocations s') = length (allocations s)"
  | (freed) aid where "seg_to s s' ((slot_states s)(aid := None))" "slot_states s aid = Some (Committed False 0)"
      "length (allocations s') < length (allocations s)"
proof -
  from inv eq show ?thesis
  proof (cases rule: seg_release_source_cases)
    case same
    with inv show ?thesis by (intro kept) simp_all
  next
    case (released l r n s1)
    let ?l = "l\<lparr>sl_state := ReleasedLease oc\<rparr>"
    have sl: "lease_slot ?l = lease_slot l" by (simp add: lease_slot_def)
    have to1: "seg_to s s1 (slot_states s)"
      using seg_inv_lease_update [OF inv, of ?l r True op n] released(1,3,4,5,7) by (simp add: sl)
    have len: "length (allocations s1) = length (allocations s)"
    proof -
      have "lease_slot l \<in> fst ` set (allocations s)" using released(4) by (metis domI dom_map_of_conv_image_fst)
      then have "map fst (allocations s1) = map fst (allocations s)"
        by (simp add: released(7) set_allocation_def update_keys)
      then have "length (map fst (allocations s1)) = length (map fst (allocations s))" by simp
      then show ?thesis by simp
    qed
    show ?thesis
    proof (cases "n = 0 \<and> os_state r = Committed False 0")
      case True
      then have fr: "free_allocation s1 (lease_slot l) = Some s'" using released(8) by simp
      have "seg_to s s' ((slot_states s1)(lease_slot l := None))"
        by (rule seg_to_trans [OF to1 seg_to_free [OF seg_toD(1) [OF to1] fr]])
      moreover have "slot_states s (lease_slot l) = Some (Committed False 0)"
        using released(4) True by (simp add: slot_states_def)
      ultimately show ?thesis
        using free_allocation_inv(7) [OF seg_toD(1) [OF to1] fr] len seg_toD(3) [OF to1] freed by simp
    next
      case False
      then have "s' = s1" using released(8) by simp
      with to1 len show ?thesis by (intro kept) simp_all
    qed
  qed
qed

section \<open>Slot transitions\<close>

lemma seg_retain_route_only_inv:
  assumes "seg_inv s"
  shows "fst (seg_retain_committed_route_only_holder s aid) = s \<or>
    slot_states s aid = Some (Committed True 0) \<and>
    seg_to s (fst (seg_retain_committed_route_only_holder s aid)) ((slot_states s)(aid \<mapsto> Committed True 1))"
  using seg_to_set_state [OF assms, of aid]
  by (auto simp: seg_retain_committed_route_only_holder_def seg_allocation_def slot_states_Some split: option.splits)

lemma seg_mark_pending_inv:
  assumes "seg_inv s" "seg_mark_prepared_slot_pending_visible s aid = Some s'"
  shows "slot_states s aid = Some Prepared" "seg_to s s' ((slot_states s)(aid \<mapsto> PendingLocalVisible 0))"
  using assms seg_to_set_state [OF assms(1), of aid]
  by (auto simp: seg_mark_prepared_slot_pending_visible_def seg_allocation_def bind_eq_Some_conv
      assert_or_panic_def slot_states_Some split: if_splits)

lemma seg_promote_inv:
  assumes "seg_inv s" "seg_promote_pending_visible_slot_to_committed s aid = Some s'"
  shows "\<exists>n. slot_states s aid = Some (PendingLocalVisible n) \<and> seg_to s s' ((slot_states s)(aid \<mapsto> Committed True n))"
proof -
  obtain r where r: "alloc_map s aid = Some r"
    using assms(2) by (auto simp: seg_promote_pending_visible_slot_to_committed_def seg_allocation_def bind_eq_Some_conv)
  with assms(2) obtain n where n: "os_state r = PendingLocalVisible n"
    "s' = set_allocation s aid (r\<lparr>os_state := Committed True n\<rparr>)"
    by (cases "os_state r") (simp_all add: seg_promote_pending_visible_slot_to_committed_def seg_allocation_def)
  from seg_to_set_state [OF assms(1) r, of "Committed True n"] r n show ?thesis
    by (intro exI [of _ n]) (simp add: slot_states_def)
qed

lemma seg_release_prepared_inv:
  assumes "seg_inv s" "seg_release_prepared_slot s aid = Some s'"
  shows "slot_states s aid = Some Prepared" "seg_to s s' ((slot_states s)(aid := None))"
  using assms seg_to_free [OF assms(1), of aid s']
  by (auto simp: seg_release_prepared_slot_def seg_allocation_def bind_eq_Some_conv
      assert_or_panic_def slot_states_Some split: if_splits)

lemma seg_retain_resident_inv:
  assumes "seg_inv s" "seg_retain_resident_slot_holder s aid = Some s'"
  obtains (pending) n m where "slot_states s aid = Some (PendingLocalVisible n)"
      "seg_to s s' ((slot_states s)(aid \<mapsto> PendingLocalVisible m))"
  | (committed) b n m where "slot_states s aid = Some (Committed b n)"
      "seg_to s s' ((slot_states s)(aid \<mapsto> Committed b m))"
proof -
  obtain r where r: "alloc_map s aid = Some r"
    using assms(2) by (auto simp: seg_retain_resident_slot_holder_def seg_allocation_def bind_eq_Some_conv)
  note set = seg_to_set_state [OF assms(1) r]
  have st: "slot_states s aid = Some (os_state r)" using r by (simp add: slot_states_def)
  show ?thesis
  proof (cases "os_state r")
    case Prepared
    with assms(2) r show ?thesis by (simp add: seg_retain_resident_slot_holder_def seg_allocation_def)
  next
    case (PendingLocalVisible n)
    with assms(2) r obtain m where "s' = set_allocation s aid (r\<lparr>os_state := PendingLocalVisible m\<rparr>)"
      by (auto simp: seg_retain_resident_slot_holder_def seg_allocation_def bind_eq_Some_conv)
    with set st PendingLocalVisible show ?thesis by (intro pending [of n m]) simp_all
  next
    case (Committed b n)
    with assms(2) r obtain m where "s' = set_allocation s aid (r\<lparr>os_state := Committed b m\<rparr>)"
      by (auto simp: seg_retain_resident_slot_holder_def seg_allocation_def bind_eq_Some_conv)
    with set st Committed show ?thesis by (intro committed [of b n m]) simp_all
  qed
qed

text \<open>A release sets the slot's state and then frees the slot when it was the last reference.\<close>

lemma set_state_maybe_free:
  assumes inv: "seg_inv s" and r: "alloc_map s aid = Some r"
    and s1: "seg_to (set_allocation s aid (r\<lparr>os_state := st\<rparr>)) s1 (slot_states (set_allocation s aid (r\<lparr>os_state := st\<rparr>)))"
    and eq: "(if fr then free_allocation s1 aid else Some s1) = Some s'"
  shows "seg_to s s' ((slot_states s)(aid := (if fr then None else Some st)))"
proof -
  note to0 = seg_to_set_state [OF inv r, of st]
  have to1: "seg_to s s1 ((slot_states s)(aid \<mapsto> st))"
    using seg_to_trans [OF to0 s1] seg_toD(3) [OF to0] by simp
  show ?thesis
  proof (cases fr)
    case True
    then have "free_allocation s1 aid = Some s'" using eq by simp
    from seg_to_trans [OF to1 seg_to_free [OF seg_toD(1) [OF to1] this]] True
    show ?thesis by (simp add: seg_toD(3) [OF to1])
  next
    case False
    with eq to1 show ?thesis by simp
  qed
qed

lemma seg_release_resident_inv:
  assumes inv: "seg_inv s" and eq: "seg_release_resident_slot_holder s aid = Some s'"
  obtains (pending) n st where "slot_states s aid = Some (PendingLocalVisible n)"
      "seg_to s s' ((slot_states s)(aid := st))" "st = None \<or> (\<exists>m. st = Some (PendingLocalVisible m))"
  | (committed) b n st where "slot_states s aid = Some (Committed b n)"
      "seg_to s s' ((slot_states s)(aid := st))" "st = None \<or> (\<exists>m. st = Some (Committed b m))"
proof -
  obtain r where r: "alloc_map s aid = Some r"
    using eq by (auto simp: seg_release_resident_slot_holder_def seg_allocation_def bind_eq_Some_conv)
  have refl: "seg_to (set_allocation s aid (r\<lparr>os_state := st\<rparr>)) (set_allocation s aid (r\<lparr>os_state := st\<rparr>))
      (slot_states (set_allocation s aid (r\<lparr>os_state := st\<rparr>)))" for st
    using seg_inv_set_state [OF inv r] by simp
  note step = set_state_maybe_free [OF inv r refl]
  show ?thesis
  proof (cases "os_state r")
    case Prepared
    with eq r show ?thesis by (simp add: seg_release_resident_slot_holder_def seg_allocation_def)
  next
    case (PendingLocalVisible n)
    let ?f = "n - 1 = 0 \<and> os_source_read_lease_count r = 0"
    from eq r PendingLocalVisible
    have "(if ?f then free_allocation (set_allocation s aid (r\<lparr>os_state := PendingLocalVisible (n - 1)\<rparr>)) aid
        else Some (set_allocation s aid (r\<lparr>os_state := PendingLocalVisible (n - 1)\<rparr>))) = Some s'"
      by (cases "0 < n") (auto simp: seg_release_resident_slot_holder_def seg_allocation_def assert_or_panic_def Let_def split: if_splits)
    from pending [OF _ step [OF this]] r PendingLocalVisible show ?thesis by (simp add: slot_states_def)
  next
    case (Committed b n)
    then obtain m where m: "checked_sub n 1 = Some m"
      using eq r by (auto simp: seg_release_resident_slot_holder_def seg_allocation_def bind_eq_Some_conv)
    let ?f = "\<not> b \<and> m = 0 \<and> os_source_read_lease_count r = 0"
    from eq r Committed m
    have "(if ?f then free_allocation (set_allocation s aid (r\<lparr>os_state := Committed b m\<rparr>)) aid
        else Some (set_allocation s aid (r\<lparr>os_state := Committed b m\<rparr>))) = Some s'"
      by (simp add: seg_release_resident_slot_holder_def seg_allocation_def Let_def)
    from committed [OF _ step [OF this]] r Committed show ?thesis by (simp add: slot_states_def)
  qed
qed

lemma seg_release_route_inv:
  assumes inv: "seg_inv s" and eq: "seg_release_committed_slot_route s aid = Some s'"
  shows "\<exists>n st. slot_states s aid = Some (Committed True n) \<and> seg_to s s' ((slot_states s)(aid := st)) \<and>
    (st = None \<or> st = Some (Committed False n))"
proof -
  obtain r where r0: "alloc_map s aid = Some r"
    using eq by (cases "alloc_map s aid") (simp_all add: seg_release_committed_slot_route_def seg_allocation_def)
  then obtain n where r: "alloc_map s aid = Some r" "os_state r = Committed True n"
    using eq by (cases "os_state r")
      (auto simp: seg_release_committed_slot_route_def seg_allocation_def assert_or_panic_def split: if_splits)
  let ?s = "set_allocation s aid (r\<lparr>os_state := Committed False n\<rparr>)"
  from eq r have "(if n = 0 \<and> os_source_read_lease_count r = 0 then free_allocation (mark_manifest_reclaiming ?s aid) aid
      else Some (mark_manifest_reclaiming ?s aid)) = Some s'"
    by (simp add: seg_release_committed_slot_route_def seg_allocation_def assert_or_panic_def Let_def)
  from set_state_maybe_free [OF inv r(1) seg_to_reclaiming [OF seg_inv_set_state [OF inv r(1)]] this]
  have "seg_to s s' ((slot_states s)(aid := (if n = 0 \<and> os_source_read_lease_count r = 0 then None
      else Some (Committed False n))))" .
  moreover have "slot_states s aid = Some (Committed True n)" using r by (simp add: slot_states_def)
  ultimately show ?thesis by (intro exI conjI) (assumption+, simp)
qed

lemma seg_release_committed_resident_inv:
  assumes inv: "seg_inv s" and eq: "seg_release_committed_resident_slot s aid = Some s'"
  shows "\<exists>n st. slot_states s aid = Some (Committed True n) \<and> seg_to s s' ((slot_states s)(aid := st)) \<and>
    (st = None \<or> st = Some (Committed False (n - 1)))"
proof -
  obtain r where r0: "alloc_map s aid = Some r"
    using eq by (cases "alloc_map s aid") (simp_all add: seg_release_committed_resident_slot_def seg_allocation_def)
  then obtain n where r: "alloc_map s aid = Some r" "os_state r = Committed True n" "0 < n"
    using eq by (cases "os_state r")
      (auto simp: seg_release_committed_resident_slot_def seg_allocation_def assert_or_panic_def split: if_splits)
  let ?s = "set_allocation s aid (r\<lparr>os_state := Committed False (n - 1)\<rparr>)"
  from eq r have "(if n - 1 = 0 \<and> os_source_read_lease_count r = 0 then free_allocation (mark_manifest_reclaiming ?s aid) aid
      else Some (mark_manifest_reclaiming ?s aid)) = Some s'"
    by (auto simp: seg_release_committed_resident_slot_def seg_allocation_def assert_or_panic_def Let_def split: if_splits)
  from set_state_maybe_free [OF inv r(1) seg_to_reclaiming [OF seg_inv_set_state [OF inv r(1)]] this]
  have "seg_to s s' ((slot_states s)(aid := (if n - 1 = 0 \<and> os_source_read_lease_count r = 0 then None
      else Some (Committed False (n - 1)))))" .
  moreover have "slot_states s aid = Some (Committed True n)" using r by (simp add: slot_states_def)
  ultimately show ?thesis by (intro exI conjI) (assumption+, simp)
qed

lemma seg_reserve_inv:
  assumes "seg_inv s" "seg_try_reserve_global_demotion s lt key pid aid off cap acc = (s', acc', res)"
  shows "seg_to s s' (slot_states s)"
proof (cases "s' = s")
  case True
  with assms(1) show ?thesis by simp
next
  case False
  with assms(2) obtain e where e: "manifest_by_key s (manifest_key key pid) = Some e"
    "s' = s\<lparr>global_demotion_reservations :=
        AList.update (manifest_key key pid) (me_slot e) (global_demotion_reservations s)\<rparr>"
    by (auto simp: seg_try_reserve_global_demotion_def Let_def split: option.splits if_splits)
  from seg_inv_add_reservation [OF assms(1) e(1)] e(2) show ?thesis
    by (simp add: seg_to_def keeps_cache_def slot_states_def same_segment_def)
qed

end
