(* ===== verification/Owner_Pool_Inv.thy ===== *)
theory Owner_Pool_Inv
  imports Owner_Slots_Ops
begin

text \<open>
  The invariant of the owner's pool and that every operation of \<open>OwnerSegmentAllocator\<close> keeps
  it: the segment state is consistent, the three counters count exactly the slots in each state,
  no identity above the last one handed out is in use, the local target fits the segment, and
  every cached capacity report is the report that would be computed.
\<close>

section \<open>The invariant\<close>

fun is_committed_slot :: "owner_slot_state \<Rightarrow> bool" where
  "is_committed_slot (Committed _ _) = True"
| "is_committed_slot _ = False"

abbreviation is_prepared_slot :: "owner_slot_state \<Rightarrow> bool" where
  "is_prepared_slot st \<equiv> st = Prepared"

definition cache_ok :: "owner_segment_state \<Rightarrow> bool" where
  "cache_ok s \<longleftrightarrow> (\<forall>c \<in> set (allocatable_report_cache s).
     cached_layout_revision c = layout_revision (seg_allocator s) \<longrightarrow>
     (\<exists>raw. seg_total_free_bytes s = Some raw \<and>
        compute_allocatable_report s raw (cached_slot_size c) = Some (cached_report c)))"

definition pool_inv :: "owner_pool \<Rightarrow> bool" where
  "pool_inv p =
     (case segment p of
        None \<Rightarrow> prepared_slots p = 0 \<and> pending_visible_slots p = 0 \<and> committed_slots p = 0
      | Some s \<Rightarrow>
          seg_inv s \<and> cache_ok s \<and> local_target_bytes p \<le> seg_len s \<and>
          prepared_slots p = map_count (slot_states s) is_prepared_slot \<and>
          pending_visible_slots p = map_count (slot_states s) is_pending_local_visible \<and>
          committed_slots p = map_count (slot_states s) is_committed_slot \<and>
          (\<forall>aid \<in> dom (slot_states s). aid \<le> next_allocation_id p))"

lemma pool_invD:
  assumes "pool_inv p" "segment p = Some s"
  shows "seg_inv s" "cache_ok s" "local_target_bytes p \<le> seg_len s"
    "prepared_slots p = map_count (slot_states s) is_prepared_slot"
    "pending_visible_slots p = map_count (slot_states s) is_pending_local_visible"
    "committed_slots p = map_count (slot_states s) is_committed_slot"
    "\<And>aid st. slot_states s aid = Some st \<Longrightarrow> aid \<le> next_allocation_id p"
  using assms by (auto simp: pool_inv_def)

lemma cache_ok_keeps:
  assumes "cache_ok s" "keeps_cache s s'"
  shows "cache_ok s'"
proof (cases "allocatable_report_cache s' = []")
  case False
  then have e: "allocatable_report_cache s' = allocatable_report_cache s" "seg_allocator s' = seg_allocator s"
    using assms(2) by (auto simp: keeps_cache_def)
  then have "seg_total_free_bytes s' = seg_total_free_bytes s"
    "compute_allocatable_report s' = compute_allocatable_report s"
    by (simp_all add: seg_total_free_bytes_def compute_allocatable_report_def fun_eq_iff)
  with assms(1) e show ?thesis by (simp add: cache_ok_def)
qed (simp add: cache_ok_def)

section \<open>How the counters follow a change\<close>

definition wt :: "('a \<Rightarrow> bool) \<Rightarrow> 'a option \<Rightarrow> nat" where
  "wt P x = (case x of None \<Rightarrow> 0 | Some v \<Rightarrow> of_bool (P v))"

lemma wt_simps [simp]: "wt P None = 0" "wt P (Some v) = of_bool (P v)"
  by (simp_all add: wt_def)

lemma map_count_upd:
  assumes "finite (dom m)"
  shows "map_count (m(k := x)) P + wt P (m k) = map_count m P + wt P x"
proof (cases "m k")
  case None
  then have "m(k := None) = m" by (simp add: fun_upd_idem)
  then show ?thesis using None map_count_insert [OF assms None, of _ P] by (cases x) simp_all
next
  case (Some v)
  then show ?thesis
    using map_count_delete [OF assms Some, of P] map_count_update [OF assms Some, of _ P] by (cases x) simp_all
qed

lemma pool_inv_change:
  assumes inv: "pool_inv p" and s: "segment p = Some s" and to: "seg_to s s' ((slot_states s)(aid := x))"
    and p': "segment p' = Some s'" "local_target_bytes p' = local_target_bytes p"
      "next_allocation_id p \<le> next_allocation_id p'" "x \<noteq> None \<longrightarrow> slot_states s aid \<noteq> None \<or> aid \<le> next_allocation_id p'"
    and c: "prepared_slots p' + wt is_prepared_slot (slot_states s aid) = prepared_slots p + wt is_prepared_slot x"
      "pending_visible_slots p' + wt is_pending_local_visible (slot_states s aid) =
         pending_visible_slots p + wt is_pending_local_visible x"
      "committed_slots p' + wt is_committed_slot (slot_states s aid) = committed_slots p + wt is_committed_slot x"
  shows "pool_inv p'"
proof -
  note d = pool_invD [OF inv s]
  note cnt = map_count_upd [OF slot_states_finite, of s aid x]
  have "prepared_slots p' = map_count (slot_states s') is_prepared_slot"
    "pending_visible_slots p' = map_count (slot_states s') is_pending_local_visible"
    "committed_slots p' = map_count (slot_states s') is_committed_slot"
    using c cnt [of is_prepared_slot] cnt [of is_pending_local_visible] cnt [of is_committed_slot] d(4,5,6)
    unfolding seg_toD(3) [OF to] by linarith+
  moreover have "i \<le> next_allocation_id p'" if "slot_states s' i = Some st" for i st
  proof (cases "i = aid")
    case True
    then have "x \<noteq> None" using that by (auto simp: seg_toD(3) [OF to])
    then show ?thesis using True p'(3,4) d(7) [of aid] by fastforce
  next
    case False
    then have "slot_states s i = Some st" using that by (simp add: seg_toD(3) [OF to])
    from d(7) [OF this] p'(3) show ?thesis by linarith
  qed
  moreover have "local_target_bytes p' \<le> seg_len s'"
    using d(3) p'(2) seg_toD(2) [OF to] by (simp add: same_segment_def)
  ultimately show ?thesis
    using seg_toD(1) [OF to] cache_ok_keeps [OF d(2) seg_toD(4) [OF to]] p'(1) by (auto simp: pool_inv_def)
qed

lemma pool_inv_same:
  assumes inv: "pool_inv p" and s: "segment p = Some s" and to: "seg_to s s' (slot_states s)"
  shows "pool_inv (p\<lparr>segment := Some s'\<rparr>)"
proof -
  note d = pool_invD [OF inv s]
  have "local_target_bytes p \<le> seg_len s'"
    using d(3) seg_toD(2) [OF to] by (simp add: same_segment_def)
  then show ?thesis
    using seg_toD(1) [OF to] cache_ok_keeps [OF d(2) seg_toD(4) [OF to]] d(4,5,6,7)
    by (auto simp: pool_inv_def seg_toD(3) [OF to])
qed

text \<open>The bookkeeping fields outside the invariant.\<close>

lemma pool_inv_fields [simp]:
  "pool_inv (p\<lparr>next_lease_sequence := n\<rparr>) = pool_inv p"
  "pool_inv (p\<lparr>failed_claim_slot_sizes := f\<rparr>) = pool_inv p"
  "pool_inv (p\<lparr>claim_progress_epoch := e\<rparr>) = pool_inv p"
  "pool_inv (p\<lparr>controller_epoch := c\<rparr>) = pool_inv p"
  "pool_inv (p\<lparr>requested_size_classes := r\<rparr>) = pool_inv p"
  "pool_inv (p\<lparr>expected_slot_size := o'\<rparr>) = pool_inv p"
  by (cases "segment p"; simp add: pool_inv_def)+

lemma pool_inv_next_id:
  "pool_inv p \<Longrightarrow> next_allocation_id p \<le> n \<Longrightarrow> pool_inv (p\<lparr>next_allocation_id := n\<rparr>)"
  by (cases "segment p") (auto simp: pool_inv_def dest: order_trans)

lemma pool_inv_default: "pool_inv pool_default"
  by (simp add: pool_inv_def pool_default_def)

section \<open>Installation, control, claims\<close>

lemma segment_new_inv:
  assumes eq: "segment_new owner epoch base addr len = Some (Inr s)" and fits: "addr + len \<le> u64_bound"
  shows "seg_inv s" "slot_states s = Map.empty" "seg_len s = len" "allocatable_report_cache s = []"
    "0 < len" "source_leases s = []"
proof -
  let ?n = "min (saturating_add u32_bound (len div GRANULARITY) 2) (128 * 1024)"
  from eq have c: "0 < len" "len mod GRANULARITY = 0" "len div GRANULARITY < u32_bound"
    by (auto simp: segment_new_def assert_or_panic_def split: if_splits)
  from eq c obtain a where a: "with_max_allocs (len div GRANULARITY) ?n = Some a" and
    s: "s = \<lparr>seg_owner = owner, seg_registration_epoch = epoch, seg_base_addr = base,
             seg_addr = addr, seg_len = len, seg_allocator = a, allocatable_report_cache = [],
             allocations = [], allocations_by_offset = Map.empty, manifest_by_key = Map.empty,
             manifest_key_by_allocation = Map.empty, source_leases = [], target_leases = Map.empty,
             global_demotion_reservations = [], seg_physical_free_epoch = 0\<rparr>"
    by (auto simp: segment_new_def assert_or_panic_def bind_eq_Some_conv Let_def split: if_splits)
  have "1 \<le> len div GRANULARITY" using c(1,2) by (auto simp: Suc_le_eq div_greater_zero_iff dest: mod_less)
  then have "2 \<le> ?n" "?n < u32_bound - 2" using c(3) by (simp_all add: saturating_add_def)
  from with_max_allocs_rep [OF this c(3)] a obtain bs L where "alloc_rep a bs L" "pristine a" "alloc_size a = len div GRANULARITY"
    by auto
  then have "alloc_inv a" "live a = {}" "GRANULARITY * alloc_size a = len"
    using c(2) by (auto simp: alloc_inv_def pristine_def)
  then show "seg_inv s"
    using fits by (simp add: s seg_inv_def phys_ok_def man_ok_def lease_ok_def res_ok_def geom_def)
  show "slot_states s = Map.empty" "seg_len s = len" "allocatable_report_cache s = []" "0 < len" "source_leases s = []"
    using c by (simp_all add: s slot_states_def)
qed

lemma install_segment_inv:
  assumes "pool_inv p" "install_segment p owner epoch base addr len target expected = Some (p', res)"
    and "addr + len \<le> u64_bound"
  shows "pool_inv p'"
proof (cases "p' = p")
  case False
  with assms(2) obtain c where c: "segment_new owner epoch base addr len = Some c" "segment p = None" "target \<le> len"
    by (auto simp: install_segment_def bind_eq_Some_conv split: if_splits)
  with False assms(2) obtain s where s: "segment_new owner epoch base addr len = Some (Inr s)"
    and p': "segment p' = Some s" "local_target_bytes p' = target" "prepared_slots p' = prepared_slots p"
      "pending_visible_slots p' = pending_visible_slots p" "committed_slots p' = committed_slots p"
    by (cases c) (auto simp: install_segment_def)
  with segment_new_inv [OF s assms(3)] assms(1) c show ?thesis by (simp add: pool_inv_def cache_ok_def)
qed (use assms in simp)

lemma apply_target_control_inv:
  assumes "pool_inv p"
  shows "pool_inv (fst (apply_target_control p epoch target))"
proof (cases "segment p")
  case None
  with assms show ?thesis by (simp add: apply_target_control_def)
next
  case (Some s)
  have "pool_inv (p\<lparr>local_target_bytes := target, controller_epoch := epoch\<rparr>)" if "target \<le> seg_len s"
    using assms Some that by (auto simp: pool_inv_def)
  then show ?thesis using assms Some by (auto simp: apply_target_control_def split: option.splits)
qed

text \<open>A claimed descriptor names a live prepared slot of the segment.\<close>

definition prepared_desc :: "owner_pool \<Rightarrow> owner_slot_desc \<Rightarrow> bool" where
  "prepared_desc p slot \<longleftrightarrow> (\<exists>s. segment p = Some s \<and> identity_matches_desc s slot \<and>
     slot_states s (slot_allocation_id slot) = Some Prepared)"

lemma identity_kept:
  assumes to: "seg_to s s' ((slot_states s)(aid \<mapsto> st))" and inv: "seg_inv s" and ne: "slot_states s aid = None"
    and eq: "claim_prepared_slot s cap vlen aid = Some (s', res)"
    and "identity_matches_desc s slot"
  shows "identity_matches_desc s' slot"
proof -
  from claim_prepared_slot_inv [OF inv eq] have am: "\<exists>r. alloc_map s' = (alloc_map s)(aid \<mapsto> r)"
  proof (cases res)
    case None
    with claim_prepared_slot_inv [OF inv eq] have "s' = s" by simp
    with to ne have False by (auto simp: seg_to_def fun_eq_iff split: if_splits)
    then show ?thesis ..
  qed auto
  then obtain r where "geom s' = (geom s)(aid \<mapsto> slot_geometry r)" by (auto simp: geom_def fun_eq_iff)
  from identity_grow [OF seg_toD(2) [OF to] this _ assms(5)] ne show ?thesis
    by (simp add: geom_None slot_states_None)
qed

lemma claim_loop_inv:
  assumes "claim_loop p slot_size vlen n slots = Some (p', slots')" "pool_inv p"
    "\<forall>slot \<in> set slots. prepared_desc p slot"
  shows "pool_inv p' \<and> (\<forall>slot \<in> set slots'. prepared_desc p' slot)"
  using assms
proof (induction n arbitrary: p slots)
  case (Suc n)
  show ?case
  proof (cases "segment p")
    case None
    with Suc.prems show ?thesis by simp
  next
    case (Some s)
    let ?i = "next_allocation_id p + 1"
    from Suc.prems(1) Some obtain s' res where bnd: "?i < u64_bound"
      and cl: "claim_prepared_slot s slot_size vlen ?i = Some (s', res)"
      by (auto simp: bind_eq_Some_conv checked_add_def split: if_splits)
    have pi: "pool_inv (p\<lparr>next_allocation_id := ?i\<rparr>)" by (rule pool_inv_next_id [OF Suc.prems(2)]) simp
    note inv = pool_invD(1) [OF Suc.prems(2) Some]
    show ?thesis
    proof (cases res)
      case None
      with seg_to_claim [OF inv cl] have "s' = s" by simp
      moreover have "p\<lparr>next_allocation_id := ?i, segment := Some s\<rparr> = p\<lparr>next_allocation_id := ?i\<rparr>"
        using Some by (cases p) simp
      ultimately have "p' = p\<lparr>next_allocation_id := ?i\<rparr>" "slots' = slots"
        using Suc.prems(1) Some cl bnd None by (auto simp: checked_add_def Let_def)
      with pi Suc.prems(3) show ?thesis by (simp add: prepared_desc_def)
    next
      case (Some slot)
      note new = seg_to_claim [OF inv cl, unfolded Some option.case]
      from Suc.prems(1) \<open>segment p = Some s\<close> cl bnd Some have
        rest: "claim_loop (p\<lparr>next_allocation_id := ?i, segment := Some s', prepared_slots := prepared_slots p + 1\<rparr>)
          slot_size vlen n (slots @ [slot]) = Some (p', slots')"
        by (auto simp: bind_eq_Some_conv checked_add_def Let_def split: if_splits)
      show ?thesis
      proof (rule Suc.IH [OF rest])
        show "pool_inv (p\<lparr>next_allocation_id := ?i, segment := Some s', prepared_slots := prepared_slots p + 1\<rparr>)"
          by (rule pool_inv_change [OF Suc.prems(2) \<open>segment p = Some s\<close>, of s' ?i "Some Prepared"])
            (use new in simp_all)
        show "\<forall>x \<in> set (slots @ [slot]). prepared_desc
            (p\<lparr>next_allocation_id := ?i, segment := Some s', prepared_slots := prepared_slots p + 1\<rparr>) x"
        proof
          fix x assume "x \<in> set (slots @ [slot])"
          then consider "x \<in> set slots" | "x = slot" by auto
          then show "prepared_desc
            (p\<lparr>next_allocation_id := ?i, segment := Some s', prepared_slots := prepared_slots p + 1\<rparr>) x"
          proof cases
            case 1
            then have "identity_matches_desc s x" "slot_states s (slot_allocation_id x) = Some Prepared"
              using Suc.prems(3) \<open>segment p = Some s\<close> by (auto simp: prepared_desc_def)
            with new identity_kept [OF _ inv _ cl] show ?thesis
              by (auto simp: prepared_desc_def seg_to_def)
          next
            case 2
            with new show ?thesis by (auto simp: prepared_desc_def seg_to_def)
          qed
        qed
      qed
    qed
  qed
qed simp

lemma claim_available_inv:
  assumes "pool_inv p" "claim_available_with_len p slot_size vlen n = Some (p', slots)"
  shows "pool_inv p'" "\<forall>slot \<in> set slots. prepared_desc p' slot"
  using claim_loop_inv [of p slot_size vlen n "[]"] assms
  by (auto simp: claim_available_with_len_def bind_eq_Some_conv)

lemma claim_value_inv:
  assumes "pool_inv p" "claim_value p vlen n = Some (p', slots)"
  shows "pool_inv p'"
  using assms claim_available_inv by (auto simp: claim_value_def split: option.splits)

section \<open>Source leases\<close>

lemma allocate_lease_id_frame:
  assumes "allocate_lease_id p = (p', res)"
  shows "segment p' = segment p" "pool_inv p' = pool_inv p"
  using assms by (auto simp: allocate_lease_id_def split: option.splits)

lemma acquire_source_inv:
  assumes inv: "pool_inv p" and eq: "acquire_source p op tok = Some (p', out)"
  shows "pool_inv p'"
proof -
  define q where "q = (case (case segment p of None \<Rightarrow> None
      | Some s \<Rightarrow> map_option sl_lease_id (src_map s op)) of
        Some lid \<Rightarrow> (p, Inr lid) | None \<Rightarrow> allocate_lease_id p)"
  obtain p1 l where q: "q = (p1, l)" by (cases q)
  have p1: "pool_inv p1" "segment p1 = segment p"
    using inv q allocate_lease_id_frame by (auto simp: q_def split: option.splits)
  show ?thesis
  proof (cases l)
    case (Inl e)
    then have "p' = p1" using eq q unfolding q_def acquire_source_def by (simp add: Let_def)
    then show ?thesis using p1 by simp
  next
    case (Inr lid)
    with eq q obtain s s' where s: "segment p1 = Some s" "seg_acquire_source s op tok lid = Some (s', out)"
      "p' = p1\<lparr>segment := Some s'\<rparr>"
      unfolding q_def acquire_source_def by (auto simp: Let_def bind_eq_Some_conv split: option.splits)
    show ?thesis
      unfolding s(3) by (rule pool_inv_same [OF p1(1) s(1) seg_acquire_source_inv [OF pool_invD(1) [OF p1(1) s(1)] s(2)]])
  qed
qed

lemma release_source_inv:
  assumes inv: "pool_inv p" and eq: "release_source p op lid oc = Some (p', out)"
  shows "pool_inv p'"
proof (cases "segment p")
  case None
  with inv eq show ?thesis by (simp add: release_source_def)
next
  case (Some s)
  with eq obtain s' n where r: "seg_release_source s op lid oc = Some (s', out)"
    "(if length (allocations s') < length (allocations s) then checked_sub (committed_slots p) 1
      else Some (committed_slots p)) = Some n"
    "p' = p\<lparr>segment := Some s', committed_slots := n\<rparr>"
    by (auto simp: release_source_def bind_eq_Some_conv)
  from pool_invD(1) [OF inv Some] r(1) show ?thesis
  proof (cases rule: seg_release_source_inv)
    case kept
    then have "n = committed_slots p" using r(2) by simp
    then have "p' = p\<lparr>segment := Some s'\<rparr>" using r(3) by (cases p) simp
    with pool_inv_same [OF inv Some kept(1)] show ?thesis by simp
  next
    case (freed aid)
    then have "n + 1 = committed_slots p" using r(2) by (auto simp: checked_sub_def split: if_splits)
    then show ?thesis
      unfolding r(3) by (intro pool_inv_change [OF inv Some freed(1)]) (simp_all add: freed(2))
  qed
qed

section \<open>Target leases\<close>

lemma release_prepared_slot_inv:
  assumes inv: "pool_inv p" and eq: "pool_release_prepared_slot p aid off cap = Some (p', b)"
  shows "pool_inv p'"
proof (cases "p' = p")
  case False
  with eq obtain s s' n where s: "segment p = Some s" "seg_release_prepared_slot s aid = Some s'"
    "checked_sub (prepared_slots p) 1 = Some n" "p' = p\<lparr>segment := Some s', prepared_slots := n\<rparr>"
    by (auto simp: pool_release_prepared_slot_def bind_eq_Some_conv split: option.splits if_splits)
  note rel = seg_release_prepared_inv [OF pool_invD(1) [OF inv s(1)] s(2)]
  show ?thesis
    unfolding s(4) by (rule pool_inv_change [OF inv s(1) rel(2)])
      (use s(3) rel(1) in \<open>auto simp: checked_sub_def split: if_splits\<close>)
qed (use inv in simp)

text \<open>Installing a manifest entry for a claimed slot and recording its lease.\<close>

lemma install_target_inv:
  assumes inv: "pool_inv p" and s: "segment p = Some s" and eq: "install_manifest_entry s entry = (s', res)"
  shows "pool_inv (p\<lparr>segment := Some (insert_target_lease s' op r)\<rparr>)" "pool_inv (p\<lparr>segment := Some s'\<rparr>)"
proof -
  note si = pool_invD(1) [OF inv s]
  have to: "seg_to s s' (slot_states s)" using seg_to_install_manifest [OF si, of entry] eq by simp
  have "seg_to s' (insert_target_lease s' op r) (slot_states s')"
    unfolding insert_target_lease_def by (rule seg_to_target_leases [OF seg_toD(1) [OF to]])
  then have "seg_to s (insert_target_lease s' op r) (slot_states s)"
    using seg_to_trans [OF to] seg_toD(3) [OF to] by simp
  then show "pool_inv (p\<lparr>segment := Some (insert_target_lease s' op r)\<rparr>)" by (rule pool_inv_same [OF inv s])
  show "pool_inv (p\<lparr>segment := Some s'\<rparr>)" by (rule pool_inv_same [OF inv s to])
qed

lemma release_after_install_inv:
  assumes inv: "pool_inv p" and s: "segment p = Some s" and eq: "install_manifest_entry s entry = (s', res)"
    and rel: "seg_release_prepared_slot s' aid = Some s''" and n: "checked_sub (prepared_slots p) 1 = Some n"
  shows "pool_inv (p\<lparr>segment := Some s'', prepared_slots := n\<rparr>)"
proof -
  have to: "seg_to s s' (slot_states s)"
    using seg_to_install_manifest [OF pool_invD(1) [OF inv s], of entry] eq by simp
  note rel' = seg_release_prepared_inv [OF seg_toD(1) [OF to] rel]
  have "seg_to s s'' ((slot_states s)(aid := None))"
    using seg_to_trans [OF to rel'(2)] seg_toD(3) [OF to] by simp
  then show ?thesis
    by (rule pool_inv_change [OF inv s])
      (use n rel'(1) seg_toD(3) [OF to] in \<open>auto simp: checked_sub_def split: if_splits\<close>)
qed

lemma prepare_target_cases:
  assumes eq: "prepare_target p op tgt key pid len disp batch = Some (p', out)"
  obtains (same) "p' = p" "\<And>l slot v. out = TargetPrepared l slot v \<Longrightarrow>
       \<exists>s e. segment p = Some s \<and> target_leases s op = Some e \<and> prepared_replay e = out"
  | (claimed) s slot_size p1 slots where "segment p = Some s" "target_leases s op = None" "tgt = seg_owner s"
      "owner_segment_allocation_capacity_bytes len = Some slot_size"
      "\<not> (disp = GlobalShared \<and> global_budget_full p s slot_size)" "seg_manifest_entry s key pid = None"
      "claim_available_with_len p slot_size len 1 = Some (p1, slots)"
      "(case slots of [] \<Rightarrow> Some (p1, error_outcome NoSpace)
        | _ \<Rightarrow> lease_claimed_target p1 op key pid len disp batch (last slots)) = Some (p', out)"
proof -
  show ?thesis
  proof (cases "segment p")
    case None
    with eq show ?thesis by (intro same) (auto simp: prepare_target_def)
  next
    case s: (Some s)
    show ?thesis
    proof (cases "tgt = seg_owner s")
      case False
      with eq s show ?thesis by (intro same) (auto simp: prepare_target_def)
    next
      case tgt: True
      show ?thesis
      proof (cases "target_leases s op")
        case (Some e)
        with eq s tgt show ?thesis by (intro same) (auto simp: prepare_target_def split: if_splits)
      next
        case None
        show ?thesis
        proof (cases "\<not> owner_transfer_op_id_is_initialized op \<or> key = [] \<or> len = 0 \<or> seg_manifest_entry s key pid \<noteq> None")
          case True
          with eq s tgt None show ?thesis by (intro same) (auto simp: prepare_target_def split: if_splits)
        next
          case ok: False
          show ?thesis
          proof (cases "owner_segment_allocation_capacity_bytes len")
            case None
            with eq s tgt ok \<open>target_leases s op = None\<close> show ?thesis
              by (intro same) (auto simp: prepare_target_def)
          next
            case cap: (Some slot_size)
            show ?thesis
            proof (cases "disp = GlobalShared \<and> global_budget_full p s slot_size")
              case True
              with eq s tgt ok \<open>target_leases s op = None\<close> cap show ?thesis
                by (intro same) (auto simp: prepare_target_def)
            next
              case False
              from eq s tgt ok \<open>target_leases s op = None\<close> cap False obtain p1 slots where
                cl: "claim_available_with_len p slot_size len 1 = Some (p1, slots)"
                by (auto simp: prepare_target_def bind_eq_Some_conv)
              have neg: "(disp = GlobalShared \<and> global_budget_full p s slot_size) = False" using False by blast
              show ?thesis
                by (rule claimed [OF s \<open>target_leases s op = None\<close> tgt cap False _ cl])
                  (use eq s tgt ok \<open>target_leases s op = None\<close> cap cl in
                    \<open>simp_all add: prepare_target_def neg del: One_nat_def\<close>)
            qed
          qed
        qed
      qed
    qed
  qed
qed

lemma lease_claimed_target_inv:
  assumes inv: "pool_inv p" and eq: "lease_claimed_target p op key pid len disp batch slot = Some (p', out)"
  shows "pool_inv p'"
proof -
  obtain p1 l where l: "allocate_lease_id p = (p1, l)" by (cases "allocate_lease_id p")
  have inv1: "pool_inv p1" using allocate_lease_id_frame [OF l] inv by simp
  show ?thesis
  proof (cases l)
    case (Inl e)
    with eq l obtain b where "pool_release_prepared_slot p1 (slot_allocation_id slot)
             (slot_segment_offset slot) (slot_capacity_bytes slot) = Some (p', b)"
      by (auto simp: lease_claimed_target_def bind_eq_Some_conv)
    then show ?thesis by (rule release_prepared_slot_inv [OF inv1])
  next
    case (Inr lid)
    let ?e = "\<lparr>me_key = key, me_put_id = pid, me_slot = slot, me_scope = disposition_scope disp,
      me_disposition = disp, me_route_epoch = 0, me_physical_state = ReservedPhysical\<rparr>"
    obtain s where s: "segment p1 = Some s"
      using eq l Inr by (auto simp: lease_claimed_target_def bind_eq_Some_conv)
    obtain s' res where ins: "install_manifest_entry s ?e = (s', res)" by (cases "install_manifest_entry s ?e")
    show ?thesis
    proof (cases res)
      case (Inl e)
      with eq l \<open>l = Inr lid\<close> s ins obtain s'' n where
        "seg_release_prepared_slot s' (slot_allocation_id slot) = Some s''"
        "checked_sub (prepared_slots p1) 1 = Some n" "p' = p1\<lparr>segment := Some s'', prepared_slots := n\<rparr>"
        by (auto simp: lease_claimed_target_def bind_eq_Some_conv)
      with release_after_install_inv [OF inv1 s ins] show ?thesis by simp
    next
      case r: (Inr u)
      with eq l Inr s ins install_target_inv(1) [OF inv1 s ins] show ?thesis
        by (auto simp: lease_claimed_target_def)
    qed
  qed
qed

lemma prepare_target_inv:
  assumes inv: "pool_inv p" and eq: "prepare_target p op tgt key pid len disp batch = Some (p', out)"
  shows "pool_inv p'"
  using eq
proof (cases rule: prepare_target_cases)
  case (claimed s slot_size p1 slots)
  note inv1 = claim_available_inv(1) [OF inv claimed(7)]
  show ?thesis
    using claimed(8) inv1 lease_claimed_target_inv [OF inv1] by (cases slots) auto
qed (use inv in simp)

lemma prepare_claimed_get_target_inv:
  assumes inv: "pool_inv p" and eq: "prepare_claimed_get_target p op key pid batch slot = Some (p', out)"
  shows "pool_inv p'"
proof (cases "p' = p")
  case False
  with eq obtain s where s: "segment p = Some s" and none: "target_leases s op = None"
    by (auto simp: prepare_claimed_get_target_def split: option.splits if_splits)
  obtain p1 l where l: "allocate_lease_id p = (p1, l)" by (cases "allocate_lease_id p")
  have inv1: "pool_inv p1" "segment p1 = Some s" using allocate_lease_id_frame [OF l] inv s by simp_all
  let ?e = "\<lparr>me_key = key, me_put_id = pid, me_slot = slot, me_scope = Some LocalExclusiveScope,
      me_disposition = LocalExclusive, me_route_epoch = 0, me_physical_state = ReservedPhysical\<rparr>"
  obtain s' res where ins: "install_manifest_entry s ?e = (s', res)" by (cases "install_manifest_entry s ?e")
  note i = install_target_inv [OF inv1 ins]
  consider "p' = p1" | "p' = p1\<lparr>segment := Some s'\<rparr>" | r where "p' = p1\<lparr>segment := Some (insert_target_lease s' op r)\<rparr>"
    using eq False s none l inv1(2) ins
    by (cases l; cases res) (auto simp: prepare_claimed_get_target_def Let_def split: if_splits)
  then show ?thesis using inv1(1) i by cases simp_all
qed (use inv in simp)

text \<open>Advancing a target lease writes its state and its slot's manifest entry.\<close>

lemma advance_lease_to:
  assumes "seg_to s s0 m" "update_manifest_by_allocation s0 aid f = Some s1" "set_target_state s1 op st = Some s2"
    and "\<And>e. me_key (f e) = me_key e \<and> me_put_id (f e) = me_put_id e \<and> me_slot (f e) = me_slot e"
  shows "seg_to s s2 m"
proof -
  note u = seg_to_update_manifest [OF seg_toD(1) [OF assms(1)] assms(2,4)]
  have "seg_to s s1 m" using seg_to_trans [OF assms(1) u] seg_toD(3) [OF assms(1)] by simp
  moreover have "seg_to s1 s2 (slot_states s1)" by (rule seg_to_set_target [OF seg_toD(1) [OF u] assms(3)])
  ultimately show ?thesis using seg_to_trans seg_toD(3) by metis
qed

lemma advance_lease_inv:
  assumes inv: "pool_inv p" and s: "segment p = Some s" and "set_target_state s op st = Some s1"
    and "update_manifest_by_allocation s1 aid f = Some s2"
    and "\<And>e. me_key (f e) = me_key e \<and> me_put_id (f e) = me_put_id e \<and> me_slot (f e) = me_slot e"
  shows "pool_inv (p\<lparr>segment := Some s2\<rparr>)"
proof -
  have t: "seg_to s s1 (slot_states s)" by (rule seg_to_set_target [OF pool_invD(1) [OF inv s] assms(3)])
  from seg_to_trans [OF t seg_to_update_manifest [OF seg_toD(1) [OF t] assms(4,5)]] seg_toD(3) [OF t]
  show ?thesis by (intro pool_inv_same [OF inv s]) simp
qed

lemma mark_target_data_ready_inv:
  assumes inv: "pool_inv p" and eq: "mark_target_data_ready p op lid rc = Some (p', out)"
  shows "pool_inv p'"
proof (cases "p' = p")
  case False
  with eq obtain s e where s: "segment p = Some s" "target_leases s op = Some e"
    by (auto simp: mark_target_data_ready_def split: option.splits)
  with eq False obtain s1 s2 where "set_target_state s op (TargetDataReadyState rc) = Some s1"
    "update_manifest_by_allocation s1 (slot_allocation_id (tl_slot e))
       (\<lambda>e. e\<lparr>me_physical_state := DataReadyPhysical\<rparr>) = Some s2" "p' = p\<lparr>segment := Some s2\<rparr>"
    by (cases "tl_state e") (auto simp: mark_target_data_ready_def bind_eq_Some_conv split: if_splits)
  with advance_lease_inv [OF inv s(1)] show ?thesis by simp
qed (use inv in simp)

lemma begin_target_commit_inv:
  assumes inv: "pool_inv p" and eq: "begin_target_commit p op lid rc tok = Some (p', out)"
  shows "pool_inv p'"
proof (cases "p' = p")
  case False
  with eq obtain s e where s: "segment p = Some s" "target_leases s op = Some e"
    by (auto simp: begin_target_commit_def split: option.splits)
  with eq False obtain s1 s2 where "set_target_state s op (TargetRoutePendingState rc tok) = Some s1"
    "update_manifest_by_allocation s1 (slot_allocation_id (tl_slot e))
       (\<lambda>e. e\<lparr>me_physical_state := RoutePendingPhysical\<rparr>) = Some s2" "p' = p\<lparr>segment := Some s2\<rparr>"
    by (cases "tl_state e"; cases "route_token_error op e tok")
      (auto simp: begin_target_commit_def bind_eq_Some_conv split: if_splits)
  with advance_lease_inv [OF inv s(1)] show ?thesis by simp
qed (use inv in simp)

lemma begin_data_ready_get_inv:
  assumes inv: "pool_inv p" and eq: "begin_data_ready_get_target_commit p cap = Some (p', out)"
  shows "pool_inv p'"
proof (cases "p' = p")
  case False
  with eq obtain s e where s: "segment p = Some s" "target_leases s (wc_operation cap) = Some e"
    by (auto simp: begin_data_ready_get_target_commit_def split: option.splits)
  with eq False obtain rc s1 s2 where "set_target_state s (wc_operation cap) (TargetRoutePendingState rc None) = Some s1"
    "update_manifest_by_allocation s1 (slot_allocation_id (tl_slot e))
       (\<lambda>e. e\<lparr>me_physical_state := RoutePendingPhysical\<rparr>) = Some s2" "p' = p\<lparr>segment := Some s2\<rparr>"
    by (cases "tl_state e") (auto simp: begin_data_ready_get_target_commit_def bind_eq_Some_conv split: if_splits)
  with advance_lease_inv [OF inv s(1)] show ?thesis by simp
qed (use inv in simp)

lemma abort_data_ready_visible_inv:
  assumes inv: "pool_inv p" and eq: "abort_data_ready_visible_get_target p op lid why = Some (p', out)"
  shows "pool_inv p'"
proof (cases "p' = p")
  case False
  with eq obtain s e where s: "segment p = Some s" "target_leases s op = Some e"
    by (auto simp: abort_data_ready_visible_get_target_def split: option.splits)
  with eq False obtain s1 s2 where "set_target_state s op (TargetAbortedState why) = Some s1"
    "update_manifest_by_allocation s1 (slot_allocation_id (tl_slot e))
       (\<lambda>e. e\<lparr>me_physical_state := ReclaimingPhysical\<rparr>) = Some s2" "p' = p\<lparr>segment := Some s2\<rparr>"
    by (cases "tl_state e")
      (auto simp: abort_data_ready_visible_get_target_def Let_def bind_eq_Some_conv split: if_splits)
  with advance_lease_inv [OF inv s(1)] show ?thesis by simp
qed (use inv in simp)

lemma finish_target_commit_inv:
  assumes inv: "pool_inv p" and eq: "finish_target_commit p op lid epoch = Some (p', out)"
  shows "pool_inv p'"
proof (cases "p' = p")
  case False
  with eq obtain s e where s: "segment p = Some s" "target_leases s op = Some e"
    by (auto simp: finish_target_commit_def split: option.splits)
  let ?i = "slot_allocation_id (tl_slot e)" and ?b = "persistent (tl_disposition e)"
  from s eq False obtain r s1 s2 n c where r: "alloc_map s ?i = Some r" "os_state r = Prepared"
    and u: "update_manifest_by_allocation (set_allocation s ?i (r\<lparr>os_state := Committed ?b (if ?b then 0 else 1)\<rparr>)) ?i
       (\<lambda>e. e\<lparr>me_physical_state := CommittedPhysical, me_route_epoch := epoch\<rparr>) = Some s1"
      "set_target_state s1 op (TargetCommittedState epoch) = Some s2"
    and n: "checked_sub (prepared_slots p) 1 = Some n" "checked_add u64_bound (committed_slots p) 1 = Some c"
      "p' = p\<lparr>segment := Some s2, prepared_slots := n, committed_slots := c\<rparr>"
    by (cases "tl_state e")
      (auto simp: finish_target_commit_def seg_allocation_def Let_def bind_eq_Some_conv split: if_splits)
  have st: "slot_states s ?i = Some Prepared" using r by (simp add: slot_states_def)
  note to = advance_lease_to [OF seg_to_set_state [OF pool_invD(1) [OF inv s(1)] r(1)] u]
  show ?thesis
    unfolding n(3) by (rule pool_inv_change [OF inv s(1) to])
      (use n(1,2) st in \<open>auto simp: checked_sub_def checked_add_def split: if_splits\<close>)
qed (use inv in simp)

lemma finish_data_ready_get_inv:
  assumes inv: "pool_inv p" and eq: "finish_data_ready_get_target p op lid epoch = Some (p', out)"
  shows "pool_inv p'"
proof (cases "p' = p")
  case False
  with eq obtain s e where s: "segment p = Some s" "target_leases s op = Some e"
    by (auto simp: finish_data_ready_get_target_def split: option.splits)
  let ?i = "slot_allocation_id (tl_slot e)"
  from s eq False obtain s0 s1 s2 n c where pr: "seg_promote_pending_visible_slot_to_committed s ?i = Some s0"
    and u: "update_manifest_by_allocation s0 ?i
       (\<lambda>e. e\<lparr>me_physical_state := CommittedPhysical, me_route_epoch := epoch\<rparr>) = Some s1"
      "set_target_state s1 op (TargetCommittedState epoch) = Some s2"
    and n: "checked_sub (pending_visible_slots p) 1 = Some n" "checked_add u64_bound (committed_slots p) 1 = Some c"
      "p' = p\<lparr>segment := Some s2, pending_visible_slots := n, committed_slots := c\<rparr>"
    by (cases "tl_state e")
      (auto simp: finish_data_ready_get_target_def Let_def bind_eq_Some_conv split: if_splits)
  from seg_promote_inv [OF pool_invD(1) [OF inv s(1)] pr] obtain k where
    st: "slot_states s ?i = Some (PendingLocalVisible k)" and to0: "seg_to s s0 ((slot_states s)(?i \<mapsto> Committed True k))"
    by blast
  note to = advance_lease_to [OF to0 u]
  show ?thesis
    unfolding n(3) by (rule pool_inv_change [OF inv s(1) to])
      (use n(1,2) st in \<open>auto simp: checked_sub_def checked_add_def split: if_splits\<close>)
qed (use inv in simp)

lemma abort_prepared_inv:
  assumes inv: "pool_inv p" and s: "segment p = Some s" and eq: "abort_prepared p s op aid why = Some (p', out)"
  shows "pool_inv p'"
proof -
  from eq obtain s1 s2 n where a: "set_target_state s op (TargetAbortedState why) = Some s1"
    "seg_release_prepared_slot s1 aid = Some s2" "checked_sub (prepared_slots p) 1 = Some n"
    "p' = p\<lparr>segment := Some s2, prepared_slots := n\<rparr>"
    by (auto simp: abort_prepared_def bind_eq_Some_conv)
  have t: "seg_to s s1 (slot_states s)" by (rule seg_to_set_target [OF pool_invD(1) [OF inv s] a(1)])
  note rel = seg_release_prepared_inv [OF seg_toD(1) [OF t] a(2)]
  have "seg_to s s2 ((slot_states s)(aid := None))" using seg_to_trans [OF t rel(2)] seg_toD(3) [OF t] by simp
  then show ?thesis
    unfolding a(4) by (rule pool_inv_change [OF inv s])
      (use a(3) rel(1) seg_toD(3) [OF t] in \<open>auto simp: checked_sub_def split: if_splits\<close>)
qed

lemma abort_target_inv:
  assumes inv: "pool_inv p" and eq: "abort_target p op lid why = Some (p', out)"
  shows "pool_inv p'"
proof (cases "p' = p")
  case False
  with eq obtain s e where s: "segment p = Some s" "target_leases s op = Some e"
    by (auto simp: abort_target_def split: option.splits)
  with eq False have "abort_prepared p s op (slot_allocation_id (tl_slot e)) why = Some (p', out)"
    by (cases "tl_state e") (auto simp: abort_target_def split: if_splits)
  then show ?thesis by (rule abort_prepared_inv [OF inv s(1)])
qed (use inv in simp)

lemma abort_route_rejected_inv:
  assumes inv: "pool_inv p" and eq: "abort_route_rejected_target p op lid why = Some (p', out)"
  shows "pool_inv p'"
proof (cases "p' = p")
  case False
  with eq obtain s e where s: "segment p = Some s" "target_leases s op = Some e"
    by (auto simp: abort_route_rejected_target_def split: option.splits)
  with eq False have "abort_prepared p s op (slot_allocation_id (tl_slot e)) why = Some (p', out)"
    by (cases "tl_state e") (auto simp: abort_route_rejected_target_def split: if_splits)
  then show ?thesis by (rule abort_prepared_inv [OF inv s(1)])
qed (use inv in simp)

section \<open>Scopes and reservations\<close>

lemma install_committed_manifest_inv:
  assumes inv: "pool_inv p"
  shows "pool_inv (fst (install_committed_manifest p key pid aid scope epoch))"
proof (cases "fst (install_committed_manifest p key pid aid scope epoch) = p")
  case False
  then obtain s slot where s: "segment p = Some s" "slot_desc s aid = Some slot"
    by (auto simp: install_committed_manifest_def split: option.splits)
  let ?e = "\<lparr>me_key = key, me_put_id = pid, me_slot = slot, me_scope = Some scope,
     me_disposition = scope_disposition scope, me_route_epoch = epoch, me_physical_state = CommittedPhysical\<rparr>"
  obtain s' res where ins: "install_manifest_entry s ?e = (s', res)" by (cases "install_manifest_entry s ?e")
  from False s ins have "fst (install_committed_manifest p key pid aid scope epoch) = p\<lparr>segment := Some s'\<rparr>"
    by (auto simp: install_committed_manifest_def split: option.splits owner_slot_state.splits bool.splits sum.splits)
  with install_target_inv(2) [OF inv s(1) ins] show ?thesis by simp
qed (use inv in simp)

lemma seg_to_manifest_entry:
  assumes "seg_inv s" "manifest_by_key s k = Some e" "me_key e' = me_key e" "me_put_id e' = me_put_id e" "me_slot e' = me_slot e"
  shows "seg_to s (s\<lparr>manifest_by_key := (manifest_by_key s)(k \<mapsto> e')\<rparr>) (slot_states s)"
  using seg_inv_manifest_entry [OF assms] by (simp add: seg_to_def keeps_cache_def slot_states_def same_segment_def)

lemma update_scope_inv:
  assumes inv: "pool_inv p"
  shows "pool_inv (fst (update_committed_manifest_scope_inner p key pid aid off cap scope allow))"
proof (cases "fst (update_committed_manifest_scope_inner p key pid aid off cap scope allow) = p")
  case False
  then obtain s e where s: "segment p = Some s" "manifest_by_key s (manifest_key key pid) = Some e"
    by (auto simp: update_committed_manifest_scope_inner_def split: option.splits)
  from pool_inv_same [OF inv s(1) seg_to_manifest_entry [OF pool_invD(1) [OF inv s(1)] s(2)]] False s
  show ?thesis by (simp add: update_committed_manifest_scope_inner_def inv)
qed (use inv in simp)

lemma reserve_each_inv:
  assumes "seg_inv s" "reserve_each s lt acc reqs = (s', res)"
  shows "seg_to s s' (slot_states s)"
  using assms
proof (induction s lt acc reqs arbitrary: s' res rule: reserve_each.induct)
  case (2 s lt acc key pid aid off cap rest)
  obtain s1 acc1 r1 where one: "seg_try_reserve_global_demotion s lt key pid aid off cap acc = (s1, acc1, r1)"
    by (metis prod_cases3)
  obtain s2 rs where more: "reserve_each s1 lt acc1 rest = (s2, rs)" by (cases "reserve_each s1 lt acc1 rest")
  note to1 = seg_reserve_inv [OF "2.prems"(1) one]
  have "s' = s2" using "2.prems"(2) one more by simp
  with "2.IH" [OF one [symmetric] refl refl seg_toD(1) [OF to1] more] seg_to_trans [OF to1] seg_toD(3) [OF to1]
  show ?case by simp
qed simp

lemma try_reserve_inv:
  assumes inv: "pool_inv p"
  shows "pool_inv (fst (try_reserve_global_demotions p reqs))"
proof (cases "segment p")
  case (Some s)
  obtain s' res where r: "reserve_each s (local_target_bytes p) (seg_global_accounted_bytes s) reqs = (s', res)"
    by (cases "reserve_each s (local_target_bytes p) (seg_global_accounted_bytes s) reqs")
  from pool_inv_same [OF inv Some reserve_each_inv [OF pool_invD(1) [OF inv Some] r]] Some r
  show ?thesis by (simp add: try_reserve_global_demotions_def)
qed (use inv in \<open>simp add: try_reserve_global_demotions_def\<close>)

lemma seg_to_drop_reservation:
  assumes "seg_inv s"
  shows "seg_to s (s\<lparr>global_demotion_reservations := AList.delete k (global_demotion_reservations s)\<rparr>) (slot_states s)"
  using seg_inv_drop_reservation [OF assms] by (simp add: seg_to_def keeps_cache_def slot_states_def same_segment_def)

lemma release_reservation_inv:
  assumes inv: "pool_inv p"
  shows "pool_inv (fst (release_global_demotion_reservation p key pid aid off cap))"
proof (cases "segment p")
  case (Some s)
  with inv pool_inv_same [OF inv Some seg_to_drop_reservation [OF pool_invD(1) [OF inv Some]]] show ?thesis
    by (simp add: release_global_demotion_reservation_def)
qed (use inv in \<open>simp add: release_global_demotion_reservation_def\<close>)

lemma commit_reserved_inv:
  assumes inv: "pool_inv p" and eq: "commit_reserved_global_demotion p key pid aid off cap = Some (p', res)"
  shows "pool_inv p'"
proof (cases "validate_global_demotion_reservation p key pid aid off cap")
  case (Inl e)
  with inv eq show ?thesis by (simp add: commit_reserved_global_demotion_def)
next
  case (Inr u)
  let ?k = "manifest_key key pid"
  from Inr eq obtain s e where s: "segment p = Some s" "manifest_by_key s ?k = Some e"
    and p': "p' = p\<lparr>segment := Some (s\<lparr>manifest_by_key := (manifest_by_key s)(?k \<mapsto>
        e\<lparr>me_scope := Some GlobalSharedScope, me_disposition := GlobalShared\<rparr>),
        global_demotion_reservations := AList.delete ?k (global_demotion_reservations s)\<rparr>)\<rparr>"
    by (auto simp: commit_reserved_global_demotion_def bind_eq_Some_conv Let_def)
  let ?s1 = "s\<lparr>manifest_by_key := (manifest_by_key s)(?k \<mapsto>
        e\<lparr>me_scope := Some GlobalSharedScope, me_disposition := GlobalShared\<rparr>)\<rparr>"
  have to1: "seg_to s ?s1 (slot_states s)"
    by (rule seg_to_manifest_entry [OF pool_invD(1) [OF inv s(1)] s(2)]) simp_all
  from pool_inv_same [OF inv s(1)] seg_to_trans [OF to1 seg_to_drop_reservation [OF seg_toD(1) [OF to1], of ?k]]
    seg_toD(3) [OF to1] show ?thesis by (simp add: p')
qed

section \<open>Slot transitions\<close>

lemma retain_route_only_inv:
  assumes inv: "pool_inv p"
  shows "pool_inv (fst (retain_committed_route_only_holder p aid off cap))"
proof (cases "segment p")
  case (Some s)
  let ?s = "fst (seg_retain_committed_route_only_holder s aid)"
  from seg_retain_route_only_inv [OF pool_invD(1) [OF inv Some], of aid]
  have "pool_inv (p\<lparr>segment := Some ?s\<rparr>)"
  proof
    assume "?s = s"
    then show ?thesis using inv Some by (simp add: pool_inv_def)
  next
    assume a: "slot_states s aid = Some (Committed True 0) \<and> seg_to s ?s ((slot_states s)(aid \<mapsto> Committed True 1))"
    show ?thesis by (rule pool_inv_change [OF inv Some conjunct2 [OF a]]) (use a in simp_all)
  qed
  then show ?thesis using inv Some
    by (simp add: retain_committed_route_only_holder_def split_beta)
qed (use inv in \<open>simp add: retain_committed_route_only_holder_def\<close>)

lemma pending_visible_step:
  assumes inv: "pool_inv p" and s: "segment p = Some s" and eq: "seg_mark_prepared_slot_pending_visible s aid = Some s'"
    and n: "checked_sub (prepared_slots p) 1 = Some n" "checked_add u64_bound (pending_visible_slots p) 1 = Some v"
  shows "pool_inv (p\<lparr>segment := Some s', prepared_slots := n, pending_visible_slots := v\<rparr>)"
proof -
  note m = seg_mark_pending_inv [OF pool_invD(1) [OF inv s] eq]
  show ?thesis
    by (rule pool_inv_change [OF inv s m(2)])
      (use n m(1) in \<open>auto simp: checked_sub_def checked_add_def split: if_splits\<close>)
qed

lemma mark_pending_visible_inv:
  assumes "pool_inv p" "mark_prepared_slot_pending_visible p aid off cap = Some (p', b)"
  shows "pool_inv p'"
  using assms pending_visible_step [OF assms(1)]
  by (auto simp: mark_prepared_slot_pending_visible_def bind_eq_Some_conv split: option.splits if_splits)

lemma mark_data_ready_get_pending_inv:
  assumes inv: "pool_inv p" and eq: "mark_data_ready_get_target_pending_visible p cap = Some (p', res)"
  shows "pool_inv p'"
proof (cases "p' = p")
  case False
  with eq obtain s s' n v where "segment p = Some s"
    "seg_mark_prepared_slot_pending_visible s (slot_allocation_id (wc_slot cap)) = Some s'"
    "checked_sub (prepared_slots p) 1 = Some n" "checked_add u64_bound (pending_visible_slots p) 1 = Some v"
    "p' = p\<lparr>segment := Some s', prepared_slots := n, pending_visible_slots := v\<rparr>"
    by (auto simp: mark_data_ready_get_target_pending_visible_def bind_eq_Some_conv split: option.splits if_splits)
  with pending_visible_step [OF inv] show ?thesis by simp
qed (use inv in simp)

lemma promote_inv:
  assumes inv: "pool_inv p" and eq: "promote_pending_visible_slot_to_committed p aid off cap = Some (p', b)"
  shows "pool_inv p'"
proof (cases "p' = p")
  case False
  with eq obtain s s' v c where s: "segment p = Some s" "seg_promote_pending_visible_slot_to_committed s aid = Some s'"
    "checked_sub (pending_visible_slots p) 1 = Some v" "checked_add u64_bound (committed_slots p) 1 = Some c"
    "p' = p\<lparr>segment := Some s', pending_visible_slots := v, committed_slots := c\<rparr>"
    by (auto simp: promote_pending_visible_slot_to_committed_def bind_eq_Some_conv split: option.splits if_splits)
  from seg_promote_inv [OF pool_invD(1) [OF inv s(1)] s(2)] obtain n where
    n: "slot_states s aid = Some (PendingLocalVisible n)" "seg_to s s' ((slot_states s)(aid \<mapsto> Committed True n))" by blast
  show ?thesis
    unfolding s(5) by (rule pool_inv_change [OF inv s(1) n(2)])
      (use s(3,4) n(1) in \<open>auto simp: checked_sub_def checked_add_def split: if_splits\<close>)
qed (use inv in simp)

lemma retain_resident_inv:
  assumes inv: "pool_inv p" and eq: "retain_resident_slot_holder p aid off cap = Some (p', b)"
  shows "pool_inv p'"
proof (cases "p' = p")
  case False
  with eq obtain s s' where s: "segment p = Some s" "seg_retain_resident_slot_holder s aid = Some s'"
    "p' = p\<lparr>segment := Some s'\<rparr>"
    by (auto simp: retain_resident_slot_holder_def bind_eq_Some_conv split: option.splits if_splits)
  from pool_invD(1) [OF inv s(1)] s(2) show ?thesis
  proof (cases rule: seg_retain_resident_inv)
    case (pending n m)
    show ?thesis unfolding s(3) by (rule pool_inv_change [OF inv s(1) pending(2)]) (simp_all add: pending(1))
  next
    case (committed b n m)
    show ?thesis unfolding s(3) by (rule pool_inv_change [OF inv s(1) committed(2)]) (simp_all add: committed(1))
  qed
qed (use inv in simp)

lemma release_resident_inv:
  assumes inv: "pool_inv p" and eq: "release_resident_slot_holder p aid off cap = Some (p', b)"
  shows "pool_inv p'"
proof (cases "p' = p")
  case False
  with eq obtain s s' where s: "segment p = Some s" "seg_release_resident_slot_holder s aid = Some s'"
    "identity_matches s aid off cap"
    by (auto simp: release_resident_slot_holder_def bind_eq_Some_conv split: option.splits if_splits)
  from pool_invD(1) [OF inv s(1)] s(2) show ?thesis
  proof (cases rule: seg_release_resident_inv)
    case (pending n st)
    have g: "seg_allocation s' aid = None \<longleftrightarrow> st = None"
      using seg_toD(3) [OF pending(2)] by (metis fun_upd_same seg_allocation_def slot_states_None)
    obtain r where r: "seg_allocation s aid = Some r" "os_state r = PendingLocalVisible n"
      using pending(1) by (auto simp: slot_states_Some seg_allocation_def)
    show ?thesis
    proof (cases st)
      case None
      with eq s r g obtain v where "checked_sub (pending_visible_slots p) 1 = Some v"
        "p' = p\<lparr>segment := Some s', pending_visible_slots := v\<rparr>"
        by (auto simp: release_resident_slot_holder_def bind_eq_Some_conv)
      with None show ?thesis
        by (intro pool_inv_change [OF inv s(1) pending(2)]) (auto simp: pending(1) checked_sub_def split: if_splits)
    next
      case (Some x)
      with eq s r g have "p' = p\<lparr>segment := Some s'\<rparr>" by (simp add: release_resident_slot_holder_def)
      with Some pending(3) show ?thesis
        by (intro pool_inv_change [OF inv s(1) pending(2)]) (auto simp: pending(1))
    qed
  next
    case (committed rl n st)
    have g: "seg_allocation s' aid = None \<longleftrightarrow> st = None"
      using seg_toD(3) [OF committed(2)] by (metis fun_upd_same seg_allocation_def slot_states_None)
    obtain r where r: "seg_allocation s aid = Some r" "os_state r = Committed rl n"
      using committed(1) by (auto simp: slot_states_Some seg_allocation_def)
    show ?thesis
    proof (cases st)
      case None
      with eq s r g obtain c where "checked_sub (committed_slots p) 1 = Some c"
        "p' = p\<lparr>segment := Some s', committed_slots := c\<rparr>"
        by (auto simp: release_resident_slot_holder_def bind_eq_Some_conv)
      with None show ?thesis
        by (intro pool_inv_change [OF inv s(1) committed(2)]) (auto simp: committed(1) checked_sub_def split: if_splits)
    next
      case (Some x)
      with eq s r g have "p' = p\<lparr>segment := Some s'\<rparr>" by (simp add: release_resident_slot_holder_def)
      with Some committed(3) show ?thesis
        by (intro pool_inv_change [OF inv s(1) committed(2)]) (auto simp: committed(1))
    qed
  qed
qed (use inv in simp)

lemma count_freed_inv:
  assumes inv: "pool_inv p" and s: "segment p = Some s" and st: "slot_states s aid = Some (Committed True n)"
    and to: "seg_to s s' ((slot_states s)(aid := x))" and x: "x = None \<or> (\<exists>m. x = Some (Committed False m))"
    and eq: "count_freed_committed p s' aid = Some (p', b)"
  shows "pool_inv p'"
proof -
  have g: "seg_allocation s' aid = None \<longleftrightarrow> x = None"
    using seg_toD(3) [OF to] by (metis fun_upd_same seg_allocation_def slot_states_None)
  from eq obtain c where c: "(if x = None then checked_sub (committed_slots p) 1 else Some (committed_slots p)) = Some c"
    "p' = p\<lparr>segment := Some s', committed_slots := c\<rparr>"
    by (auto simp: count_freed_committed_def bind_eq_Some_conv g)
  show ?thesis
    unfolding c(2) by (rule pool_inv_change [OF inv s to])
      (use c(1) x st in \<open>auto simp: checked_sub_def split: if_splits\<close>)
qed

lemma release_route_inv:
  assumes inv: "pool_inv p" and eq: "release_committed_slot_route p aid off cap = Some (p', b)"
  shows "pool_inv p'"
proof (cases "p' = p")
  case False
  with eq obtain s s' where s: "segment p = Some s" "seg_release_committed_slot_route s aid = Some s'"
    "count_freed_committed p s' aid = Some (p', b)"
    by (auto simp: release_committed_slot_route_def bind_eq_Some_conv split: option.splits if_splits)
  from seg_release_route_inv [OF pool_invD(1) [OF inv s(1)] s(2)] obtain n x where
    "slot_states s aid = Some (Committed True n)" "seg_to s s' ((slot_states s)(aid := x))"
    "x = None \<or> x = Some (Committed False n)" by blast
  then show ?thesis using count_freed_inv [OF inv s(1) _ _ _ s(3)] by blast
qed (use inv in simp)

lemma release_committed_resident_inv:
  assumes inv: "pool_inv p" and eq: "release_committed_resident_slot p aid off cap = Some (p', b)"
  shows "pool_inv p'"
proof (cases "p' = p")
  case False
  with eq obtain s s' where s: "segment p = Some s" "seg_release_committed_resident_slot s aid = Some s'"
    "count_freed_committed p s' aid = Some (p', b)"
    by (auto simp: release_committed_resident_slot_def bind_eq_Some_conv split: option.splits if_splits)
  from seg_release_committed_resident_inv [OF pool_invD(1) [OF inv s(1)] s(2)] obtain n x where
    "slot_states s aid = Some (Committed True n)" "seg_to s s' ((slot_states s)(aid := x))"
    "x = None \<or> x = Some (Committed False (n - 1))" by blast
  then show ?thesis using count_freed_inv [OF inv s(1) _ _ _ s(3)] by blast
qed (use inv in simp)

lemma release_deleted_global_inv:
  assumes inv: "pool_inv p" and eq: "release_deleted_global_manifest_route p key pid = Some (p', res)"
  shows "pool_inv p'"
proof (cases "p' = p")
  case False
  with eq obtain slot :: owner_slot_desc and b where "release_committed_slot_route p (slot_allocation_id slot)
      (slot_segment_offset slot) (slot_capacity_bytes slot) = Some (p', b)"
    by (auto simp: release_deleted_global_manifest_route_def bind_eq_Some_conv Let_def split: option.splits if_splits)
  then show ?thesis by (rule release_route_inv [OF inv])
qed (use inv in simp)

section \<open>Reports\<close>

lemma seg_report_cases:
  assumes eq: "seg_allocatable_report s slot_size = Some (s', rep)" and ok: "cache_ok s"
  obtains (refused) raw where "s' = s" "seg_total_free_bytes s = Some raw"
      "slot_size = 0 \<or> seg_len s < slot_size \<or> slot_size mod GRANULARITY \<noteq> 0"
      "rep = report_default\<lparr>raw_free_bytes := raw, slot_unallocatable_bytes := raw\<rparr>"
  | (served) raw where "seg_total_free_bytes s = Some raw" "compute_allocatable_report s raw slot_size = Some rep"
      "0 < slot_size" "slot_size \<le> seg_len s" "slot_size mod GRANULARITY = 0"
      "s' = s \<or> s' = s\<lparr>allocatable_report_cache := allocatable_report_cache s @
         [\<lparr>cached_layout_revision = layout_revision (seg_allocator s), cached_slot_size = slot_size, cached_report = rep\<rparr>]\<rparr>"
proof -
  from eq obtain raw where raw: "seg_total_free_bytes s = Some raw"
    by (auto simp: seg_allocatable_report_def bind_eq_Some_conv)
  let ?bad = "slot_size = 0 \<or> seg_len s < slot_size \<or> slot_size mod GRANULARITY \<noteq> 0"
  show ?thesis
  proof (cases ?bad)
    case True
    with eq raw show ?thesis by (intro refused [OF _ raw True]) (simp_all add: seg_allocatable_report_def)
  next
    case False
    then have size: "0 < slot_size" "slot_size \<le> seg_len s" "slot_size mod GRANULARITY = 0" by auto
    show ?thesis
    proof (cases "find_cached_report s slot_size")
      case (Some c)
      then have c: "c \<in> set (allocatable_report_cache s)" "cached_layout_revision c = layout_revision (seg_allocator s)"
        "cached_slot_size c = slot_size" by (auto simp: find_cached_report_def find_Some_iff)
      from eq raw size Some have "s' = s" "rep = cached_report c"
        by (simp_all add: seg_allocatable_report_def)
      moreover from ok c raw have "compute_allocatable_report s raw slot_size = Some (cached_report c)"
        by (auto simp: cache_ok_def)
      ultimately show ?thesis using served [OF raw _ size] by simp
    next
      case None
      from eq raw size None have "compute_allocatable_report s raw slot_size = Some rep"
        "s' = s \<or> s' = s\<lparr>allocatable_report_cache := allocatable_report_cache s @
         [\<lparr>cached_layout_revision = layout_revision (seg_allocator s), cached_slot_size = slot_size, cached_report = rep\<rparr>]\<rparr>"
        by (auto simp: seg_allocatable_report_def bind_eq_Some_conv Let_def split: if_splits)
      then show ?thesis using served [OF raw _ size] by simp
    qed
  qed
qed

lemma allocatable_report_inv:
  assumes inv: "pool_inv p" and eq: "allocatable_report p slot_size = Some (p', rep)"
  shows "pool_inv p'"
proof (cases "segment p")
  case None
  with inv eq show ?thesis by (simp add: allocatable_report_def)
next
  case (Some s)
  with eq obtain s' where s': "seg_allocatable_report s slot_size = Some (s', rep)" "p' = p\<lparr>segment := Some s'\<rparr>"
    by (auto simp: allocatable_report_def bind_eq_Some_conv)
  note ok = pool_invD(2) [OF inv Some]
  from s'(1) ok have "cache_ok s' \<and> seg_inv s' \<and> seg_len s' = seg_len s \<and> slot_states s' = slot_states s"
  proof (cases rule: seg_report_cases)
    case refused
    with ok pool_invD(1) [OF inv Some] show ?thesis by simp
  next
    case (served raw)
    let ?c = "\<lparr>cached_layout_revision = layout_revision (seg_allocator s), cached_slot_size = slot_size, cached_report = rep\<rparr>"
    let ?s = "s\<lparr>allocatable_report_cache := allocatable_report_cache s @ [?c]\<rparr>"
    have "seg_total_free_bytes ?s = seg_total_free_bytes s" "compute_allocatable_report ?s = compute_allocatable_report s"
      by (simp_all add: seg_total_free_bytes_def compute_allocatable_report_def fun_eq_iff)
    then have "cache_ok ?s" using ok served(1,2) by (auto simp: cache_ok_def)
    with served(6) ok pool_invD(1) [OF inv Some] show ?thesis by (auto simp: slot_states_def)
  qed
  with inv Some s'(2) show ?thesis by (simp add: pool_inv_def)
qed

lemma track_size_classes_inv:
  "pool_inv p \<Longrightarrow> pool_inv (fst (track_capacity_report_size_classes p cs))"
  by (simp add: track_capacity_report_size_classes_def Let_def)

section \<open>Runs of the pool\<close>

text \<open>One step is one call of a method of \<open>OwnerSegmentAllocator\<close> that returns, under the pool's
  mutex. The memory of an installed segment lies in the address space.\<close>

inductive pool_step :: "owner_pool \<Rightarrow> owner_pool \<Rightarrow> bool" where
  install: "install_segment p owner epoch base addr len target expected = Some (p', r1) \<Longrightarrow>
    addr + len \<le> u64_bound \<Longrightarrow> pool_step p p'"
| control: "pool_step p (fst (apply_target_control p epoch target))"
| claim: "claim_available_with_len p slot_size value_len n = Some (p', slots) \<Longrightarrow> pool_step p p'"
| claim_val: "claim_value p value_len n = Some (p', slots) \<Longrightarrow> pool_step p p'"
| acquire: "acquire_source p op tok = Some (p', out) \<Longrightarrow> pool_step p p'"
| release: "release_source p op lid oc = Some (p', out) \<Longrightarrow> pool_step p p'"
| release_prepared: "pool_release_prepared_slot p aid off cap = Some (p', b) \<Longrightarrow> pool_step p p'"
| prepare: "prepare_target p op tgt key pid len disp batch = Some (p', out) \<Longrightarrow> pool_step p p'"
| prepare_get: "prepare_claimed_get_target p op key pid batch slot = Some (p', out) \<Longrightarrow> pool_step p p'"
| data_ready: "mark_target_data_ready p op lid rc = Some (p', out) \<Longrightarrow> pool_step p p'"
| begin_commit: "begin_target_commit p op lid rc rt = Some (p', out) \<Longrightarrow> pool_step p p'"
| finish_commit: "finish_target_commit p op lid repoch = Some (p', out) \<Longrightarrow> pool_step p p'"
| begin_get: "begin_data_ready_get_target_commit p wc = Some (p', out) \<Longrightarrow> pool_step p p'"
| finish_get: "finish_data_ready_get_target p op lid repoch = Some (p', out) \<Longrightarrow> pool_step p p'"
| abort_get: "abort_data_ready_visible_get_target p op lid why = Some (p', out) \<Longrightarrow> pool_step p p'"
| abort: "abort_target p op lid why = Some (p', out) \<Longrightarrow> pool_step p p'"
| abort_rejected: "abort_route_rejected_target p op lid why = Some (p', out) \<Longrightarrow> pool_step p p'"
| install_committed: "pool_step p (fst (install_committed_manifest p key pid aid scope repoch))"
| update_scope: "pool_step p (fst (update_committed_manifest_scope p key pid aid off cap scope))"
| legacy_demotion: "pool_step p (fst (commit_legacy_a19_global_demotion p key pid aid off cap))"
| reserve: "pool_step p (fst (try_reserve_global_demotions p reqs))"
| release_reservation: "pool_step p (fst (release_global_demotion_reservation p key pid aid off cap))"
| commit_reserved: "commit_reserved_global_demotion p key pid aid off cap = Some (p', r2) \<Longrightarrow> pool_step p p'"
| failed_claim: "pool_step p (record_failed_claim p slot_size)"
| successful_claim: "pool_step p (record_successful_claim p slot_size)"
| clear_failed: "pool_step p (clear_failed_claim p slot_size)"
| retain_route_only: "pool_step p (fst (retain_committed_route_only_holder p aid off cap))"
| mark_pending: "mark_prepared_slot_pending_visible p aid off cap = Some (p', b) \<Longrightarrow> pool_step p p'"
| mark_get_pending: "mark_data_ready_get_target_pending_visible p wc = Some (p', r2) \<Longrightarrow> pool_step p p'"
| promote: "promote_pending_visible_slot_to_committed p aid off cap = Some (p', b) \<Longrightarrow> pool_step p p'"
| retain_resident: "retain_resident_slot_holder p aid off cap = Some (p', b) \<Longrightarrow> pool_step p p'"
| release_resident: "release_resident_slot_holder p aid off cap = Some (p', b) \<Longrightarrow> pool_step p p'"
| release_route: "release_committed_slot_route p aid off cap = Some (p', b) \<Longrightarrow> pool_step p p'"
| release_deleted: "release_deleted_global_manifest_route p key pid = Some (p', ds) \<Longrightarrow> pool_step p p'"
| release_committed_resident: "release_committed_resident_slot p aid off cap = Some (p', b) \<Longrightarrow> pool_step p p'"
| report: "allocatable_report p slot_size = Some (p', rep) \<Longrightarrow> pool_step p p'"
| track: "pool_step p (fst (track_capacity_report_size_classes p cs))"

abbreviation pool_reach :: "owner_pool \<Rightarrow> bool" where
  "pool_reach p \<equiv> pool_step\<^sup>*\<^sup>* pool_default p"

lemmas pool_inv_ops =
  install_segment_inv apply_target_control_inv claim_available_inv(1) claim_value_inv acquire_source_inv
  release_source_inv release_prepared_slot_inv prepare_target_inv prepare_claimed_get_target_inv
  mark_target_data_ready_inv begin_target_commit_inv finish_target_commit_inv begin_data_ready_get_inv
  finish_data_ready_get_inv abort_data_ready_visible_inv abort_target_inv abort_route_rejected_inv
  install_committed_manifest_inv update_scope_inv try_reserve_inv release_reservation_inv commit_reserved_inv
  retain_route_only_inv mark_pending_visible_inv mark_data_ready_get_pending_inv promote_inv retain_resident_inv
  release_resident_inv release_route_inv release_deleted_global_inv release_committed_resident_inv
  allocatable_report_inv track_size_classes_inv

lemma pool_inv_step:
  assumes "pool_step p p'" "pool_inv p"
  shows "pool_inv p'"
  using assms
proof (induction rule: pool_step.induct)
  case (install p owner epoch base addr len target expected p' r1)
  then show ?case by (blast intro: install_segment_inv)
next
  case (update_scope p key pid aid off cap scope)
  then show ?case by (simp add: update_committed_manifest_scope_def update_scope_inv)
next
  case (legacy_demotion p key pid aid off cap)
  then show ?case by (simp add: commit_legacy_a19_global_demotion_def update_scope_inv)
qed ((erule pool_inv_ops; assumption) |
    (simp add: record_failed_claim_def record_successful_claim_def clear_failed_claim_def; fail))+

lemma pool_inv_reach:
  assumes "pool_reach p"
  shows "pool_inv p"
  using assms by induction (simp_all add: pool_inv_default pool_inv_step)

end
