(* ===== verification/Owner_Pool_Sample.thy ===== *)
theory Owner_Pool_Sample
  imports Owner_Pool_Inv
begin

text \<open>
  A run of the pool at which the properties of the following theories are instantiated: a segment
  of one hundred granules is installed, a global-shared target is prepared, committed, and read
  under a source lease. The allocator's answers are taken from its own correctness lemmas, so
  the run is symbolic in the offset of the slot.
\<close>

definition sample_owner :: owner_generation where
  "sample_owner = \<lparr>gen_node_id = ''n'', gen_node_start_time = 1\<rparr>"

definition sample_put :: owner_transfer_op_id where
  "sample_put = \<lparr>op_coordinator = \<lparr>gen_node_id = ''m'', gen_node_start_time = 2\<rparr>, op_sequence = 1, op_kind = ReplicaAppendOp\<rparr>"

definition sample_get :: owner_transfer_op_id where
  "sample_get = \<lparr>op_coordinator = sample_owner, op_sequence = 2, op_kind = GetOp\<rparr>"

definition sample_segment :: "allocator \<Rightarrow> owner_segment_state" where
  "sample_segment a =
     \<lparr>seg_owner = sample_owner, seg_registration_epoch = 1, seg_base_addr = 0, seg_addr = 0,
      seg_len = 409600, seg_allocator = a, allocatable_report_cache = [], allocations = [],
      allocations_by_offset = Map.empty, manifest_by_key = Map.empty,
      manifest_key_by_allocation = Map.empty, source_leases = [], target_leases = Map.empty,
      global_demotion_reservations = [], seg_physical_free_epoch = 0\<rparr>"

definition sample_installed :: "allocator \<Rightarrow> owner_pool" where
  "sample_installed a =
     pool_default\<lparr>segment := Some (sample_segment a), controller_epoch := 1\<rparr>"

definition sample_slot :: "allocation \<Rightarrow> owner_slot_desc" where
  "sample_slot al =
     \<lparr>slot_owner = sample_owner, slot_allocation_id = 1, slot_segment_offset = GRANULARITY * offset al,
      slot_capacity_bytes = 40960, slot_addr = GRANULARITY * offset al, slot_base_addr = 0,
      slot_len = 40000, slot_registration_epoch = 1\<rparr>"

definition sample_lease :: "u64 \<Rightarrow> owner_lease_id" where
  "sample_lease n = \<lparr>lease_owner = sample_owner, lease_sequence = n\<rparr>"

lemmas sample_defs = sample_owner_def sample_put_def sample_get_def sample_segment_def sample_installed_def
  sample_slot_def sample_lease_def owner_generation_is_initialized_def owner_transfer_op_id_is_initialized_def
  owner_lease_id_is_initialized_def

lemma sample_allocator:
  obtains a a' al where "with_max_allocs 100 102 = Some a" "allocate a 10 = Some (a', Some al)" "offset al \<le> 90"
    "revision_room a'"
proof -
  obtain a bs L where a: "with_max_allocs 100 102 = Some a" "alloc_rep a bs L" "alloc_size a = 100" "layout_revision a = 1"
    using with_max_allocs_rep [of 102 100] by auto
  have "class_size (uint_to_float_round_up 10) \<le> 100"
    using round_up_galois [of 10 10] class_size_mono [of "uint_to_float_round_up 10" 10]
    by (simp add: class_size_arith)
  then obtain a' al where al: "allocate a 10 = Some (a', Some al)"
    using pristine_serves [OF a(1), of 10] by auto
  have inv: "alloc_inv a" using a(2) by (auto simp: alloc_inv_def)
  from allocate_Some_allocated [OF inv _ al] have "alloc_inv a'" "allocated a 10 a' al" by simp_all
  with oa.region_bounds [of a' "metadata al"] a(3,4) have "offset al \<le> 90" "revision_room a'"
    by (auto simp: allocated_def revision_room_def)
  with that a al show ?thesis by blast
qed

lemma sample_install:
  assumes "with_max_allocs 100 102 = Some a"
  shows "install_segment pool_default sample_owner 1 0 0 409600 0 None = Some (sample_installed a, Inr ())"
  using assms
  by (simp add: install_segment_def segment_new_def sample_defs pool_default_def assert_or_panic_def
      saturating_add_def)

definition sample_manifest :: "allocation \<Rightarrow> owner_slot_manifest_entry" where
  "sample_manifest al =
     \<lparr>me_key = ''k'', me_put_id = (1, 0), me_slot = sample_slot al, me_scope = Some GlobalSharedScope,
      me_disposition = GlobalShared, me_route_epoch = 0, me_physical_state = ReservedPhysical\<rparr>"

definition sample_prepared_segment :: "allocator \<Rightarrow> allocation \<Rightarrow> owner_segment_state" where
  "sample_prepared_segment a al = (sample_segment a)
     \<lparr>allocations := [(1, \<lparr>os_allocation_id = 1, os_allocation = al, os_segment_offset = GRANULARITY * offset al,
        os_capacity_bytes = 40960, os_value_len = 40000, os_source_read_lease_count = 0, os_state = Prepared\<rparr>)],
      allocations_by_offset := [offset al \<mapsto> 1],
      manifest_key_by_allocation := [1 \<mapsto> manifest_key ''k'' (1, 0)],
      manifest_by_key := [manifest_key ''k'' (1, 0) \<mapsto> sample_manifest al],
      target_leases := [sample_put \<mapsto> \<lparr>tl_lease_id = sample_lease 1, tl_key = ''k'', tl_put_id = (1, 0),
        tl_len = 40000, tl_disposition = GlobalShared, tl_atomic_batch = None, tl_slot = sample_slot al,
        tl_state = TargetPreparedState\<rparr>]\<rparr>"

lemma sample_capacity: "owner_segment_allocation_capacity_bytes 40000 = Some 40960"
  by (simp add: owner_segment_allocation_capacity_bytes_def checked_add_def)

lemma sample_claim:
  assumes "allocate a 10 = Some (a', Some al)" "offset al \<le> 90"
  shows "claim_available_with_len (sample_installed a) 40960 40000 1 =
    Some ((sample_installed a)\<lparr>next_allocation_id := 1, prepared_slots := 1,
       segment := Some ((sample_segment a')\<lparr>
         allocations := [(1, \<lparr>os_allocation_id = 1, os_allocation = al, os_segment_offset = GRANULARITY * offset al,
           os_capacity_bytes = 40960, os_value_len = 40000, os_source_read_lease_count = 0, os_state = Prepared\<rparr>)],
         allocations_by_offset := [offset al \<mapsto> 1]\<rparr>)\<rparr>, [sample_slot al])"
  using assms
  by (simp add: claim_available_with_len_def vec_with_capacity_def OWNER_SLOT_DESC_BYTES_def sample_defs
      pool_default_def checked_add_def claim_prepared_slot_def owner_segment_offset_bytes_def checked_mul_def assert_or_panic_def clear_allocatable_report_cache_def mult.commute)

lemma sample_prepare:
  assumes "allocate a 10 = Some (a', Some al)" "offset al \<le> 90"
  shows "prepare_target (sample_installed a) sample_put sample_owner ''k'' (1, 0) 40000 GlobalShared None =
    Some ((sample_installed a)\<lparr>next_allocation_id := 1, next_lease_sequence := 1, prepared_slots := 1,
       segment := Some (sample_prepared_segment a' al)\<rparr>, TargetPrepared (sample_lease 1) (sample_slot al) PreparedView)"
proof -
  let ?p = "(sample_installed a)\<lparr>next_allocation_id := 1, prepared_slots := 1,
       segment := Some ((sample_segment a')\<lparr>
         allocations := [(1, \<lparr>os_allocation_id = 1, os_allocation = al, os_segment_offset = GRANULARITY * offset al,
           os_capacity_bytes = 40960, os_value_len = 40000, os_source_read_lease_count = 0, os_state = Prepared\<rparr>)],
         allocations_by_offset := [offset al \<mapsto> 1]\<rparr>)\<rparr>"
  have "lease_claimed_target ?p sample_put ''k'' (1, 0) 40000 GlobalShared None (sample_slot al) =
    Some ((sample_installed a)\<lparr>next_allocation_id := 1, next_lease_sequence := 1, prepared_slots := 1,
       segment := Some (sample_prepared_segment a' al)\<rparr>, TargetPrepared (sample_lease 1) (sample_slot al) PreparedView)"
    using assms(2)
    by (simp add: lease_claimed_target_def allocate_lease_id_def sample_defs pool_default_def checked_add_def
        install_manifest_entry_def slot_is_valid_def identity_matches_desc_def seg_allocation_def
        sample_prepared_segment_def sample_manifest_def insert_target_lease_def Let_def)
  then show ?thesis
    using sample_claim [OF assms]
    by (simp add: prepare_target_def sample_capacity sample_defs pool_default_def seg_manifest_entry_def
        global_budget_full_def checked_add_def seg_global_accounted_bytes_def seg_global_committed_bytes_def
        seg_global_reserved_demotion_bytes_def saturating_add_def map_filter_simps)
qed

definition sample_receipt :: "allocation \<Rightarrow> owner_transfer_receipt" where
  "sample_receipt al =
     \<lparr>rcpt_completion_id = 1, rcpt_direction = RdmaWrite, rcpt_bytes = 40000, rcpt_source = None,
      rcpt_target = sample_slot al, rcpt_source_registration_epoch = 0, rcpt_target_registration_epoch = 1\<rparr>"

definition sample_target_token :: owner_target_route_token where
  "sample_target_token =
     \<lparr>tgt_key = ''k'', tgt_put_id = (1, 0), tgt_operation = sample_put, tgt_target_owner = sample_owner,
      tgt_prior_route_epoch = 0, tgt_policy_epoch = 0, tgt_atomic_batch = None, tgt_plan_nonce = 1\<rparr>"

definition sample_source_token :: "allocation \<Rightarrow> owner_source_route_token" where
  "sample_source_token al =
     \<lparr>src_key = ''k'', src_put_id = (1, 0), src_route_epoch = 7, src_source = sample_slot al,
      src_atomic_batch = None, src_plan_nonce = 1\<rparr>"

text \<open>The segment with the target in a given lease, manifest and slot state.\<close>

definition sample_at ::
  "allocator \<Rightarrow> allocation \<Rightarrow> owner_target_lease_state \<Rightarrow> owner_slot_physical_state \<Rightarrow> u64 \<Rightarrow>
   owner_slot_state \<Rightarrow> u32 \<Rightarrow> (owner_transfer_op_id \<times> owner_source_lease_record) list \<Rightarrow> owner_segment_state" where
  "sample_at a al lease phys epoch st readers leases = (sample_segment a)
     \<lparr>allocations := [(1, \<lparr>os_allocation_id = 1, os_allocation = al, os_segment_offset = GRANULARITY * offset al,
        os_capacity_bytes = 40960, os_value_len = 40000, os_source_read_lease_count = readers, os_state = st\<rparr>)],
      allocations_by_offset := [offset al \<mapsto> 1],
      manifest_key_by_allocation := [1 \<mapsto> manifest_key ''k'' (1, 0)],
      manifest_by_key := [manifest_key ''k'' (1, 0) \<mapsto>
        (sample_manifest al)\<lparr>me_physical_state := phys, me_route_epoch := epoch\<rparr>],
      target_leases := [sample_put \<mapsto> \<lparr>tl_lease_id = sample_lease 1, tl_key = ''k'', tl_put_id = (1, 0),
        tl_len = 40000, tl_disposition = GlobalShared, tl_atomic_batch = None, tl_slot = sample_slot al,
        tl_state = lease\<rparr>],
      source_leases := leases\<rparr>"

definition sample_pool :: "owner_segment_state \<Rightarrow> u64 \<Rightarrow> usize \<Rightarrow> usize \<Rightarrow> owner_pool" where
  "sample_pool s leases np nc = pool_default\<lparr>segment := Some s, controller_epoch := 1, next_allocation_id := 1,
     next_lease_sequence := leases, prepared_slots := np, committed_slots := nc\<rparr>"

lemmas sample_more_defs = sample_defs sample_receipt_def sample_target_token_def sample_source_token_def
  sample_at_def sample_pool_def sample_manifest_def

abbreviation sample_prepared :: "allocator \<Rightarrow> allocation \<Rightarrow> owner_pool" where
  "sample_prepared a al \<equiv> sample_pool (sample_at a al TargetPreparedState ReservedPhysical 0 Prepared 0 []) 1 1 0"

abbreviation sample_pending :: "allocator \<Rightarrow> allocation \<Rightarrow> owner_pool" where
  "sample_pending a al \<equiv> sample_pool (sample_at a al
     (TargetRoutePendingState (sample_receipt al) (Some sample_target_token)) RoutePendingPhysical 0 Prepared 0 []) 1 1 0"

abbreviation sample_committed :: "allocator \<Rightarrow> allocation \<Rightarrow> owner_pool" where
  "sample_committed a al \<equiv> sample_pool (sample_at a al (TargetCommittedState 7) CommittedPhysical 7
     (Committed True 0) 0 []) 1 0 1"

definition sample_leased :: "allocator \<Rightarrow> allocation \<Rightarrow> owner_pool" where
  "sample_leased a al = sample_pool (sample_at a al (TargetCommittedState 7) CommittedPhysical 7
     (Committed True 0) 1 [(sample_get, \<lparr>sl_lease_id = sample_lease 2, sl_route_token = sample_source_token al,
       sl_state = ActiveLease\<rparr>)]) 2 0 1"

lemma sample_prepare_at:
  assumes "allocate a 10 = Some (a', Some al)" "offset al \<le> 90"
  shows "prepare_target (sample_installed a) sample_put sample_owner ''k'' (1, 0) 40000 GlobalShared None =
    Some (sample_prepared a' al, TargetPrepared (sample_lease 1) (sample_slot al) PreparedView)"
  unfolding sample_prepare [OF assms]
  by (simp add: sample_more_defs sample_prepared_segment_def pool_default_def)

lemma sample_begin:
  "begin_target_commit (sample_prepared a al) sample_put (sample_lease 1) (sample_receipt al) (Some sample_target_token) =
    Some (sample_pending a al, TargetCommitPending (sample_lease 1) (sample_slot al))"
  by (simp add: sample_more_defs pool_default_def begin_target_commit_def receipt_proves_def route_token_error_def
      persistent_def set_target_state_def update_manifest_by_allocation_def manifest_entry_by_allocation_def)

lemma sample_finish:
  "finish_target_commit (sample_pending a al) sample_put (sample_lease 1) 7 =
    Some (sample_committed a al, TargetCommitted (sample_lease 1) (sample_slot al) 7)"
  by (simp add: sample_more_defs pool_default_def finish_target_commit_def persistent_def seg_allocation_def
      set_allocation_def set_target_state_def update_manifest_by_allocation_def manifest_entry_by_allocation_def
      checked_sub_def checked_add_def Let_def)

lemma sample_acquire:
  assumes "offset al \<le> 90"
  shows "acquire_source (sample_committed a al) sample_get (sample_source_token al) =
    Some (sample_leased a al, SourceAcquired (sample_lease 2) (sample_slot al))"
  using assms
  by (simp add: sample_more_defs sample_leased_def pool_default_def acquire_source_def seg_acquire_source_def
      allocate_lease_id_def checked_add_def seg_allocation_def geometry_matches_def identity_matches_desc_def
      set_allocation_def Let_def)

lemma sample_reach:
  obtains a al where "pool_reach (sample_leased a al)" "offset al \<le> 90" "revision_room a"
    "pool_reach (sample_committed a al)"
proof -
  obtain a a' al where a: "with_max_allocs 100 102 = Some a" "allocate a 10 = Some (a', Some al)" "revision_room a'"
    and off: "offset al \<le> 90" by (rule sample_allocator)
  have "pool_reach (sample_installed a)"
    by (rule r_into_rtranclp, rule pool_step.install [OF sample_install [OF a(1)]]) simp
  then have prep: "pool_reach (sample_prepared a' al)"
    by (rule rtranclp.rtrancl_into_rtrancl) (rule pool_step.prepare [OF sample_prepare_at [OF a(2) off]])
  then have "pool_reach (sample_pending a' al)"
    by (rule rtranclp.rtrancl_into_rtrancl) (rule pool_step.begin_commit [OF sample_begin])
  then have com: "pool_reach (sample_committed a' al)"
    by (rule rtranclp.rtrancl_into_rtrancl) (rule pool_step.finish_commit [OF sample_finish])
  then have "pool_reach (sample_leased a' al)"
    by (rule rtranclp.rtrancl_into_rtrancl) (rule pool_step.acquire [OF sample_acquire [OF off]])
  with com off a(3) that show ?thesis by blast
qed

end
