(* ===== verification/Owner_Pool_Correct.thy ===== *)
theory Owner_Pool_Correct
  imports Owner_Pool_Sample
begin

text \<open>
  What the owner's pool guarantees in every reachable state: the slots it hands out, its counters
  and its free space, the protection of a slot by its source leases, claims that cannot panic,
  and retried requests that have no further effect.
\<close>

declare map_of_eq_Some_iff [simp del] Some_eq_map_of_iff [simp del]

section \<open>The storage report always answers\<close>

lemma storage_report_total:
  assumes "alloc_inv a"
  shows "\<exists>r. storage_report a = Some r \<and> total_free_space r = (if 0 < free_offset a then free_storage a else 0)"
proof -
  obtain bs L where "alloc_rep a bs L" using assms by (auto simp: alloc_inv_def)
  from summary_report [OF this] show ?thesis by auto
qed

section \<open>Slots, counters, space\<close>

lemma slot_bounds:
  assumes inv: "phys_ok s" and r: "alloc_map s i = Some r"
  shows "os_segment_offset r mod GRANULARITY = 0" "0 < os_value_len r" "os_value_len r \<le> os_capacity_bytes r"
    "os_segment_offset r + os_capacity_bytes r \<le> seg_len s"
proof -
  have "geom s i = Some (slot_geometry r)" using r by (simp add: geom_def)
  from phys_okD(5) [OF inv this] have ok: "geometry_ok (seg_allocator s) i (slot_geometry r)" .
  then show "os_segment_offset r mod GRANULARITY = 0" "0 < os_value_len r" "os_value_len r \<le> os_capacity_bytes r"
    by (auto simp: geometry_ok_def)
  from ok oa.region_bounds [OF phys_okD(1) [OF inv], of "metadata (os_allocation r)"] phys_okD(2) [OF inv]
  show "os_segment_offset r + os_capacity_bytes r \<le> seg_len s" by (auto simp: geometry_ok_def)
qed

lemma slots_disjoint:
  assumes inv: "phys_ok s" and r: "alloc_map s i = Some r" "alloc_map s j = Some q" "i \<noteq> j"
  shows "os_segment_offset r + os_capacity_bytes r \<le> os_segment_offset q \<or>
    os_segment_offset q + os_capacity_bytes q \<le> os_segment_offset r"
proof -
  have g: "geom s i = Some (slot_geometry r)" "geom s j = Some (slot_geometry q)" using r by (simp_all add: geom_def)
  have ok: "geometry_ok (seg_allocator s) i (slot_geometry r)" "geometry_ok (seg_allocator s) j (slot_geometry q)"
    using phys_okD(5) [OF inv g(1)] phys_okD(5) [OF inv g(2)] .
  have "metadata (os_allocation r) \<noteq> metadata (os_allocation q)"
    using phys_okD(7) [OF inv g] r(3) by auto
  with oa.regions_disjoint [OF phys_okD(1) [OF inv], of "metadata (os_allocation r)" "metadata (os_allocation q)"] ok
  show ?thesis by (auto simp: geometry_ok_def)
qed

lemma map_count_alist:
  "distinct (map fst xs) \<Longrightarrow> map_count (map_of xs) P = length (filter (\<lambda>(_, v). P v) xs)"
proof (induction xs)
  case (Cons x xs)
  obtain k v where x: "x = (k, v)" by (cases x)
  have "map_of xs k = None" using Cons.prems x by (auto simp: map_of_eq_None_iff)
  with map_count_insert [of "map_of xs" k v P] Cons x show ?case by (simp add: finite_dom_map_of fun_upd_def)
qed simp

lemma slot_states_count:
  assumes "phys_ok s"
  shows "map_count (slot_states s) P = length (filter (\<lambda>(_, r). P (os_state r)) (allocations s))"
proof -
  have "map_count (slot_states s) P = map_count (alloc_map s) (\<lambda>r. P (os_state r))"
    unfolding map_count_def slot_states_def by (rule arg_cong [of _ _ card]) auto
  then show ?thesis using map_count_alist [OF phys_okD(4) [OF assms]] by simp
qed

lemma capacity_accounted:
  assumes inv: "phys_ok s"
  shows "sum_list (map (\<lambda>(_, r). os_capacity_bytes r) (allocations s)) + GRANULARITY * free_storage (seg_allocator s) = seg_len s"
proof -
  let ?a = "seg_allocator s" and ?D = "dom (geom s)" and ?n = "\<lambda>i. g_node (the (geom s i))"
  have dom: "?D = set (map fst (allocations s))" by (simp add: geom_def dom_def map_option_case) (auto simp: dom_map_of_conv_image_fst [symmetric] split: option.splits)
  have img: "?n ` ?D = live ?a"
  proof (intro equalityI subsetI)
    fix m assume "m \<in> ?n ` ?D"
    then obtain i g where "geom s i = Some g" "m = g_node g" by force
    with phys_okD(5) [OF inv] show "m \<in> live ?a" by (auto simp: geometry_ok_def)
  next
    fix m assume "m \<in> live ?a"
    from phys_okD(6) [OF inv this] obtain i g where "geom s i = Some g" "g_node g = m" by blast
    then show "m \<in> ?n ` ?D" by (intro image_eqI [of _ _ i]) auto
  qed
  have inj: "inj_on ?n ?D" using inv by (simp add: phys_ok_def)
  have cap: "os_capacity_bytes r = GRANULARITY * block_size ?a (?n i)" if "alloc_map s i = Some r" for i r
  proof -
    have g: "geom s i = Some (slot_geometry r)" using that by (simp add: geom_def)
    from phys_okD(5) [OF inv g] g show ?thesis by (simp add: geometry_ok_def)
  qed
  have "sum_list (map (\<lambda>(_, r). os_capacity_bytes r) (allocations s)) =
      sum_list (map (\<lambda>i. GRANULARITY * block_size ?a (?n i)) (map fst (allocations s)))"
    unfolding map_map
  proof (rule arg_cong [of _ _ sum_list], rule map_cong [OF refl])
    fix x assume x: "x \<in> set (allocations s)"
    then have "alloc_map s (fst x) = Some (snd x)" using phys_okD(4) [OF inv] by (simp add: map_of_eq_Some_iff)
    from cap [OF this] show "(\<lambda>(_, r). os_capacity_bytes r) x = ((\<lambda>i. GRANULARITY * block_size ?a (?n i)) \<circ> fst) x"
      by (simp add: split_beta)
  qed
  also have "\<dots> = (\<Sum>i \<in> ?D. GRANULARITY * block_size ?a (?n i))"
    using sum_list_distinct_conv_sum_set [OF phys_okD(4) [OF inv]] dom by simp
  also have "\<dots> = GRANULARITY * (\<Sum>m \<in> live ?a. block_size ?a m)"
    unfolding img [symmetric] sum.reindex [OF inj] by (simp add: sum_distrib_left comp_def)
  finally show ?thesis
    using oa.accounted [OF phys_okD(1) [OF inv]] phys_okD(2) [OF inv]
    by (metis distrib_left)
qed

lemma reach_phys:
  assumes "pool_reach p" "segment p = Some s"
  shows "phys_ok s" "man_ok s" "lease_ok s" "res_ok s" "seg_inv s" "cache_ok s"
  using pool_invD(1,2) [OF pool_inv_reach [OF assms(1)] assms(2)] by (simp_all add: seg_inv_def)

text \<open>C1: However the pool's methods are interleaved, every live slot is granule aligned, holds its
  payload, lies inside the registered segment, and overlaps no other live slot.\<close>

theorem live_slots_sound:
  assumes "pool_reach p" "segment p = Some s" "seg_allocation s i = Some r"
  shows "os_segment_offset r mod GRANULARITY = 0 \<and> 0 < os_value_len r \<and> os_value_len r \<le> os_capacity_bytes r \<and>
    os_segment_offset r + os_capacity_bytes r \<le> seg_len s \<and>
    (\<forall>j q. j \<noteq> i \<and> seg_allocation s j = Some q \<longrightarrow>
       os_segment_offset r + os_capacity_bytes r \<le> os_segment_offset q \<or>
       os_segment_offset q + os_capacity_bytes q \<le> os_segment_offset r)"
proof -
  note inv = reach_phys(1) [OF assms(1,2)]
  have r: "alloc_map s i = Some r" using assms(3) by (simp add: seg_allocation_def)
  show ?thesis
    using slot_bounds [OF inv r] slots_disjoint [OF inv r] unfolding seg_allocation_def by metis
qed

theorem live_slots_sound_witness:
  "\<exists>(p :: owner_pool) s r. segment p = Some s \<and> seg_allocation s 1 = Some r \<and> os_segment_offset r + os_capacity_bytes r \<le> 409600"
proof -
  obtain a al where reach: "pool_reach (sample_leased a al)" by (rule sample_reach)
  define s where "s = the (segment (sample_leased a al))"
  have s: "segment (sample_leased a al) = Some s" "seg_len s = 409600" "seg_allocation s 1 \<noteq> None"
    by (simp_all add: s_def sample_leased_def sample_more_defs seg_allocation_def)
  then obtain r where r: "seg_allocation s 1 = Some r" by blast
  from live_slots_sound [OF reach s(1) r] s(2) have "os_segment_offset r + os_capacity_bytes r \<le> 409600" by simp
  with s(1) r show ?thesis by blast
qed

text \<open>C8: The three slot counters are exactly the numbers of live slots in each state, and together
  the number of live slots.\<close>

theorem slot_counters_exact:
  assumes "pool_reach p" "segment p = Some s"
  shows "prepared_slots p = length (filter (\<lambda>(_, r). os_state r = Prepared) (allocations s)) \<and>
    pending_visible_slots p = length (filter (\<lambda>(_, r). is_pending_local_visible (os_state r)) (allocations s)) \<and>
    committed_slots p = length (filter (\<lambda>(_, r). is_committed_slot (os_state r)) (allocations s)) \<and>
    used_slot_count p = seg_used_slot_count s"
proof -
  have split: "length (filter (\<lambda>(_, r). os_state r = Prepared) xs) +
      length (filter (\<lambda>(_, r). is_pending_local_visible (os_state r)) xs) +
      length (filter (\<lambda>(_, r). is_committed_slot (os_state r)) xs) = length xs" for xs :: "(u64 \<times> owner_allocation_state) list"
  proof (induction xs)
    case (Cons x xs)
    then show ?case by (cases "os_state (snd x)") (auto simp: split_beta)
  qed simp
  note cnt = slot_states_count [OF reach_phys(1) [OF assms]]
  show ?thesis
    using pool_invD(4,5,6) [OF pool_inv_reach [OF assms(1)] assms(2)] split [of "allocations s"]
    unfolding cnt used_slot_count_def seg_used_slot_count_def by simp
qed

theorem slot_counters_exact_witness:
  "\<exists>(p :: owner_pool) s. segment p = Some s \<and> committed_slots p = 1 \<and> used_slot_count p = seg_used_slot_count s"
proof -
  obtain a al where reach: "pool_reach (sample_leased a al)" by (rule sample_reach)
  define s where "s = the (segment (sample_leased a al))"
  have s: "segment (sample_leased a al) = Some s" "committed_slots (sample_leased a al) = 1"
    by (simp_all add: s_def sample_leased_def sample_more_defs)
  from slot_counters_exact [OF reach s(1)] s show ?thesis by blast
qed

text \<open>C25: No byte of the segment is lost. The capacities of the live slots add up to at most the
  segment. While the allocator has a spare node, the bytes the pool reports free are exactly the rest
  of the segment and the bytes it reports used are exactly those capacities. Once the node pool is
  exhausted, when no further claim can be served, the pool reports nothing free and the whole segment
  used.\<close>

theorem segment_bytes_accounted:
  assumes "pool_reach p" "segment p = Some s"
  defines "held \<equiv> sum_list (map (\<lambda>(_, r). os_capacity_bytes r) (allocations s))"
  shows "held \<le> seg_len s \<and>
    (if 0 < free_offset (seg_allocator s)
     then total_free_bytes p = Some (seg_len s - held) \<and> total_used_bytes p = Some held
     else total_free_bytes p = Some 0 \<and> total_used_bytes p = Some (seg_len s) \<and>
       (\<forall>sz. allocate (seg_allocator s) sz = Some (seg_allocator s, None)))"
proof -
  note inv = reach_phys(1) [OF assms(1,2)]
  have acc: "held + GRANULARITY * free_storage (seg_allocator s) = seg_len s"
    using capacity_accounted [OF inv] by (simp add: held_def)
  from storage_report_total [OF phys_okD(1) [OF inv]] assms(2)
  have n: "total_free_bytes p = Some (if 0 < free_offset (seg_allocator s)
      then GRANULARITY * free_storage (seg_allocator s) else 0)"
    by (auto simp: total_free_bytes_def seg_total_free_bytes_def)
  then have "total_used_bytes p = Some (if 0 < free_offset (seg_allocator s) then held else seg_len s)"
    using assms(2) acc by (auto simp: total_used_bytes_def physical_capacity_bytes_def)
  with n acc show ?thesis by (auto simp: allocate_def)
qed

theorem segment_bytes_accounted_witness:
  "\<exists>p :: owner_pool. total_used_bytes p = Some 0 \<and> total_free_bytes p = Some 409600"
proof -
  obtain a a' al where a: "with_max_allocs 100 102 = Some a" "allocate a 10 = Some (a', Some al)"
    by (rule sample_allocator)
  have reach: "pool_reach (sample_installed a)"
    by (rule r_into_rtranclp, rule pool_step.install [OF sample_install [OF a(1)]]) simp
  have s: "segment (sample_installed a) = Some (sample_segment a)" by (simp add: sample_installed_def)
  have fo: "0 < free_offset (seg_allocator (sample_segment a))"
    using a(2) by (cases "free_offset a = 0") (auto simp: allocate_def sample_segment_def)
  from segment_bytes_accounted [OF reach s] fo show ?thesis
    by (intro exI [of _ "sample_installed a"]) (simp add: sample_segment_def)
qed

section \<open>Source leases\<close>

lemma free_allocation_total:
  assumes inv: "seg_inv s" and r: "alloc_map s i = Some r" "os_source_read_lease_count r = 0"
    and room: "revision_room (seg_allocator s)"
  shows "\<exists>s'. free_allocation s i = Some s'"
proof -
  have parts: "phys_ok s" using inv by (simp add: seg_inv_def)
  have g: "geom s i = Some (slot_geometry r)" using r by (simp add: geom_def)
  from phys_okD(5) [OF parts g] have live: "metadata (os_allocation r) \<in> live (seg_allocator s)" "os_allocation_id r = i"
    by (simp_all add: geometry_ok_def)
  have off: "allocations_by_offset s (offset (os_allocation r)) = Some i"
    using g phys_okD(8) [OF parts] by auto
  obtain bs L where "alloc_rep (seg_allocator s) bs L" using phys_okD(1) [OF parts] by (auto simp: alloc_inv_def)
  from free_rep [OF this live(1) refl] room obtain a where "free (seg_allocator s) (os_allocation r) = Some a"
    by (auto simp: revision_room_def)
  with r off live(2) show ?thesis
    by (cases "manifest_key_by_allocation s i")
      (auto simp: free_allocation_def remove_manifest_for_allocation_def assert_or_panic_def Let_def split: option.splits)
qed

lemma length_set_allocation:
  assumes "alloc_map s i = Some r"
  shows "length (allocations (set_allocation s i r')) = length (allocations s)"
proof -
  have "i \<in> set (map fst (allocations s))" using assms by (metis domI dom_map_of_conv_image_fst image_set)
  then have "map fst (allocations (set_allocation s i r')) = map fst (allocations s)"
    by (simp add: set_allocation_def update_keys)
  then show ?thesis by (metis length_map)
qed

lemma lease_count_alist:
  assumes "lease_ok s" "alloc_map s i = Some r"
  shows "os_source_read_lease_count r = length (filter (\<lambda>(_, l). active_on i l) (source_leases s))"
  using lease_okD(2) [OF assms] map_count_alist [OF lease_okD(1) [OF assms(1)]] by simp

text \<open>C2: An active source lease pins its slot: the slot named by the lease's route token is live at
  exactly the address, capacity and length the token promises, it counts exactly the active
  leases on it, and an attempt to free it panics rather than recycle the memory under the reader.\<close>

theorem active_lease_pins_slot:
  assumes "pool_reach p" "segment p = Some s" "map_of (source_leases s) op = Some l" "sl_state l = ActiveLease"
  shows "identity_matches_desc s (src_source (sl_route_token l)) \<and>
    (\<exists>r. seg_allocation s (slot_allocation_id (src_source (sl_route_token l))) = Some r \<and>
       os_source_read_lease_count r =
         length (filter (\<lambda>(_, k). active_on (slot_allocation_id (src_source (sl_route_token l))) k) (source_leases s)) \<and>
       0 < os_source_read_lease_count r) \<and>
    free_allocation s (slot_allocation_id (src_source (sl_route_token l))) = None"
proof -
  let ?i = "slot_allocation_id (src_source (sl_route_token l))"
  note ok = reach_phys(3) [OF assms(1,2)]
  note id = lease_okD(3) [OF ok assms(3,4)]
  obtain r where r: "alloc_map s ?i = Some r" using identity_live [OF id] by blast
  have "map_count (src_map s) (active_on ?i) \<noteq> 0"
    unfolding map_count_0 [OF src_finite(1)] using assms(3,4) by (auto simp: active_on_def)
  then have pos: "0 < os_source_read_lease_count r" using lease_okD(2) [OF ok r] by simp
  then have "free_allocation s ?i = None" using r by (simp add: free_allocation_def assert_or_panic_def)
  with id r pos lease_count_alist [OF ok r] show ?thesis by (simp add: seg_allocation_def)
qed

theorem active_lease_pins_slot_witness:
  "\<exists>(p :: owner_pool) s. segment p = Some s \<and> seg_allocation s 1 \<noteq> None \<and> free_allocation s 1 = None"
proof -
  obtain a al where reach: "pool_reach (sample_leased a al)" by (rule sample_reach)
  define s where "s = the (segment (sample_leased a al))"
  have s: "segment (sample_leased a al) = Some s"
    "map_of (source_leases s) sample_get = Some \<lparr>sl_lease_id = sample_lease 2,
       sl_route_token = sample_source_token al, sl_state = ActiveLease\<rparr>"
    by (simp_all add: s_def sample_leased_def sample_pool_def sample_at_def)
  have "slot_allocation_id (src_source (sample_source_token al)) = 1" by (simp add: sample_more_defs)
  with active_lease_pins_slot [OF reach s] s(1) show ?thesis by auto
qed

lemma release_source_total:
  assumes "pool_reach p" "segment p = Some s" "map_of (source_leases s) op = Some l" "sl_state l = ActiveLease"
    and "revision_room (seg_allocator s)"
  shows "\<exists>p' s'. release_source p op (sl_lease_id l) outcome = Some (p', SourceReleased) \<and> segment p' = Some s' \<and>
    map_of (source_leases s') op = Some (l\<lparr>sl_state := ReleasedLease outcome\<rparr>)"
proof -
  note inv = pool_inv_reach [OF assms(1)]
  note si = reach_phys(5) [OF assms(1,2)] and ok = reach_phys(3) [OF assms(1,2)]
  let ?i = "lease_slot l"
  let ?l = "l\<lparr>sl_state := ReleasedLease outcome\<rparr>"
  obtain r where r: "alloc_map s ?i = Some r"
    using identity_live [OF lease_okD(3) [OF ok assms(3,4)]] by (auto simp: lease_slot_def)
  have "map_count (src_map s) (active_on ?i) \<noteq> 0"
    unfolding map_count_0 [OF src_finite(1)] using assms(3,4) by (auto simp: active_on_def lease_slot_def)
  then obtain n where n: "os_source_read_lease_count r = Suc n"
    using lease_okD(2) [OF ok r] not0_implies_Suc by metis
  let ?r = "r\<lparr>os_source_read_lease_count := n\<rparr>"
  let ?s1 = "(set_allocation s ?i ?r)\<lparr>source_leases := AList.update op ?l (source_leases s)\<rparr>"
  have sl: "lease_slot ?l = ?i" by (simp add: lease_slot_def)
  have to1: "seg_to s ?s1 (slot_states s)"
    using seg_inv_lease_update [OF si, of ?l r True op n] assms(3,4) r n by (simp add: sl)
  have lookup: "map_of (source_leases ?s1) op = Some ?l" by (simp add: update_conv')
  have r1: "alloc_map ?s1 ?i = Some ?r" "seg_allocator ?s1 = seg_allocator s" by (simp_all add: set_allocation_def update_conv')
  show ?thesis
  proof (cases "n = 0 \<and> os_state r = Committed False 0")
    case True
    obtain s' where fr: "free_allocation ?s1 ?i = Some s'"
      using free_allocation_total [OF seg_toD(1) [OF to1] r1(1)] True assms(5) r1(2) by auto
    have "slot_states s ?i = Some (Committed False 0)" using r True by (simp add: slot_states_def)
    then have "0 < committed_slots p"
      using pool_invD(6) [OF inv assms(2)] map_count_0 [OF slot_states_finite, of s is_committed_slot]
      by (metis gr_zeroI is_committed_slot.simps(1))
    then obtain c where c: "checked_sub (committed_slots p) 1 = Some c" by (auto simp: checked_sub_def)
    have rel: "seg_release_source s op (sl_lease_id l) outcome = Some (s', SourceReleased)"
      using assms(3,4) r n True fr
      by (simp add: seg_release_source_def seg_allocation_def lease_slot_def checked_sub_def Let_def)
    obtain q where "release_source p op (sl_lease_id l) outcome = Some (q, SourceReleased)" "segment q = Some s'"
      using rel c assms(2) by (cases "length (allocations s') < length (allocations s)") (auto simp: release_source_def)
    with free_allocation_inv(4) [OF seg_toD(1) [OF to1] fr] lookup show ?thesis by auto
  next
    case False
    then have rel: "seg_release_source s op (sl_lease_id l) outcome = Some (?s1, SourceReleased)"
      using assms(3,4) r n
      by (auto simp: seg_release_source_def seg_allocation_def lease_slot_def checked_sub_def Let_def)
    have "length (allocations ?s1) = length (allocations s)"
      using length_set_allocation [OF r] by simp
    then have "release_source p op (sl_lease_id l) outcome = Some (p\<lparr>segment := Some ?s1\<rparr>, SourceReleased)"
      using rel assms(2) by (cases p) (simp add: release_source_def)
    with lookup show ?thesis by simp
  qed
qed

text \<open>C9: Releasing an active source lease always succeeds and is recorded, whatever happened to the
  slot meanwhile: the accounting errors the code reports as internal cannot occur, and the
  counter and allocator assertions cannot fail while the layout revision has room.\<close>

theorem release_source_succeeds:
  assumes "pool_reach p" "segment p = Some s" "map_of (source_leases s) op = Some l" "sl_state l = ActiveLease"
    and "revision_room (seg_allocator s)"
  shows "\<exists>p' s'. release_source p op (sl_lease_id l) outcome = Some (p', SourceReleased) \<and> segment p' = Some s' \<and>
    map_of (source_leases s') op = Some (l\<lparr>sl_state := ReleasedLease outcome\<rparr>)"
  using assms by (rule release_source_total)

theorem release_source_succeeds_witness:
  "\<exists>(p :: owner_pool) p'. release_source p sample_get (sample_lease 2) TransferSuccess = Some (p', SourceReleased)"
proof -
  obtain a al where reach: "pool_reach (sample_leased a al)" "revision_room a" by (rule sample_reach)
  define s where "s = the (segment (sample_leased a al))"
  have s: "segment (sample_leased a al) = Some s"
    "map_of (source_leases s) sample_get = Some \<lparr>sl_lease_id = sample_lease 2,
       sl_route_token = sample_source_token al, sl_state = ActiveLease\<rparr>" "seg_allocator s = a"
    by (simp_all add: s_def sample_leased_def sample_pool_def sample_at_def sample_segment_def)
  from release_source_succeeds [OF reach(1) s(1,2), of TransferSuccess] reach(2) s(3) show ?thesis by auto
qed

section \<open>Retries have no further effect\<close>

text \<open>C31: A source acquisition that is retried after a lost answer gets the same lease and slot, and
  takes no second read reference.\<close>

theorem acquire_source_replay:
  assumes "acquire_source p op tok = Some (p', SourceAcquired lid slot)"
  shows "acquire_source p' op tok = Some (p', SourceAcquired lid slot)"
proof -
  obtain q s s' l where q: "acquire_source p op tok = Some (q\<lparr>segment := Some s'\<rparr>, SourceAcquired lid slot)"
      "p' = q\<lparr>segment := Some s'\<rparr>" "segment q = Some s" "seg_acquire_source s op tok l = Some (s', SourceAcquired lid slot)"
    using assms
    by (auto simp: acquire_source_def Let_def bind_eq_Some_conv split: prod.splits sum.splits option.splits)
  have "\<exists>x. src_map s' op = Some x \<and> sl_route_token x = tok \<and> sl_state x = ActiveLease \<and>
      sl_lease_id x = lid \<and> src_source tok = slot"
  proof (cases "src_map s op")
    case (Some x)
    with q(4) show ?thesis
      by (auto simp: seg_acquire_source_def split: if_splits owner_source_lease_state.splits)
  next
    case None
    then obtain r b k where r: "seg_allocation s (slot_allocation_id (src_source tok)) = Some r" "os_state r = Committed b k"
      using q(4) by (auto simp: seg_acquire_source_def split: option.splits if_splits owner_slot_state.splits)
    with q(4) None show ?thesis
      by (cases b) (auto simp: seg_acquire_source_def bind_eq_Some_conv Let_def update_conv' split: option.splits if_splits)
  qed
  then obtain x where x: "src_map s' op = Some x" "sl_route_token x = tok" "sl_state x = ActiveLease"
      "sl_lease_id x = lid" "src_source tok = slot" by blast
  have "q\<lparr>segment := Some s', segment := Some s'\<rparr> = q\<lparr>segment := Some s'\<rparr>" by simp
  with x show ?thesis unfolding q(2) by (simp add: acquire_source_def seg_acquire_source_def)
qed

theorem acquire_source_replay_witness:
  "\<exists>(p :: owner_pool) al. acquire_source p sample_get (sample_source_token al) =
     Some (p, SourceAcquired (sample_lease 2) (sample_slot al))"
proof -
  obtain a al where "pool_reach (sample_leased a al)" "offset al \<le> 90" by (rule sample_reach)
  from acquire_source_replay [OF sample_acquire [OF this(2)]] show ?thesis by blast
qed

lemma free_keeps_leases:
  assumes "free_allocation s i = Some s'"
  shows "source_leases s' = source_leases s"
  using assms
  by (cases "manifest_key_by_allocation s i"; cases "manifest_by_key s (the (manifest_key_by_allocation s i))")
    (auto simp: free_allocation_def remove_manifest_for_allocation_def clear_allocatable_report_cache_def
      bind_eq_Some_conv Let_def)

text \<open>C32: A source release that is retried is answered as released and releases nothing twice.\<close>

theorem release_source_replay:
  assumes "release_source p op lid outcome = Some (p', SourceReleased)"
  shows "release_source p' op lid outcome = Some (p', SourceReleased)"
proof -
  obtain s where s: "segment p = Some s" using assms by (cases "segment p") (simp_all add: release_source_def)
  with assms obtain s' c where s': "seg_release_source s op lid outcome = Some (s', SourceReleased)"
    "p' = p\<lparr>segment := Some s', committed_slots := c\<rparr>"
    by (auto simp: release_source_def bind_eq_Some_conv)
  obtain l where l: "src_map s op = Some l" "sl_lease_id l = lid"
    using s'(1) by (auto simp: seg_release_source_def split: option.splits if_splits)
  have "\<exists>x. src_map s' op = Some x \<and> sl_lease_id x = lid \<and> sl_state x = ReleasedLease outcome"
  proof (cases "sl_state l")
    case (ReleasedLease prev)
    with s'(1) l show ?thesis by (auto simp: seg_release_source_def split: if_splits)
  next
    case ActiveLease
    let ?l = "l\<lparr>sl_state := ReleasedLease outcome\<rparr>"
    obtain r n where r: "seg_allocation s (lease_slot l) = Some r" "checked_sub (os_source_read_lease_count r) 1 = Some n"
      using s'(1) l ActiveLease
      by (auto simp: seg_release_source_def Let_def lease_slot_def split: option.splits)
    with s'(1) l ActiveLease have "source_leases s' = AList.update op ?l (source_leases s)"
      by (auto simp: seg_release_source_def Let_def lease_slot_def bind_eq_Some_conv
          dest: free_keeps_leases split: if_splits)
    with l(2) show ?thesis by (simp add: update_conv')
  qed
  then obtain x where "src_map s' op = Some x" "sl_lease_id x = lid" "sl_state x = ReleasedLease outcome" by blast
  then have "seg_release_source s' op lid outcome = Some (s', SourceReleased)" by (simp add: seg_release_source_def)
  then show ?thesis unfolding s'(2) by (simp add: release_source_def)
qed

theorem release_source_replay_witness:
  "\<exists>p :: owner_pool. release_source p sample_get (sample_lease 2) TransferSuccess = Some (p, SourceReleased)"
proof -
  have "\<exists>p'. release_source (sample_leased a al) sample_get (sample_lease 2) TransferSuccess = Some (p', SourceReleased)"
    for a al
    by (simp add: sample_leased_def sample_more_defs release_source_def seg_release_source_def seg_allocation_def
        checked_sub_def)
  then obtain a al p' where "release_source (sample_leased a al) sample_get (sample_lease 2) TransferSuccess =
      Some (p', SourceReleased)" by blast
  from release_source_replay [OF this] show ?thesis by blast
qed

lemma claim_keeps_owner:
  assumes "claim_prepared_slot s cap vlen i = Some (s', res)"
  shows "seg_owner s' = seg_owner s"
proof (cases "s' = s")
  case False
  with assms obtain a c where a: "allocate (seg_allocator s) (cap div GRANULARITY) = Some (a, c)"
    by (auto simp: claim_prepared_slot_def bind_eq_Some_conv split: if_splits)
  show ?thesis
  proof (cases c)
    case None
    with assms a False show ?thesis by (auto simp: claim_prepared_slot_def split: if_splits)
  next
    case (Some al)
    with assms a False show ?thesis
      by (cases "owner_segment_offset_bytes (offset al)")
        (auto simp: claim_prepared_slot_def clear_allocatable_report_cache_def Let_def bind_eq_Some_conv split: if_splits)
  qed
qed simp

lemma claim_one_cases:
  assumes "claim_available_with_len p cap vlen 1 = Some (p', slots)" "segment p = Some s" "slots \<noteq> []"
  obtains s' slot where "claim_prepared_slot s cap vlen (next_allocation_id p + 1) = Some (s', Some slot)"
    "slots = [slot]" "segment p' = Some s'" "seg_owner s' = seg_owner s" "local_target_bytes p' = local_target_bytes p"
  using assms claim_keeps_owner
  by (auto simp: claim_available_with_len_def bind_eq_Some_conv checked_add_def Let_def split: if_splits option.splits)

lemma prepare_target_fresh:
  assumes "prepare_target p op tgt key pid len disp batch = Some (p', TargetPrepared lid slot v)"
    and "segment p = Some s" "target_leases s op = None"
  obtains slot_size s1 p1 q e s2 where "owner_segment_allocation_capacity_bytes len = Some slot_size"
    "\<not> (disp = GlobalShared \<and> global_budget_full p s slot_size)" "tgt = seg_owner s"
    "claim_available_with_len p slot_size len 1 = Some (p1, [slot])"
    "claim_prepared_slot s slot_size len (next_allocation_id p + 1) = Some (s1, Some slot)" "segment p1 = Some s1"
    "allocate_lease_id p1 = (q, Inr lid)" "local_target_bytes q = local_target_bytes p" "seg_owner s1 = seg_owner s"
    "e = \<lparr>me_key = key, me_put_id = pid, me_slot = slot, me_scope = disposition_scope disp, me_disposition = disp,
          me_route_epoch = 0, me_physical_state = ReservedPhysical\<rparr>"
    "install_manifest_entry s1 e = (s2, Inr ())" "v = PreparedView" "seg_manifest_entry s key pid = None"
    "p' = q\<lparr>segment := Some (insert_target_lease s2 op
        \<lparr>tl_lease_id = lid, tl_key = key, tl_put_id = pid, tl_len = len, tl_disposition = disp,
         tl_atomic_batch = batch, tl_slot = slot, tl_state = TargetPreparedState\<rparr>)\<rparr>"
  using assms(1)
proof (cases rule: prepare_target_cases)
  case same
  from same(2) [OF refl] assms(2,3) show ?thesis by auto
next
  case (claimed s0 slot_size p1 slots)
  have s0: "s0 = s" using claimed(1) assms(2) by simp
  have ne: "slots \<noteq> []" using claimed(8) by (cases slots) auto
  obtain s1 c where cl: "claim_prepared_slot s slot_size len (next_allocation_id p + 1) = Some (s1, Some c)"
    "slots = [c]" "segment p1 = Some s1" "seg_owner s1 = seg_owner s" "local_target_bytes p1 = local_target_bytes p"
    by (rule claim_one_cases [OF claimed(7) assms(2) ne])
  have lc: "lease_claimed_target p1 op key pid len disp batch c = Some (p', TargetPrepared lid slot v)"
    using claimed(8) cl(2) by simp
  obtain q l where ql: "allocate_lease_id p1 = (q, l)" by (cases "allocate_lease_id p1")
  have q: "segment q = Some s1" "local_target_bytes q = local_target_bytes p"
    using allocate_lease_id_frame(1) [OF ql] cl(3,5) ql by (auto simp: allocate_lease_id_def split: option.splits)
  obtain lid' where l: "l = Inr lid'" using lc ql by (cases l) (auto simp: lease_claimed_target_def bind_eq_Some_conv)
  let ?e = "\<lparr>me_key = key, me_put_id = pid, me_slot = c, me_scope = disposition_scope disp, me_disposition = disp,
          me_route_epoch = 0, me_physical_state = ReservedPhysical\<rparr>"
  obtain s2 res where ins: "install_manifest_entry s1 ?e = (s2, res)" by (cases "install_manifest_entry s1 ?e")
  obtain u where u: "res = Inr u" using lc ql l q ins by (cases res) (auto simp: lease_claimed_target_def bind_eq_Some_conv)
  have fin: "lid' = lid" "c = slot" "v = PreparedView"
    "p' = q\<lparr>segment := Some (insert_target_lease s2 op
        \<lparr>tl_lease_id = lid, tl_key = key, tl_put_id = pid, tl_len = len, tl_disposition = disp,
         tl_atomic_batch = batch, tl_slot = slot, tl_state = TargetPreparedState\<rparr>)\<rparr>"
    using lc ql l q ins u by (auto simp: lease_claimed_target_def)
  show ?thesis
    by (rule that [OF claimed(4) _ _ _ _ cl(3) _ q(2) cl(4) refl _ fin(3) _ fin(4)])
      (use claimed s0 cl ql l ins u fin in simp_all)
qed

text \<open>C13: A target preparation that is retried after a lost answer gets the same lease and the same
  slot, and claims no second one.\<close>

theorem prepare_target_replay:
  assumes "prepare_target p op tgt key pid len disp batch = Some (p', TargetPrepared lid slot v)"
  shows "prepare_target p' op tgt key pid len disp batch = Some (p', TargetPrepared lid slot v)"
proof -
  obtain s where s: "segment p = Some s" using assms by (cases "segment p") (auto simp: prepare_target_def)
  show ?thesis
  proof (cases "target_leases s op")
    case (Some e)
    with assms s have "p' = p" by (auto simp: prepare_target_def split: if_splits)
    with assms show ?thesis by simp
  next
    case None
    obtain s1 q e s2 where x: "tgt = seg_owner s" "seg_owner s1 = seg_owner s" "install_manifest_entry s1 e = (s2, Inr ())"
      "v = PreparedView" "p' = q\<lparr>segment := Some (insert_target_lease s2 op
        \<lparr>tl_lease_id = lid, tl_key = key, tl_put_id = pid, tl_len = len, tl_disposition = disp,
         tl_atomic_batch = batch, tl_slot = slot, tl_state = TargetPreparedState\<rparr>)\<rparr>"
      by (rule prepare_target_fresh [OF assms s None]) blast
    have "seg_owner s2 = seg_owner s1" using install_manifest_frame(8) [of s1 e] x(3) by (simp add: same_segment_def)
    with x show ?thesis by (simp add: prepare_target_def insert_target_lease_def prepared_replay_def)
  qed
qed

theorem prepare_target_replay_witness:
  "\<exists>(p :: owner_pool) al. prepare_target p sample_put sample_owner ''k'' (1, 0) 40000 GlobalShared None =
     Some (p, TargetPrepared (sample_lease 1) (sample_slot al) PreparedView)"
proof -
  obtain a a' al where "allocate a 10 = Some (a', Some al)" "offset al \<le> 90" by (rule sample_allocator)
  from prepare_target_replay [OF sample_prepare_at [OF this]] show ?thesis by blast
qed

text \<open>C30: A commit is final and its retry harmless: once a target lease is committed at a route
  epoch, finishing it again at that epoch answers the same, and at another epoch it conflicts,
  both without any change.\<close>

theorem finish_commit_replay:
  assumes "finish_target_commit p op lid epoch = Some (p', TargetCommitted lid' slot epoch')"
  shows "finish_target_commit p' op lid epoch = Some (p', TargetCommitted lid' slot epoch') \<and>
    (other \<noteq> epoch \<longrightarrow> finish_target_commit p' op lid other = Some (p', error_outcome Conflict))"
proof -
  obtain s e where s: "segment p = Some s" "target_leases s op = Some e"
    using assms by (auto simp: finish_target_commit_def split: option.splits)
  have lid: "tl_lease_id e = lid" using assms s by (auto simp: finish_target_commit_def split: if_splits)
  show ?thesis
  proof (cases "tl_state e")
    case (TargetRoutePendingState rc tok)
    from assms s lid TargetRoutePendingState obtain s1 s2 where
      st: "set_target_state s1 op (TargetCommittedState epoch) = Some s2" "segment p' = Some s2"
      and s1: "target_leases s1 op = Some e" and out: "lid' = lid" "slot = tl_slot e" "epoch' = epoch"
      by (auto simp: finish_target_commit_def Let_def bind_eq_Some_conv update_manifest_frame(3) split: if_splits)
    have "target_leases s2 op = Some (e\<lparr>tl_state := TargetCommittedState epoch\<rparr>)"
      using st(1) s1 by (auto simp: set_target_state_def)
    with st(2) lid out show ?thesis by (simp add: finish_target_commit_def)
  qed (use assms s lid in \<open>auto simp: finish_target_commit_def split: if_splits\<close>)
qed

theorem finish_commit_replay_witness:
  "\<exists>(p :: owner_pool) al. finish_target_commit p sample_put (sample_lease 1) 7 =
       Some (p, TargetCommitted (sample_lease 1) (sample_slot al) 7) \<and>
     finish_target_commit p sample_put (sample_lease 1) 8 = Some (p, error_outcome Conflict)"
  using finish_commit_replay [OF sample_finish, where other = 8] by auto

section \<open>Claims\<close>

lemma claim_prepared_slot_total:
  assumes inv: "seg_inv s" and none: "alloc_map s i = None" and room: "revision_room (seg_allocator s)"
  shows "\<exists>s' res. claim_prepared_slot s cap vlen i = Some (s', res) \<and>
    layout_revision (seg_allocator s') \<le> Suc (layout_revision (seg_allocator s))"
proof (cases "i = 0 \<or> vlen = 0 \<or> cap = 0 \<or> cap < vlen \<or> seg_len s < cap \<or> cap mod GRANULARITY \<noteq> 0 \<or>
    u32_bound \<le> cap div GRANULARITY")
  case True
  then show ?thesis by (auto simp: claim_prepared_slot_def)
next
  case ok: False
  let ?a = "seg_allocator s" and ?n = "cap div GRANULARITY"
  have phys: "phys_ok s" using inv by (simp add: seg_inv_def)
  obtain bs L where rep: "alloc_rep ?a bs L" using phys_okD(1) [OF phys] by (auto simp: alloc_inv_def)
  have n: "?n < u32_bound" "0 < ?n" using ok by (auto simp: div_greater_zero_iff dest: mod_less)
  from allocate_rep [OF rep n(1)] room consider "allocate ?a ?n = Some (?a, None)"
    | a' al bs' L' where "allocate ?a ?n = Some (a', Some al)" "alloc_rep a' bs' L'" "allocated ?a ?n a' al"
    by (auto simp: revision_room_def)
  then show ?thesis
  proof cases
    case 1
    with ok show ?thesis by (simp add: claim_prepared_slot_def)
  next
    case (2 a' al bs' L')
    have inv': "alloc_inv a'" using 2(2) by (auto simp: alloc_inv_def)
    have "allocations_by_offset s (offset al) = None"
    proof (rule ccontr)
      assume "allocations_by_offset s (offset al) \<noteq> None"
      then obtain j g where g: "geom s j = Some g" "offset (g_allocation g) = offset al"
        using phys_okD(8) [OF phys, of "offset al"] by auto
      from phys_okD(5) [OF phys g(1)] have gok: "g_node g \<in> live ?a" "offset (g_allocation g) = block_offset ?a (g_node g)"
        "0 < block_size ?a (g_node g)" by (auto simp: geometry_ok_def)
      note keep = allocated_keeps [OF phys_okD(1) [OF phys] 2(3) gok(1)]
      have new: "metadata al \<in> live a'" "offset al = block_offset a' (metadata al)" "block_size a' (metadata al) = ?n"
        using 2(3) by (auto simp: allocated_def)
      from oa.regions_disjoint [OF inv' keep(1) new(1) keep(4)] keep(2,3) gok(2,3) g(2) new(2,3) n(2)
      show False by auto
    qed
    then show ?thesis
      using ok none 2(1,3)
      by (cases "owner_segment_offset_bytes (offset al)")
        (auto simp: claim_prepared_slot_def assert_or_panic_def clear_allocatable_report_cache_def allocated_def Let_def)
  qed
qed

lemma live_slots_small:
  assumes "pool_inv p" "segment p = Some s"
  shows "prepared_slots p + 1 < u64_bound" "committed_slots p + 1 < u64_bound"
proof -
  have phys: "phys_ok s" using pool_invD(1) [OF assms] by (simp add: seg_inv_def)
  have "length (allocations s) = sum_list (map (\<lambda>_. 1) (allocations s))" by (simp add: sum_list_triv)
  also have "\<dots> \<le> sum_list (map (\<lambda>(_, r). os_capacity_bytes r) (allocations s))"
  proof (rule sum_list_mono)
    fix x assume "x \<in> set (allocations s)"
    then have "alloc_map s (fst x) = Some (snd x)" using phys_okD(4) [OF phys] by (simp add: map_of_eq_Some_iff)
    from slot_bounds(2,3) [OF phys this] show "1 \<le> (\<lambda>(_, r). os_capacity_bytes r) x" by (simp add: split_beta)
  qed
  also have "\<dots> \<le> seg_len s" using capacity_accounted [OF phys] by linarith
  finally have "length (allocations s) \<le> seg_len s" .
  moreover have "prepared_slots p \<le> length (allocations s)" "committed_slots p \<le> length (allocations s)"
    using pool_invD(4,6) [OF assms] slot_states_count [OF phys] by simp_all
  moreover have "alloc_size (seg_allocator s) < u32_bound"
    using phys_okD(1) [OF phys] alloc_rep_size by (auto simp: alloc_inv_def)
  ultimately show "prepared_slots p + 1 < u64_bound" "committed_slots p + 1 < u64_bound"
    using phys_okD(2) [OF phys] by simp_all
qed

lemma claim_loop_total:
  assumes "pool_inv p" "segment p = Some s" "next_allocation_id p + n < u64_bound"
    "layout_revision (seg_allocator s) + n < u64_bound"
    "distinct (map slot_allocation_id slots)" "\<forall>x \<in> set slots. slot_allocation_id x \<le> next_allocation_id p"
  shows "\<exists>p' slots'. claim_loop p cap vlen n slots = Some (p', slots') \<and> length slots' \<le> length slots + n \<and>
    distinct (map slot_allocation_id slots')"
  using assms
proof (induction n arbitrary: p s slots)
  case (Suc n)
  let ?i = "next_allocation_id p + 1"
  have fresh: "alloc_map s ?i = None"
    using pool_invD(7) [OF Suc.prems(1,2), of ?i] by (cases "slot_states s ?i") (auto simp: slot_states_None)
  have room: "revision_room (seg_allocator s)" using Suc.prems(4) by (simp add: revision_room_def)
  note si = pool_invD(1) [OF Suc.prems(1,2)]
  obtain s' res where cl: "claim_prepared_slot s cap vlen ?i = Some (s', res)"
    "layout_revision (seg_allocator s') \<le> Suc (layout_revision (seg_allocator s))"
    using claim_prepared_slot_total [OF si fresh room] by blast
  have bnd: "checked_add u64_bound (next_allocation_id p) 1 = Some ?i" using Suc.prems(3) by (simp add: checked_add_def)
  show ?case
  proof (cases res)
    case None
    with Suc.prems cl bnd show ?thesis by simp
  next
    case (Some slot)
    note new = seg_to_claim [OF si cl(1), unfolded Some option.case]
    have pn: "checked_add u64_bound (prepared_slots p) 1 = Some (prepared_slots p + 1)"
      using live_slots_small(1) [OF Suc.prems(1,2)] by (simp add: checked_add_def)
    let ?p = "p\<lparr>next_allocation_id := ?i, segment := Some s', prepared_slots := prepared_slots p + 1\<rparr>"
    have "pool_inv ?p"
      by (rule pool_inv_change [OF Suc.prems(1,2), of s' ?i "Some Prepared"]) (use new in simp_all)
    then have "\<exists>p' slots'. claim_loop ?p cap vlen n (slots @ [slot]) = Some (p', slots') \<and>
        length slots' \<le> length (slots @ [slot]) + n \<and> distinct (map slot_allocation_id slots')"
      by (rule Suc.IH [of _ s']) (use Suc.prems cl(2) new in auto)
    moreover have "claim_loop p cap vlen (Suc n) slots = claim_loop ?p cap vlen n (slots @ [slot])"
      using Suc.prems(2) cl(1) bnd pn Some by simp
    ultimately show ?thesis by auto
  qed
qed simp

text \<open>C22: Claiming slots never panics on a reachable pool while its two 64-bit sequences have room and
  the wanted number of slots fits a vector (at most \<open>isize::MAX\<close> bytes of 88-byte descriptors): the
  assertions that an allocation identity or an offset is claimed twice cannot fail. The loop returns
  at most the wanted number of slots, under different identities, each a live prepared slot of the
  segment. A larger wanted number panics in the vector's allocation.\<close>

theorem claims_never_panic:
  assumes "pool_reach p" "segment p = Some s" "next_allocation_id p + n < u64_bound"
    and "layout_revision (seg_allocator s) + n < u64_bound"
  shows "if n * 88 < 2 ^ 63
    then \<exists>p' slots. claim_available_with_len p slot_size value_len n = Some (p', slots) \<and> length slots \<le> n \<and>
      distinct (map slot_allocation_id slots) \<and> (\<forall>slot \<in> set slots. prepared_desc p' slot)
    else claim_available_with_len p slot_size value_len n = None"
proof -
  note inv = pool_inv_reach [OF assms(1)]
  obtain p' slots where c: "claim_loop p slot_size value_len n [] = Some (p', slots)" "length slots \<le> n"
    "distinct (map slot_allocation_id slots)"
    using claim_loop_total [OF inv assms(2-4), of "[]" slot_size value_len] by auto
  then have eq: "claim_available_with_len p slot_size value_len n = (if n * 88 < 2 ^ 63 then Some (p', slots) else None)"
    by (simp add: claim_available_with_len_def vec_with_capacity_def assert_or_panic_def OWNER_SLOT_DESC_BYTES_def)
  show ?thesis
  proof (cases "n * 88 < 2 ^ 63")
    case True
    with eq have ok: "claim_available_with_len p slot_size value_len n = Some (p', slots)" by simp
    with True c(2,3) claim_available_inv(2) [OF inv ok] show ?thesis by simp
  next
    case False
    with eq show ?thesis by simp
  qed
qed

theorem claims_never_panic_witness:
  "\<exists>(p :: owner_pool) p' slots. claim_available_with_len p 8192 5000 3 = Some (p', slots) \<and> length slots \<le> 3"
proof -
  obtain a a' al where a: "with_max_allocs 100 102 = Some a" by (rule sample_allocator)
  have reach: "pool_reach (sample_installed a)"
    by (rule r_into_rtranclp, rule pool_step.install [OF sample_install [OF a(1)]]) simp
  have s: "segment (sample_installed a) = Some (sample_segment a)" "next_allocation_id (sample_installed a) = 0"
    "layout_revision (seg_allocator (sample_segment a)) = 1"
    using with_max_allocs_rep [of 102 100] a by (auto simp: sample_installed_def pool_default_def sample_segment_def)
  from claims_never_panic [OF reach s(1), of 3 8192 5000] s(2,3) show ?thesis by auto
qed

text \<open>C40: The capacity of a slot for a value is the least multiple of the granule that holds the value
  (and is at least one granule); the computation fails exactly when that multiple has more
  granules than the allocator can address.\<close>

theorem capacity_bytes_rounds_up:
  "owner_segment_allocation_capacity_bytes value_len =
     (let n = max 1 ((value_len + GRANULARITY - 1) div GRANULARITY)
      in if n < u32_bound then Some (n * GRANULARITY) else None)"
proof -
  let ?m = "max value_len GRANULARITY"
  have dv: "(?m + (GRANULARITY - 1)) - (?m + (GRANULARITY - 1)) mod GRANULARITY =
      (?m + (GRANULARITY - 1)) div GRANULARITY * GRANULARITY" by (metis minus_mod_eq_div_mult)
  have n: "(?m + (GRANULARITY - 1)) div GRANULARITY = max 1 ((value_len + GRANULARITY - 1) div GRANULARITY)"
    by (cases "value_len \<le> GRANULARITY") (auto simp: max_def)
  show ?thesis
  proof (cases "?m + (GRANULARITY - 1) < u64_bound")
    case True
    then show ?thesis
      by (simp only: owner_segment_allocation_capacity_bytes_def checked_add_def if_True bind.bind_lunit Let_def dv n
          div_mult_self_is_m)
  next
    case False
    then have "\<not> (?m + (GRANULARITY - 1)) div GRANULARITY < u32_bound" by (simp add: not_less)
    with False n show ?thesis
      by (simp only: owner_segment_allocation_capacity_bytes_def checked_add_def if_False bind.bind_lzero Let_def)
  qed
qed

end
