(* ===== verification/Owner_Pool_Budget.thy ===== *)
theory Owner_Pool_Budget
  imports Owner_Pool_Correct
begin

text \<open>
  The owner's capacity accounting: the budget of the global share, which preparations and
  demotion reservations draw from, and the capacity reports.
\<close>

declare map_of_eq_Some_iff [simp del] Some_eq_map_of_iff [simp del]

section \<open>The global-shared budget\<close>

text \<open>The two sums of the budget without saturation.\<close>

definition global_slot :: "owner_segment_state \<Rightarrow> u64 \<Rightarrow> bool" where
  "global_slot s i = (case manifest_key_by_allocation s i of None \<Rightarrow> False
     | Some k \<Rightarrow> (case manifest_by_key s k of None \<Rightarrow> False | Some e \<Rightarrow> me_disposition e = GlobalShared))"

definition global_bytes :: "owner_segment_state \<Rightarrow> nat" where
  "global_bytes s = sum_list (map (\<lambda>(i, r). if global_slot s i then os_capacity_bytes r else 0) (allocations s))"

definition reserved_bytes :: "owner_segment_state \<Rightarrow> nat" where
  "reserved_bytes s = sum_list (map (\<lambda>(_, slot). slot_capacity_bytes slot) (global_demotion_reservations s))"

lemma foldl_saturating:
  "c \<le> u64_bound - 1 \<Longrightarrow> foldl (saturating_add u64_bound) c xs = min (c + sum_list xs) (u64_bound - 1)"
proof (induction xs arbitrary: c)
  case (Cons x xs)
  show ?case using Cons.IH [of "saturating_add u64_bound c x"] by (simp add: saturating_add_def min_def)
qed (simp add: min_def)

lemma sum_map_filter:
  "sum_list (List.map_filter f xs) = sum_list (map (\<lambda>x. case f x of None \<Rightarrow> 0 | Some n \<Rightarrow> n) xs)" for xs :: "'a list"
  by (induction xs) (simp_all add: map_filter_simps split: option.splits)

lemma committed_min: "seg_global_committed_bytes s = min (global_bytes s) (u64_bound - 1)"
  unfolding seg_global_committed_bytes_def global_bytes_def
  by (subst foldl_saturating, simp)
    (simp add: sum_map_filter, rule arg_cong [of _ _ "\<lambda>x. min (sum_list x) _"], rule map_cong,
      auto simp: global_slot_def split: option.splits)

lemma accounted_min:
  "seg_global_accounted_bytes s = min (global_bytes s + reserved_bytes s) (u64_bound - 1)"
proof -
  have "seg_global_reserved_demotion_bytes s = min (reserved_bytes s) (u64_bound - 1)"
    unfolding seg_global_reserved_demotion_bytes_def reserved_bytes_def by (subst foldl_saturating) simp_all
  then show ?thesis
    by (simp add: seg_global_accounted_bytes_def committed_min saturating_add_def min_def)
qed

lemma update_fresh: "k \<notin> fst ` set xs \<Longrightarrow> AList.update k v xs = xs @ [(k, v)]"
  by (induction xs) auto

lemma prepare_target_global_bytes:
  assumes inv: "seg_inv s" and cl: "claim_prepared_slot s cap len i = Some (s1, Some slot)"
    and e: "me_slot e = slot" "me_disposition e = GlobalShared"
    and new: "manifest_by_key s (manifest_key (me_key e) (me_put_id e)) = None"
    and ins: "install_manifest_entry s1 e = (s2, Inr ())"
  shows "global_bytes s2 = global_bytes s + cap" "reserved_bytes s2 = reserved_bytes s" "seg_len s2 = seg_len s"
proof -
  have parts: "phys_ok s" "man_ok s" using inv by (simp_all add: seg_inv_def)
  let ?k = "manifest_key (me_key e) (me_put_id e)"
  obtain a r and al :: allocation where c: "alloc_map s i = None"
    "s1 = s\<lparr>seg_allocator := a, allocatable_report_cache := [], allocations := AList.update i r (allocations s),
              allocations_by_offset := (allocations_by_offset s)(offset al \<mapsto> i)\<rparr>"
    "slot = claimed_slot s i r" "os_capacity_bytes r = cap"
    using parts(1) cl
  proof (cases rule: claim_prepared_slot_cases)
    case (claimed a al r)
    show thesis by (rule that [OF claimed(1,11)]) (use claimed(3,12) in simp_all)
  qed simp
  have si: "slot_allocation_id slot = i" by (simp add: c(3) claimed_slot_def)
  have al: "allocations s1 = allocations s @ [(i, r)]"
    using c(1) by (simp add: c(2) update_fresh map_of_eq_None_iff)
  have s2: "manifest_by_key s2 = (manifest_by_key s)(?k \<mapsto> e)"
    "manifest_key_by_allocation s2 = (manifest_key_by_allocation s)(i \<mapsto> ?k)"
    "allocations s2 = allocations s1" "global_demotion_reservations s2 = global_demotion_reservations s" "seg_len s2 = seg_len s"
  proof -
    have "manifest_by_key s1 ?k = None" using new by (simp add: c(2))
    then show "manifest_by_key s2 = (manifest_by_key s)(?k \<mapsto> e)"
      "manifest_key_by_allocation s2 = (manifest_key_by_allocation s)(i \<mapsto> ?k)"
      "allocations s2 = allocations s1" "global_demotion_reservations s2 = global_demotion_reservations s" "seg_len s2 = seg_len s"
      using ins by (cases rule: install_manifest_cases [of s1 e]; auto simp: c(2) e(1) si)+
  qed
  have old: "global_slot s2 j = global_slot s j" if "j \<noteq> i" for j
  proof (cases "manifest_key_by_allocation s j")
    case (Some k)
    then have "k \<noteq> ?k" using man_okD(1) [OF parts(2), of j k] new by auto
    with Some that show ?thesis by (simp add: global_slot_def s2)
  qed (use that in \<open>simp add: global_slot_def s2\<close>)
  have "global_slot s2 i" by (simp add: global_slot_def s2 e(2))
  moreover have "sum_list (map (\<lambda>(j, r). if global_slot s2 j then os_capacity_bytes r else 0) (allocations s)) =
      sum_list (map (\<lambda>(j, r). if global_slot s j then os_capacity_bytes r else 0) (allocations s))"
  proof (rule arg_cong [of _ _ sum_list], rule map_cong [OF refl])
    fix x assume "x \<in> set (allocations s)"
    then have "fst x \<noteq> i" using c(1) by (force simp: map_of_eq_None_iff)
    with old show "(\<lambda>(j, r). if global_slot s2 j then os_capacity_bytes r else 0) x =
        (\<lambda>(j, r). if global_slot s j then os_capacity_bytes r else 0) x" by (simp add: split_beta)
  qed
  ultimately show "global_bytes s2 = global_bytes s + cap"
    unfolding global_bytes_def s2(3) al by (simp add: c(4))
  show "reserved_bytes s2 = reserved_bytes s" "seg_len s2 = seg_len s" by (simp_all add: reserved_bytes_def s2)
qed

text \<open>C5: A global-shared target is admitted only within the budget: after a fresh preparation
  succeeds, the bytes accounted to the global share have grown by exactly the slot's capacity
  and do not exceed the segment minus the local target.\<close>

theorem global_admission_within_budget:
  assumes "pool_reach p" "segment p = Some s" "target_leases s op = None"
    and "prepare_target p op tgt key pid len GlobalShared batch = Some (p', TargetPrepared lid slot v)"
  shows "global_accounted_bytes p' = global_accounted_bytes p + slot_capacity_bytes slot \<and>
    global_accounted_bytes p' \<le> physical_capacity_bytes p' - local_target_bytes p'"
proof -
  obtain slot_size s1 q e s2 where cap: "\<not> (GlobalShared = GlobalShared \<and> global_budget_full p s slot_size)"
    and cl: "claim_prepared_slot s slot_size len (next_allocation_id p + 1) = Some (s1, Some slot)"
    and q: "local_target_bytes q = local_target_bytes p"
    and e: "e = \<lparr>me_key = key, me_put_id = pid, me_slot = slot, me_scope = disposition_scope GlobalShared,
          me_disposition = GlobalShared, me_route_epoch = 0, me_physical_state = ReservedPhysical\<rparr>"
      "install_manifest_entry s1 e = (s2, Inr ())"
    and none: "seg_manifest_entry s key pid = None"
    and p': "p' = q\<lparr>segment := Some (insert_target_lease s2 op
        \<lparr>tl_lease_id = lid, tl_key = key, tl_put_id = pid, tl_len = len, tl_disposition = GlobalShared,
         tl_atomic_batch = batch, tl_slot = slot, tl_state = TargetPreparedState\<rparr>)\<rparr>"
    by (rule prepare_target_fresh [OF assms(4,2,3)]) blast
  note inv = reach_phys(5) [OF assms(1,2)]
  have g: "global_bytes s2 = global_bytes s + slot_size" "reserved_bytes s2 = reserved_bytes s" "seg_len s2 = seg_len s"
    using prepare_target_global_bytes [OF inv cl _ _ _ e(2)] none by (simp_all add: e(1) seg_manifest_entry_def)
  have size: "slot_capacity_bytes slot = slot_size"
    using seg_to_claim [OF inv cl] by simp
  have acc: "global_accounted_bytes p' = seg_global_accounted_bytes s2"
    by (simp add: p' global_accounted_bytes_def insert_target_lease_def accounted_min global_bytes_def
        reserved_bytes_def global_slot_def cong: option.case_cong)
  have full: "seg_global_accounted_bytes s + slot_size < u64_bound"
    "seg_global_accounted_bytes s + slot_size \<le> seg_len s - local_target_bytes p"
    using cap by (auto simp: global_budget_full_def checked_add_def split: if_splits)
  have "0 < slot_size" using slot_bounds(2,3) cl claim_prepared_slot_def [of s slot_size len] by (auto split: if_splits)
  then have "seg_global_accounted_bytes s2 = seg_global_accounted_bytes s + slot_size"
    using full(1) g(1,2) unfolding accounted_min by (simp add: min_def split: if_splits)
  with full(2) acc size g(3) assms(2) show ?thesis
    by (simp add: global_accounted_bytes_def p' physical_capacity_bytes_def insert_target_lease_def q)
qed

theorem global_admission_within_budget_witness:
  "\<exists>p :: owner_pool. global_accounted_bytes p = 40960 \<and> 40960 \<le> physical_capacity_bytes p - local_target_bytes p"
proof -
  obtain a a' al where a: "with_max_allocs 100 102 = Some a" "allocate a 10 = Some (a', Some al)" "offset al \<le> 90"
    by (rule sample_allocator)
  have reach: "pool_reach (sample_installed a)"
    by (rule r_into_rtranclp, rule pool_step.install [OF sample_install [OF a(1)]]) simp
  have s: "segment (sample_installed a) = Some (sample_segment a)" "target_leases (sample_segment a) sample_put = None"
    "global_accounted_bytes (sample_installed a) = 0" "slot_capacity_bytes (sample_slot al) = 40960"
    by (simp_all add: sample_defs global_accounted_bytes_def accounted_min global_bytes_def reserved_bytes_def)
  from global_admission_within_budget [OF reach s(1,2) sample_prepare_at [OF a(2,3)]] s(3,4) show ?thesis
    by (intro exI [of _ "sample_prepared a' al"]) simp
qed

lemma try_reserve_cases:
  assumes "seg_try_reserve_global_demotion s target key pid aid off cap acc = (s', acc', res)"
  obtains (same) "s' = s" "acc' = acc"
  | (reserved) e where "manifest_by_key s (manifest_key key pid) = Some e" "slot_capacity_bytes (me_slot e) = cap"
      "res_map s (manifest_key key pid) = None" "acc' = acc + cap" "acc' < u64_bound" "acc' \<le> seg_len s - target"
      "s' = s\<lparr>global_demotion_reservations :=
         AList.update (manifest_key key pid) (me_slot e) (global_demotion_reservations s)\<rparr>"
proof (cases "manifest_by_key s (manifest_key key pid)")
  case None
  with assms same show ?thesis by (simp add: seg_try_reserve_global_demotion_def)
next
  case e: (Some e)
  show ?thesis
  proof (cases "slot_allocation_id (me_slot e) \<noteq> aid \<or> slot_segment_offset (me_slot e) \<noteq> off \<or>
      slot_capacity_bytes (me_slot e) \<noteq> cap \<or> me_physical_state e \<noteq> CommittedPhysical \<or> me_scope e \<noteq> Some LocalExclusiveScope")
    case True
    with assms e same show ?thesis
      by (auto simp: seg_try_reserve_global_demotion_def Let_def split: if_splits)
  next
    case ok: False
    show ?thesis
    proof (cases "res_map s (manifest_key key pid)")
      case (Some x)
      with assms e ok same show ?thesis
        by (auto simp: seg_try_reserve_global_demotion_def Let_def split: if_splits)
    next
      case none: None
      show ?thesis
      proof (cases "acc + cap < u64_bound \<and> acc + cap \<le> seg_len s - target")
        case True
        from True assms e ok none show ?thesis
          by (intro reserved [OF e _ none]) (auto simp: seg_try_reserve_global_demotion_def checked_add_def Let_def)
      next
        case False
        with assms e ok none show ?thesis
          by (intro same) (auto simp: seg_try_reserve_global_demotion_def checked_add_def Let_def split: if_splits)
      qed
    qed
  qed
qed

lemma reserve_one_accounted:
  assumes eq: "seg_try_reserve_global_demotion s target key pid aid off cap (seg_global_accounted_bytes s) = (s', acc, res)"
  shows "acc = seg_global_accounted_bytes s'" "seg_len s' = seg_len s"
    "seg_global_accounted_bytes s \<le> seg_len s - target \<Longrightarrow> acc \<le> seg_len s - target"
proof -
  from eq have "acc = seg_global_accounted_bytes s' \<and> seg_len s' = seg_len s \<and>
    (seg_global_accounted_bytes s \<le> seg_len s - target \<longrightarrow> acc \<le> seg_len s - target)"
  proof (cases rule: try_reserve_cases)
    case same
    then show ?thesis by simp
  next
    case (reserved e)
    let ?k = "manifest_key key pid"
    have "AList.update ?k (me_slot e) (global_demotion_reservations s) = global_demotion_reservations s @ [(?k, me_slot e)]"
      by (rule update_fresh) (use reserved(3) in \<open>simp add: map_of_eq_None_iff\<close>)
    then have "reserved_bytes s' = reserved_bytes s + cap" by (simp add: reserved_bytes_def reserved(2,7))
    moreover have "global_bytes s' = global_bytes s"
      by (simp add: reserved(7) global_bytes_def global_slot_def cong: option.case_cong)
    ultimately have "seg_global_accounted_bytes s' = seg_global_accounted_bytes s + cap"
      using reserved(4,5) unfolding accounted_min by (cases "cap = 0") (auto simp: min_def split: if_splits)
    with reserved show ?thesis by simp
  qed
  then show "acc = seg_global_accounted_bytes s'" "seg_len s' = seg_len s"
    "seg_global_accounted_bytes s \<le> seg_len s - target \<Longrightarrow> acc \<le> seg_len s - target" by blast+
qed

lemma reserve_each_accounted:
  assumes "reserve_each s target (seg_global_accounted_bytes s) reqs = (s', res)"
    "seg_global_accounted_bytes s \<le> seg_len s - target"
  shows "seg_len s' = seg_len s \<and> seg_global_accounted_bytes s' \<le> seg_len s' - target"
  using assms
proof (induction reqs arbitrary: s res)
  case (Cons req rest)
  obtain key pid aid off cap where req: "req = (key, pid, aid, off, cap)" by (metis prod_cases5)
  obtain s1 acc1 r1 where one: "seg_try_reserve_global_demotion s target key pid aid off cap
      (seg_global_accounted_bytes s) = (s1, acc1, r1)" by (metis prod_cases3)
  obtain s2 rs where more: "reserve_each s1 target acc1 rest = (s2, rs)" by (cases "reserve_each s1 target acc1 rest")
  note o = reserve_one_accounted [OF one]
  have "s' = s2" using Cons.prems(1) req one more by simp
  moreover have "seg_len s2 = seg_len s1 \<and> seg_global_accounted_bytes s2 \<le> seg_len s2 - target"
    using Cons.IH [of s1 rs] more o Cons.prems(2) \<open>s' = s2\<close> by auto
  ultimately show ?case using o(2) by auto
qed simp

text \<open>C24: A batch of demotion reservations never overbooks the global share: the running total it
  carries stays the accounted bytes, so a pool within its budget stays within it, whichever
  requests of the batch are granted.\<close>

theorem reservations_within_budget:
  assumes "try_reserve_global_demotions p reqs = (p', results)"
    and "global_accounted_bytes p \<le> physical_capacity_bytes p - local_target_bytes p"
  shows "global_accounted_bytes p' \<le> physical_capacity_bytes p' - local_target_bytes p' \<and>
    length results = length reqs"
proof (cases "segment p")
  case None
  with assms show ?thesis by (auto simp: try_reserve_global_demotions_def)
next
  case (Some s)
  obtain s' res where r: "reserve_each s (local_target_bytes p) (seg_global_accounted_bytes s) reqs = (s', res)"
    by (cases "reserve_each s (local_target_bytes p) (seg_global_accounted_bytes s) reqs")
  have len: "length (snd (reserve_each s tg acc reqs)) = length reqs" for tg acc
    by (induction reqs arbitrary: s acc) (auto simp: split_beta Let_def)
  have "p' = p\<lparr>segment := Some s'\<rparr>" "results = res"
    using assms(1) Some r by (simp_all add: try_reserve_global_demotions_def)
  with reserve_each_accounted [OF r] assms(2) Some len [of "local_target_bytes p" "seg_global_accounted_bytes s"] r show ?thesis
    by (auto simp: global_accounted_bytes_def physical_capacity_bytes_def)
qed

theorem reservations_within_budget_witness:
  "\<exists>p p' results. try_reserve_global_demotions p [(''k'', (1, 0), 1, 0, 40960)] = (p', results) \<and>
     global_accounted_bytes p' \<le> physical_capacity_bytes p' - local_target_bytes p' \<and> length results = 1"
proof -
  obtain a al where reach: "pool_reach (sample_leased a al)" by (rule sample_reach)
  obtain p' results where r: "try_reserve_global_demotions (sample_leased a al) [(''k'', (1, 0), 1, 0, 40960)] = (p', results)"
    by (cases "try_reserve_global_demotions (sample_leased a al) [(''k'', (1, 0), 1, 0, 40960)]")
  have "global_accounted_bytes (sample_leased a al) \<le>
      physical_capacity_bytes (sample_leased a al) - local_target_bytes (sample_leased a al)"
    by (simp add: sample_leased_def sample_more_defs pool_default_def global_accounted_bytes_def accounted_min
        global_bytes_def reserved_bytes_def global_slot_def physical_capacity_bytes_def)
  from reservations_within_budget [OF r this] r show ?thesis by auto
qed

lemma sum_list_alist_change:
  fixes f g :: "'k \<times> 'v \<Rightarrow> nat"
  assumes "distinct (map fst xs)" "map_of xs k = Some v" "f (k, v) = g (k, v) + c"
    and "\<And>i w. i \<noteq> k \<Longrightarrow> f (i, w) = g (i, w)"
  shows "sum_list (map f xs) = sum_list (map g xs) + c"
  using assms(1,2)
proof (induction xs)
  case (Cons x xs)
  obtain i w where x: "x = (i, w)" by (cases x)
  show ?case
  proof (cases "i = k")
    case True
    have "sum_list (map f xs) = sum_list (map g xs)"
    proof (rule arg_cong [of _ _ sum_list], rule map_cong [OF refl])
      fix y assume "y \<in> set xs"
      then have "fst y \<noteq> k" using Cons.prems(1) x True by auto
      then show "f y = g y" using assms(4) by (cases y) simp
    qed
    with Cons.prems x True assms(3) show ?thesis by simp
  next
    case False
    with Cons x assms(4) show ?thesis by simp
  qed
qed simp

lemma sum_list_alist_delete:
  assumes "distinct (map fst xs)" "map_of xs k = Some v"
  shows "sum_list (map f xs) = sum_list (map f (AList.delete k xs)) + (f (k, v) :: nat)"
  using assms
proof (induction xs)
  case (Cons x xs)
  obtain i w where x: "x = (i, w)" by (cases x)
  show ?case
  proof (cases "i = k")
    case True
    have "AList.delete k xs = xs"
      using Cons.prems(1) x True by (intro delete_id) simp
    with Cons.prems x True show ?thesis by simp
  next
    case False
    with Cons x show ?thesis by simp
  qed
qed simp

text \<open>C20: Committing a reserved demotion moves bytes from the reserved to the committed side of the
  global share and changes nothing else of the budget: no bytes are counted twice and none are
  lost.\<close>

theorem commit_reserved_conserves_budget:
  assumes "pool_reach p" "segment p = Some s" "manifest_by_key s (manifest_key key pid) = Some e"
    and "me_scope e = Some LocalExclusiveScope" "me_disposition e = LocalExclusive"
    and "commit_reserved_global_demotion p key pid aid off cap = Some (p', Inr ())"
  shows "global_accounted_bytes p' = global_accounted_bytes p \<and>
    (\<exists>s'. segment p' = Some s' \<and> map_of (global_demotion_reservations s') (manifest_key key pid) = None \<and>
      seg_global_committed_bytes s' = seg_global_committed_bytes s + cap)"
proof -
  let ?k = "manifest_key key pid" and ?i = "slot_allocation_id (me_slot e)"
  note ok = reach_phys [OF assms(1,2)]
  have val: "slot_capacity_bytes (me_slot e) = cap" "reservation_matches s ?k aid off cap"
    using assms(2-6) by (auto simp: commit_reserved_global_demotion_def validate_global_demotion_reservation_def split: if_splits)
  then obtain slot where slot: "res_map s ?k = Some slot" by (auto simp: reservation_matches_def split: option.splits)
  then have "\<exists>x. manifest_by_key s ?k = Some x \<and> me_slot x = slot" using ok(4) unfolding res_ok_def by blast
  then have slot_e: "slot = me_slot e" using assms(3) by simp
  define e' where "e' = e\<lparr>me_scope := Some GlobalSharedScope, me_disposition := GlobalShared\<rparr>"
  define s' where "s' = s\<lparr>manifest_by_key := (manifest_by_key s)(?k \<mapsto> e'),
      global_demotion_reservations := AList.delete ?k (global_demotion_reservations s)\<rparr>"
  have p': "p' = p\<lparr>segment := Some s'\<rparr>"
    using assms(2,3,6) by (auto simp: commit_reserved_global_demotion_def s'_def e'_def bind_eq_Some_conv Let_def
        split: sum.splits)
  have mk: "manifest_key_by_allocation s ?i = Some ?k" using man_okD(1) [OF ok(2), of ?i ?k] assms(3) by blast
  have glob: "global_slot s' j = (j = ?i \<or> global_slot s j)" for j
  proof (cases "manifest_key_by_allocation s j = Some ?k")
    case True
    then have "j = ?i" using man_okD(1) [OF ok(2), of j ?k] assms(3) by auto
    then show ?thesis using mk by (simp add: global_slot_def s'_def e'_def)
  next
    case False
    then have "j \<noteq> ?i" using mk by auto
    with False show ?thesis by (auto simp: global_slot_def s'_def split: option.splits)
  qed
  have loc: "\<not> global_slot s ?i" using mk assms(3,5) by (simp add: global_slot_def)
  from man_okD(3) [OF ok(2) assms(3)] obtain r where r: "alloc_map s ?i = Some r" "os_capacity_bytes r = cap"
    using val(1) by (auto simp: identity_geom geom_def)
  have gb: "global_bytes s' = global_bytes s + cap"
  proof -
    have "allocations s' = allocations s" by (simp add: s'_def)
    with sum_list_alist_change [OF phys_okD(4) [OF ok(1)] r(1), of
        "\<lambda>(i, r). if global_slot s' i then os_capacity_bytes r else 0"
        "\<lambda>(i, r). if global_slot s i then os_capacity_bytes r else 0" cap] r(2) loc
    show ?thesis by (simp add: global_bytes_def glob)
  qed
  have dist: "distinct (map fst (global_demotion_reservations s))" using ok(4) by (simp add: res_ok_def)
  have rb: "reserved_bytes s = reserved_bytes s' + cap"
    unfolding reserved_bytes_def
    using sum_list_alist_delete [OF dist slot, of "\<lambda>(_, slot). slot_capacity_bytes slot"] slot_e val(1)
    by (simp add: s'_def)
  have small: "global_bytes x \<le> sum_list (map (\<lambda>(_, r). os_capacity_bytes r) (allocations x))" for x
    unfolding global_bytes_def by (intro sum_list_mono) (auto simp: split_beta)
  have "sum_list (map (\<lambda>(_, r). os_capacity_bytes r) (allocations s)) \<le> seg_len s"
    using capacity_accounted [OF ok(1)] by linarith
  moreover have "seg_len s < u64_bound"
  proof -
    have "alloc_size (seg_allocator s) < u32_bound"
      using phys_okD(1) [OF ok(1)] alloc_rep_size by (auto simp: alloc_inv_def)
    then show ?thesis using phys_okD(2) [OF ok(1)] by simp
  qed
  ultimately have "global_bytes s' \<le> u64_bound - 1"
    using small [of s'] by (simp add: s'_def)
  moreover have comm: "seg_global_committed_bytes x = min (global_bytes x) (u64_bound - 1)" for x
    by (rule committed_min)
  ultimately have "seg_global_committed_bytes s' = seg_global_committed_bytes s + cap"
    using gb by simp
  then show ?thesis
    using gb rb p' assms(2) by (simp add: global_accounted_bytes_def accounted_min delete_conv' s'_def)
qed

theorem commit_reserved_conserves_budget_witness:
  "\<exists>(p :: owner_pool) p' off. commit_reserved_global_demotion p ''k'' (1, 0) 1 off 40960 = Some (p', Inr ()) \<and>
     global_accounted_bytes p' = global_accounted_bytes p"
proof -
  obtain a al where reach: "pool_reach (sample_committed a al)" by (rule sample_reach)
  let ?o = "GRANULARITY * offset al"
  define p1 where "p1 = fst (update_committed_manifest_scope (sample_committed a al) ''k'' (1, 0) 1 ?o 40960 LocalExclusiveScope)"
  define p2 where "p2 = fst (try_reserve_global_demotions p1 [(''k'', (1, 0), 1, ?o, 40960)])"
  have reach1: "pool_reach p1" unfolding p1_def by (rule rtranclp.rtrancl_into_rtrancl [OF reach pool_step.update_scope])
  have reach2: "pool_reach p2" unfolding p2_def by (rule rtranclp.rtrancl_into_rtrancl [OF reach1 pool_step.reserve])
  have p1: "segment p1 = Some (the (segment p1))" "local_target_bytes p1 = 0" "seg_len (the (segment p1)) = 409600"
    "manifest_by_key (the (segment p1)) (manifest_key ''k'' (1, 0)) = Some ((sample_manifest al)
       \<lparr>me_physical_state := CommittedPhysical, me_route_epoch := 7, me_scope := Some LocalExclusiveScope, me_disposition := LocalExclusive\<rparr>)"
    "global_demotion_reservations (the (segment p1)) = []" "seg_global_accounted_bytes (the (segment p1)) = 0"
    by (simp_all add: p1_def update_committed_manifest_scope_def update_committed_manifest_scope_inner_def
        sample_more_defs pool_default_def accounted_min global_bytes_def reserved_bytes_def global_slot_def)
  obtain s1 where s1: "segment p1 = Some s1" using p1(1) by blast
  have m: "me_slot ((sample_manifest al)\<lparr>me_physical_state := CommittedPhysical, me_route_epoch := 7,
      me_scope := Some LocalExclusiveScope, me_disposition := LocalExclusive\<rparr>) = sample_slot al"
    by (simp add: sample_manifest_def)
  have sl: "slot_allocation_id (sample_slot al) = 1" "slot_segment_offset (sample_slot al) = ?o" "slot_capacity_bytes (sample_slot al) = 40960"
    by (simp_all add: sample_slot_def)
  let ?s2 = "s1\<lparr>global_demotion_reservations := [(manifest_key ''k'' (1, 0), sample_slot al)]\<rparr>"
  have s2: "segment p2 = Some ?s2" "local_target_bytes p2 = 0"
    using p1 s1 m sl
    by (simp_all add: p2_def try_reserve_global_demotions_def seg_try_reserve_global_demotion_def checked_add_def Let_def)
  let ?e = "(sample_manifest al)\<lparr>me_physical_state := CommittedPhysical, me_route_epoch := 7,
      me_scope := Some LocalExclusiveScope, me_disposition := LocalExclusive\<rparr>"
  have e: "manifest_by_key ?s2 (manifest_key ''k'' (1, 0)) = Some ?e" using p1(4) s1 by simp
  obtain p' where c: "commit_reserved_global_demotion p2 ''k'' (1, 0) 1 ?o 40960 = Some (p', Inr ())"
    using s2 e m sl
    by (simp add: commit_reserved_global_demotion_def validate_global_demotion_reservation_def reservation_matches_def)
  from commit_reserved_conserves_budget [OF reach2 s2(1) e _ _ c] c show ?thesis by auto
qed

section \<open>Capacity reports\<close>

lemma seg_free_bytes:
  assumes "phys_ok s"
  shows "seg_total_free_bytes s = Some (if 0 < free_offset (seg_allocator s)
    then free_storage (seg_allocator s) * GRANULARITY else 0)"
  using storage_report_total [OF phys_okD(1) [OF assms]] by (auto simp: seg_total_free_bytes_def)

lemma compute_report_exact:
  assumes inv: "phys_ok s" and sz: "0 < slot_size" "slot_size \<le> seg_len s" "slot_size mod GRANULARITY = 0"
    and raw: "raw = free_storage (seg_allocator s) * GRANULARITY"
  defines "n \<equiv> (\<Sum>m \<in> free_blocks (seg_allocator s). block_size (seg_allocator s) m div (slot_size div GRANULARITY))"
  shows "n * slot_size \<le> raw \<and> compute_allocatable_report s raw slot_size =
    Some \<lparr>raw_free_bytes = raw, report_slots = n, report_bytes = n * slot_size, slot_unallocatable_bytes = raw - n * slot_size\<rparr>"
proof -
  let ?a = "seg_allocator s" and ?u = "slot_size div GRANULARITY"
  obtain bs L where rep: "alloc_rep ?a bs L" using phys_okD(1) [OF inv] by (auto simp: alloc_inv_def)
  have size: "slot_size = ?u * GRANULARITY" using sz(3) by auto
  then have u: "0 < ?u" using sz(1) by (cases ?u) auto
  have lim: "alloc_size ?a < u32_bound" using alloc_rep_size [OF rep] .
  have "?u \<le> alloc_size ?a" using sz(2) size phys_okD(2) [OF inv] by linarith
  then have ub: "?u < u32_bound" using lim by linarith
  have "n * ?u = (\<Sum>m \<in> free_blocks ?a. block_size ?a m div ?u * ?u)" by (simp add: n_def sum_distrib_right)
  also have "\<dots> \<le> (\<Sum>m \<in> free_blocks ?a. block_size ?a m)" by (intro sum_mono) simp
  also have "\<dots> = free_storage ?a" using free_storage_sum [OF rep] by simp
  finally have le: "n * ?u \<le> free_storage ?a" .
  then have le': "n * slot_size \<le> raw" unfolding raw using size by (metis mult.assoc mult_le_mono1)
  have "free_storage ?a < u32_bound" using alloc_rep_accounted [OF rep] lim by linarith
  then have "n * slot_size < u64_bound" using le' raw by simp
  with le' u ub report_exact [OF rep u] raw show ?thesis
    by (simp add: compute_allocatable_report_def assert_or_panic_def checked_mul_def checked_sub_def n_def)
qed

text \<open>C14: The capacity report is exact and cannot be stale. While the allocator has a spare node, a
  report for a granule multiple within the segment always answers, and whether it comes from
  the cache or is computed, it counts the slots of that size the free regions can hold, region
  by region, and splits the free bytes into those and the remainder.\<close>

theorem allocatable_report_exact:
  assumes "pool_reach p" "segment p = Some s" "0 < free_offset (seg_allocator s)"
    and "0 < slot_size" "slot_size \<le> seg_len s" "slot_size mod GRANULARITY = 0"
  shows "\<exists>p' rep. allocatable_report p slot_size = Some (p', rep) \<and>
    report_slots rep = (\<Sum>m \<in> free_blocks (seg_allocator s). block_size (seg_allocator s) m div (slot_size div GRANULARITY)) \<and>
    report_bytes rep = report_slots rep * slot_size \<and>
    report_bytes rep + slot_unallocatable_bytes rep = raw_free_bytes rep \<and>
    total_free_bytes p = Some (raw_free_bytes rep)"
proof -
  note ok = reach_phys [OF assms(1,2)]
  let ?raw = "free_storage (seg_allocator s) * GRANULARITY"
  let ?n = "\<Sum>m \<in> free_blocks (seg_allocator s). block_size (seg_allocator s) m div (slot_size div GRANULARITY)"
  let ?rep = "\<lparr>raw_free_bytes = ?raw, report_slots = ?n, report_bytes = ?n * slot_size, slot_unallocatable_bytes = ?raw - ?n * slot_size\<rparr>"
  have c: "?n * slot_size \<le> ?raw" "compute_allocatable_report s ?raw slot_size = Some ?rep"
    using compute_report_exact [OF ok(1) assms(4-6) refl] by simp_all
  have raw: "seg_total_free_bytes s = Some ?raw" using seg_free_bytes [OF ok(1)] assms(3) by simp
  obtain s' rep where r: "seg_allocatable_report s slot_size = Some (s', rep)"
  proof (cases "find_cached_report s slot_size")
    case None
    then show thesis using that raw c assms(4-6) by (simp add: seg_allocatable_report_def)
  next
    case (Some x)
    then show thesis using that raw assms(4-6) by (simp add: seg_allocatable_report_def)
  qed
  from r ok(6) have "rep = ?rep"
  proof (cases rule: seg_report_cases)
    case (refused raw)
    with assms(4-6) show ?thesis by simp
  next
    case (served raw')
    with raw c(2) show ?thesis by simp
  qed
  with r assms(2) raw c(1) show ?thesis by (simp add: allocatable_report_def total_free_bytes_def)
qed

theorem allocatable_report_exact_witness:
  "\<exists>(p :: owner_pool) p' rep. allocatable_report p 40960 = Some (p', rep) \<and> report_bytes rep = report_slots rep * 40960"
proof -
  obtain a a' al where a: "with_max_allocs 100 102 = Some a" "allocate a 10 = Some (a', Some al)"
    by (rule sample_allocator)
  have reach: "pool_reach (sample_installed a)"
    by (rule r_into_rtranclp, rule pool_step.install [OF sample_install [OF a(1)]]) simp
  have s: "segment (sample_installed a) = Some (sample_segment a)" by (simp add: sample_installed_def)
  have fo: "0 < free_offset (seg_allocator (sample_segment a))"
    using a(2) by (cases "free_offset a = 0") (auto simp: allocate_def sample_segment_def)
  from allocatable_report_exact [OF reach s fo, of 40960] show ?thesis by (auto simp: sample_segment_def)
qed

end
