(* ===== verification/Owner_Service.thy ===== *)
theory Owner_Service
  imports Owner_Pool
begin

text \<open>
  The owner's side of the transfer protocol (\<open>fluxon_kv/src/client_kv_api/mod.rs\<close>): the shared
  operations that let retried requests join one execution, the acknowledgement watermarks that
  reclaim finished ones, the handler of a request item, and the executions of a read
  (\<open>GetToTarget\<close>) and of a route commit around the calls that leave the process.

  An asynchronous handler is split where it waits: what runs between two waits on the shared maps and
  under the allocator's lock is one function. The answers of the transfer engine, of the SSD stage
  and of the master, and the cluster view, are arguments. A concurrent map is a partial function; one entry
  operation on it is atomic.
\<close>

section \<open>Shared operations\<close>

record 'r shared_op =
  so_request :: 'r
  so_terminal :: "owner_segment_transfer_outcome option"
  so_completed :: bool

definition shared_op_new :: "'r \<Rightarrow> 'r shared_op" where
  "shared_op_new request = \<lparr>so_request = request, so_terminal = None, so_completed = False\<rparr>"

definition shared_op_complete ::
  "'r shared_op \<Rightarrow> owner_segment_transfer_outcome \<Rightarrow> 'r shared_op \<times> bool" where
  "shared_op_complete op outcome =
     (if so_completed op then (op, False)
      else (op\<lparr>so_completed := True, so_terminal := Some outcome\<rparr>, True))"

record owner_get_to_target_request =
  gr_ack_stream_id :: u64
  gr_terminal_sequence :: u64
  gr_source :: owner_get_source_capability
  gr_destination :: owner_get_destination_capability

record owner_put_from_source_request =
  pr_ack_stream_id :: u64
  pr_terminal_sequence :: u64
  pr_target_attempt :: u32
  pr_target_plan :: owner_target_route_token
  pr_source :: owner_source_read_capability
  pr_disposition :: owner_target_disposition
  pr_route_commit_mode :: owner_route_commit_mode

record owner_target_route_commit_request =
  cr_lease_id :: owner_lease_id
  cr_receipt :: owner_transfer_receipt
  cr_route_token :: "owner_target_route_token option"
  cr_route_commit_mode :: owner_route_commit_mode

record owner_service =
  sv_pool :: owner_pool
  get_to_target_flights :: "owner_transfer_op_id \<Rightarrow> owner_get_to_target_request shared_op option"
  put_from_source_flights :: "owner_transfer_op_id \<times> u32 \<Rightarrow> owner_put_from_source_request shared_op option"
  target_route_commit_flights :: "owner_transfer_op_id \<Rightarrow> owner_target_route_commit_request shared_op option"
  inbound_ack_watermarks :: "owner_generation \<times> u64 \<Rightarrow> u64 option"

definition service_new :: "owner_pool \<Rightarrow> owner_service" where
  "service_new p = \<lparr>sv_pool = p, get_to_target_flights = Map.empty, put_from_source_flights = Map.empty,
     target_route_commit_flights = Map.empty, inbound_ack_watermarks = Map.empty\<rparr>"

text \<open>The \<open>entry\<close> of a flight map: join the running operation, refuse a changed request, or become the
  leader of a new one.\<close>

datatype flight_role = ChangedRequest | Follower | Leader

definition join_flight ::
  "('k \<Rightarrow> 'r shared_op option) \<Rightarrow> 'k \<Rightarrow> 'r \<Rightarrow> ('k \<Rightarrow> 'r shared_op option) \<times> flight_role" where
  "join_flight flights key request =
     (case flights key of
        Some existing \<Rightarrow> (flights, if so_request existing \<noteq> request then ChangedRequest else Follower)
      | None \<Rightarrow> (flights(key \<mapsto> shared_op_new request), Leader))"

definition complete_flight ::
  "('k \<Rightarrow> 'r shared_op option) \<Rightarrow> 'k \<Rightarrow> owner_segment_transfer_outcome \<Rightarrow> ('k \<Rightarrow> 'r shared_op option) option" where
  "complete_flight flights key outcome =
     do { op \<leftarrow> flights key;
          let (op, published) = shared_op_complete op outcome;
          assert_or_panic published;
          Some (flights(key \<mapsto> op)) }"

section \<open>Acknowledgements\<close>

text \<open>The watermark and the two passes over the flights are one step: the passes remove only flights that
  the watermark covers, at whatever moment they reach them.\<close>

definition acknowledged ::
  "owner_generation \<Rightarrow> u64 \<Rightarrow> u64 \<Rightarrow> owner_transfer_op_id \<Rightarrow> u64 \<Rightarrow> u64 \<Rightarrow> bool \<Rightarrow> bool" where
  "acknowledged caller_generation stream applied op_id request_stream request_sequence completed \<longleftrightarrow>
     op_coordinator op_id = caller_generation \<and> request_stream = stream \<and>
     request_sequence \<le> applied \<and> completed"

definition apply_owner_transfer_terminal_ack ::
  "owner_service \<Rightarrow> owner_generation \<Rightarrow> u64 \<Rightarrow> u64 \<Rightarrow> owner_service \<times> u64" where
  "apply_owner_transfer_terminal_ack sv caller_generation stream requested_watermark =
     (if stream = 0 \<or> requested_watermark = 0 then (sv, 0)
      else
        let key = (caller_generation, stream);
            applied = (case inbound_ack_watermarks sv key of
                         Some current \<Rightarrow> if current < requested_watermark then requested_watermark else current
                       | None \<Rightarrow> requested_watermark)
        in (sv\<lparr>inbound_ack_watermarks := (inbound_ack_watermarks sv)(key \<mapsto> applied),
               get_to_target_flights := (\<lambda>op_id. case get_to_target_flights sv op_id of
                  None \<Rightarrow> None
                | Some flight \<Rightarrow>
                    if acknowledged caller_generation stream applied op_id
                         (gr_ack_stream_id (so_request flight)) (gr_terminal_sequence (so_request flight))
                         (so_completed flight)
                    then None else Some flight),
               put_from_source_flights := (\<lambda>(op_id, attempt). case put_from_source_flights sv (op_id, attempt) of
                  None \<Rightarrow> None
                | Some flight \<Rightarrow>
                    if acknowledged caller_generation stream applied op_id
                         (pr_ack_stream_id (so_request flight)) (pr_terminal_sequence (so_request flight))
                         (so_completed flight)
                    then None else Some flight)\<rparr>, applied))"

section \<open>The item handler\<close>

text \<open>What the handler of an item does before it waits: answer, or wait for a shared operation, as its
  leader or as a follower.\<close>

datatype flight_key =
    GetFlight owner_transfer_op_id
  | PutFlight owner_transfer_op_id u32
  | CommitFlight owner_transfer_op_id

datatype item_progress = Answered owner_segment_transfer_outcome | Waiting flight_key bool

definition handle_owner_get_to_target ::
  "owner_service \<Rightarrow> owner_transfer_op_id \<Rightarrow> u64 \<Rightarrow> u64 \<Rightarrow> owner_get_source_capability \<Rightarrow>
   owner_get_destination_capability \<Rightarrow> owner_service \<times> item_progress" where
  "handle_owner_get_to_target sv op_id stream terminal_sequence source destination =
     (let request = \<lparr>gr_ack_stream_id = stream, gr_terminal_sequence = terminal_sequence,
                     gr_source = source, gr_destination = destination\<rparr>;
          (flights, role) = join_flight (get_to_target_flights sv) op_id request
      in (sv\<lparr>get_to_target_flights := flights\<rparr>,
          if role = ChangedRequest then Answered (error_outcome Conflict)
          else Waiting (GetFlight op_id) (role = Leader)))"

definition handle_owner_put_from_source ::
  "owner_service \<Rightarrow> owner_transfer_op_id \<Rightarrow> owner_put_from_source_request \<Rightarrow> owner_service \<times> item_progress" where
  "handle_owner_put_from_source sv op_id request =
     (let (flights, role) = join_flight (put_from_source_flights sv) (op_id, pr_target_attempt request) request
      in (sv\<lparr>put_from_source_flights := flights\<rparr>,
          if role = ChangedRequest then Answered (error_outcome Conflict)
          else Waiting (PutFlight op_id (pr_target_attempt request)) (role = Leader)))"

definition start_owner_target_route_commit ::
  "owner_service \<Rightarrow> owner_transfer_op_id \<Rightarrow> owner_target_route_commit_request \<Rightarrow>
   (owner_service \<times> item_progress) option" where
  "start_owner_target_route_commit sv op_id request =
     do { (pool, pending) \<leftarrow> begin_target_commit (sv_pool sv) op_id (cr_lease_id request)
             (cr_receipt request) (cr_route_token request);
          let sv = sv\<lparr>sv_pool := pool\<rparr>;
          (case pending of
             TargetCommitPending _ _ \<Rightarrow>
               (let (flights, role) = join_flight (target_route_commit_flights sv) op_id request
                in Some (sv\<lparr>target_route_commit_flights := flights\<rparr>,
                     if role = ChangedRequest then Answered (error_outcome Conflict)
                     else Waiting (CommitFlight op_id) (role = Leader)))
           | terminal \<Rightarrow> Some (sv, Answered terminal)) }"

definition commit_owner_target_route ::
  "owner_service \<Rightarrow> owner_transfer_op_id \<Rightarrow> owner_lease_id \<Rightarrow> owner_transfer_receipt \<Rightarrow>
   owner_target_route_token option \<Rightarrow> (owner_service \<times> item_progress) option" where
  "commit_owner_target_route sv op_id lease_id receipt route_token =
     start_owner_target_route_commit sv op_id
       \<lparr>cr_lease_id = lease_id, cr_receipt = receipt, cr_route_token = route_token,
        cr_route_commit_mode = SyncCommit\<rparr>"

text \<open>The checks before an item is dispatched, as the error they answer; \<open>member_start\<close> is the cluster
  view: the start time of the current member of that name.\<close>

definition item_error ::
  "(node_id_string \<Rightarrow> i64 option) \<Rightarrow> node_id_string \<Rightarrow> owner_generation \<Rightarrow> u64 \<Rightarrow> u64 \<Rightarrow>
   owner_segment_transfer_request_item \<Rightarrow> owner_transfer_error_code option" where
  "item_error member_start caller caller_generation stream acknowledged_watermark request_item =
     (let terminal_sequence = req_terminal_sequence request_item; item = req_item request_item in
      case item_op_id item of
        None \<Rightarrow> Some InvalidArgument
      | Some operation \<Rightarrow>
          if op_coordinator operation \<noteq> caller_generation \<or> gen_node_id (op_coordinator operation) \<noteq> caller
          then Some StaleGeneration
          else if member_start caller \<noteq> Some (gen_node_start_time (op_coordinator operation))
          then Some StaleGeneration
          else if stream = 0 \<or> caches_replay_terminal item \<noteq> (terminal_sequence \<noteq> 0) \<or>
            terminal_sequence \<noteq> 0 \<and> terminal_sequence \<le> acknowledged_watermark
          then Some Conflict
          else None)"

definition dispatch_item ::
  "owner_service \<Rightarrow> u64 \<Rightarrow> u64 \<Rightarrow> owner_segment_transfer_item \<Rightarrow> (owner_service \<times> item_progress) option" where
  "dispatch_item sv stream terminal_sequence item =
     (case item of
        InvalidItem \<Rightarrow> None
      | GetToTarget op_id source destination \<Rightarrow>
          Some (handle_owner_get_to_target sv op_id stream terminal_sequence source destination)
      | PutFromSource op_id target_attempt target_plan source disposition route_commit_mode \<Rightarrow>
          Some (handle_owner_put_from_source sv op_id
            \<lparr>pr_ack_stream_id = stream, pr_terminal_sequence = terminal_sequence,
             pr_target_attempt = target_attempt, pr_target_plan = target_plan, pr_source = source,
             pr_disposition = disposition, pr_route_commit_mode = route_commit_mode\<rparr>)
      | PrepareTarget op_id expected_target key put_id len disposition atomic_batch \<Rightarrow>
          do { (pool, outcome) \<leftarrow> prepare_target (sv_pool sv) op_id expected_target key put_id len disposition atomic_batch;
               Some (sv\<lparr>sv_pool := pool\<rparr>, Answered outcome) }
      | CommitTarget op_id lease_id receipt route_token \<Rightarrow>
          commit_owner_target_route sv op_id lease_id receipt route_token
      | AbortTarget op_id lease_id reason \<Rightarrow>
          do { (pool, outcome) \<leftarrow> abort_target (sv_pool sv) op_id lease_id reason;
               Some (sv\<lparr>sv_pool := pool\<rparr>, Answered outcome) })"

definition handle_owner_segment_transfer_item ::
  "(node_id_string \<Rightarrow> i64 option) \<Rightarrow> owner_service \<Rightarrow> node_id_string \<Rightarrow> owner_generation \<Rightarrow> u64 \<Rightarrow> u64 \<Rightarrow>
   owner_segment_transfer_request_item \<Rightarrow> (owner_service \<times> item_progress) option" where
  "handle_owner_segment_transfer_item member_start sv caller caller_generation stream acknowledged_watermark request_item =
     (case item_error member_start caller caller_generation stream acknowledged_watermark request_item of
        Some code \<Rightarrow> Some (sv, Answered (error_outcome code))
      | None \<Rightarrow> dispatch_item sv stream (req_terminal_sequence request_item) (req_item request_item))"

text \<open>The head of \<open>handle_owner_segment_transfer\<close>: the watermark the items of a request are checked with.\<close>

definition accept_request ::
  "(node_id_string \<Rightarrow> i64 option) \<Rightarrow> owner_service \<Rightarrow> node_id_string \<Rightarrow> owner_segment_transfer_req \<Rightarrow>
   owner_service \<times> u64" where
  "accept_request member_start sv caller request =
     (if gen_node_id (req_caller_generation request) = caller \<and>
         member_start caller = Some (gen_node_start_time (req_caller_generation request))
      then apply_owner_transfer_terminal_ack sv (req_caller_generation request) (req_ack_stream_id request)
             (req_terminal_ack_watermark request)
      else (sv, 0))"

section \<open>Executing a read\<close>

datatype get_source_hold = MemoryHold owner_lease_id | SsdHold owner_slot_desc u64

text \<open>Giving back the one-slot lease of an SSD staging area, and whether that succeeded.\<close>

definition owner_release_local_reserve_slot_lease ::
  "owner_pool \<Rightarrow> owner_slot_desc \<Rightarrow> (owner_pool \<times> bool) option" where
  "owner_release_local_reserve_slot_lease p slot =
     pool_release_prepared_slot p (slot_allocation_id slot) (slot_segment_offset slot) (slot_capacity_bytes slot)"

text \<open>The destination's owner and address, and whether it is GPU memory.\<close>

fun get_destination_target :: "owner_get_destination_capability \<Rightarrow> (owner_generation \<times> u64 \<times> bool) option" where
  "get_destination_target InvalidDestination = None"
| "get_destination_target (OwnerSlot c) = Some (slot_owner (wc_slot c), slot_addr (wc_slot c), False)"
| "get_destination_target (ExternalGpu c) = Some (gpu_requester c, gpu_addr c, True)"

text \<open>The execution of a read is split at its waits. First the checks and a memory source: the answer, the
  source to transfer from with what holds it, or an SSD source, for which a staging slot has to be
  claimed. An answer comes with the hold that the flight retains because its release failed.\<close>

datatype get_step =
    GetAnswer owner_segment_transfer_outcome "get_source_hold option"
  | GetClaim owner_ssd_source_route_token
  | GetTransfer owner_slot_desc get_source_hold

definition begin_owner_get_to_target ::
  "owner_generation \<Rightarrow> owner_pool \<Rightarrow> owner_transfer_op_id \<Rightarrow> owner_get_to_target_request \<Rightarrow>
   (owner_pool \<times> get_step) option" where
  "begin_owner_get_to_target self p op_id request =
     (let source_len = get_source_len (gr_source request) in
      if op_kind op_id \<noteq> GetOp \<or> get_source_plan_nonce (gr_source request) \<noteq> op_sequence op_id \<or>
         \<not> destination_is_valid_for (gr_destination request) op_id source_len \<or> source_len = 0
      then Some (p, GetAnswer (error_outcome InvalidArgument) None)
      else if (case gr_destination request of
                 OwnerSlot c \<Rightarrow> slot_owner (wc_slot c) \<noteq> op_coordinator op_id
               | _ \<Rightarrow> False)
      then Some (p, GetAnswer (error_outcome InvalidArgument) None)
      else case gr_source request of
        MemorySource route_token \<Rightarrow>
          if src_key route_token = [] \<or> src_route_epoch route_token = 0
          then Some (p, GetAnswer (error_outcome InvalidArgument) None)
          else do {
            (p, outcome) \<leftarrow> acquire_source p op_id route_token;
            Some (p, case outcome of
                       SourceAcquired lease_id slot \<Rightarrow> GetTransfer slot (MemoryHold lease_id)
                     | ErrorOutcome error \<Rightarrow> GetAnswer (ErrorOutcome error) None
                     | _ \<Rightarrow> GetAnswer (error_outcome Conflict) None) }
      | SsdSource token \<Rightarrow>
          Some (p, if ssd_key token = [] \<or> ssd_owner token \<noteq> self \<or> ssd_plan_nonce token = 0
                   then GetAnswer (error_outcome StaleGeneration) None
                   else GetClaim token)
      | InvalidSource \<Rightarrow> Some (p, GetAnswer (error_outcome InvalidArgument) None))"

text \<open>After the wait for a staging slot (\<open>claim\<close>, the slot or a failure) and for the load into it
  (\<open>loaded\<close>): a slot whose load failed is given back.\<close>

definition staged_owner_get_to_target ::
  "owner_slot_desc option \<Rightarrow> bool \<Rightarrow> owner_pool \<Rightarrow> owner_ssd_source_route_token \<Rightarrow> (owner_pool \<times> get_step) option" where
  "staged_owner_get_to_target claim loaded p token =
     (case claim of
        None \<Rightarrow> Some (p, GetAnswer (error_outcome NoSpace) None)
      | Some slot \<Rightarrow>
          let hold = SsdHold slot (ssd_plan_nonce token - 1) in
          if loaded then Some (p, GetTransfer slot hold)
          else do {
            (p, released) \<leftarrow> owner_release_local_reserve_slot_lease p slot;
            Some (p, GetAnswer (error_outcome NotFound) (if released then None else Some hold)) })"

definition get_direction :: "owner_slot_desc \<Rightarrow> owner_generation \<Rightarrow> u64 \<Rightarrow> owner_transfer_direction" where
  "get_direction exact_source target_owner target_addr =
     (if slot_owner exact_source = target_owner \<and> slot_addr exact_source = target_addr then ZeroCopy
      else if slot_owner exact_source = target_owner then LocalCopy
      else RdmaWrite)"

text \<open>Whether the source hold was released. The message that ends the master's SSD stage is detached from
  the execution.\<close>

definition release_owner_get_to_target_source_hold ::
  "owner_pool \<Rightarrow> owner_transfer_op_id \<Rightarrow> get_source_hold \<Rightarrow> owner_transfer_outcome \<Rightarrow> (owner_pool \<times> bool) option" where
  "release_owner_get_to_target_source_hold p op_id hold outcome =
     (case hold of
        MemoryHold source_lease_id \<Rightarrow>
          do { (p, released) \<leftarrow> release_source p op_id source_lease_id outcome;
               Some (p, released = SourceReleased) }
      | SsdHold slot _ \<Rightarrow> owner_release_local_reserve_slot_lease p slot)"

text \<open>After the transfer: release the source and answer; the third component is the hold that the
  flight retains when its release failed.\<close>

definition finish_owner_get_to_target ::
  "bool \<Rightarrow> owner_pool \<Rightarrow> owner_transfer_op_id \<Rightarrow> owner_get_to_target_request \<Rightarrow> owner_slot_desc \<Rightarrow>
   get_source_hold \<Rightarrow> (owner_pool \<times> owner_segment_transfer_outcome \<times> get_source_hold option) option" where
  "finish_owner_get_to_target transferred p op_id request exact_source hold =
     (case get_destination_target (gr_destination request) of
        None \<Rightarrow> None
      | Some (target_owner, target_addr, _) \<Rightarrow>
          let direction = get_direction exact_source target_owner target_addr in
          if \<not> transferred then do {
            (p, released) \<leftarrow> release_owner_get_to_target_source_hold p op_id hold TransferFailed;
            Some (p, error_outcome Internal, if released then None else Some hold) }
          else do {
            (p, released) \<leftarrow> release_owner_get_to_target_source_hold p op_id hold TransferSuccess;
            Some (if released
                  then (p, GetToTargetCompleted
                          \<lparr>get_rcpt_completion_id = op_sequence op_id, get_rcpt_direction = direction,
                           get_rcpt_bytes = slot_len exact_source, get_rcpt_source = exact_source,
                           get_rcpt_destination = gr_destination request\<rparr>, None)
                  else (p, error_outcome Internal, Some hold)) })"

section \<open>Committing a target's route\<close>

text \<open>The master's answer to \<open>put_append_done\<close>, with the fields the commit reads; an error code in it has
  become an error of the call.\<close>

record put_append_done_resp =
  pad_appended :: bool
  pad_route_epoch :: u64

datatype put_append_disposition = CommittedRoute u64 | ObsoleteRoute

definition classify_owner_put_append_done :: "put_append_done_resp \<Rightarrow> put_append_disposition" where
  "classify_owner_put_append_done response =
     (if pad_appended response \<and> pad_route_epoch response \<noteq> 0
      then CommittedRoute (pad_route_epoch response) else ObsoleteRoute)"

datatype append_error = InvalidPutMasterState | OtherAppendError

definition owner_put_append_done_is_definitively_rejected :: "append_error \<Rightarrow> bool" where
  "owner_put_append_done_is_definitively_rejected error \<longleftrightarrow> error = InvalidPutMasterState"

text \<open>How the loop over the master's answers ends: with a route, with the order to abort the target, or
  because the process stops. \<open>call i\<close> is the answer to the \<open>i\<close>th call, \<open>is_running i\<close> the
  shutdown check after it; the sleeps, in milliseconds, are returned in order.\<close>

datatype route_verdict = RouteCommitted u64 | RouteRejected | RouteShutdown

partial_function (option) route_commit_loop ::
  "(nat \<Rightarrow> append_error + put_append_done_resp) \<Rightarrow> (nat \<Rightarrow> bool) \<Rightarrow> nat \<Rightarrow> nat \<Rightarrow> nat list \<Rightarrow>
   (route_verdict \<times> nat list) option" where
  "route_commit_loop call is_running i retry_delay sleeps =
     (case call i of
        Inr response \<Rightarrow>
          (case classify_owner_put_append_done response of
             CommittedRoute route_epoch \<Rightarrow> Some (RouteCommitted route_epoch, sleeps)
           | ObsoleteRoute \<Rightarrow> Some (RouteRejected, sleeps))
      | Inl error \<Rightarrow>
          if owner_put_append_done_is_definitively_rejected error then Some (RouteRejected, sleeps)
          else if is_running i
          then route_commit_loop call is_running (Suc i)
                 (min (2 * retry_delay) OWNER_SEGMENT_TRANSFER_RETRY_MAX) (sleeps @ [retry_delay])
          else Some (RouteShutdown, sleeps))"

text \<open>What the verdict does to the target; \<open>reason\<close> is the message made from the rejection.\<close>

definition conclude_route_commit ::
  "owner_pool \<Rightarrow> owner_transfer_op_id \<Rightarrow> owner_lease_id \<Rightarrow> string \<Rightarrow> route_verdict \<Rightarrow>
   (owner_pool \<times> owner_segment_transfer_outcome) option" where
  "conclude_route_commit p op_id lease_id reason verdict =
     (case verdict of
        RouteCommitted route_epoch \<Rightarrow> finish_target_commit p op_id lease_id route_epoch
      | RouteRejected \<Rightarrow> abort_route_rejected_target p op_id lease_id reason
      | RouteShutdown \<Rightarrow> Some (p, error_outcome Internal))"

definition run_owner_target_route_commit ::
  "(nat \<Rightarrow> append_error + put_append_done_resp) \<Rightarrow> (nat \<Rightarrow> bool) \<Rightarrow> string \<Rightarrow> owner_pool \<Rightarrow> owner_transfer_op_id \<Rightarrow>
   owner_target_route_commit_request \<Rightarrow> (owner_pool \<times> owner_segment_transfer_outcome) option" where
  "run_owner_target_route_commit call is_running reason p op_id request =
     (if cr_route_token request \<noteq> None \<and> op_kind op_id \<noteq> ReplicaAppendOp
      then Some (p, error_outcome RouteCommitRequired)
      else case cr_route_token request of
             None \<Rightarrow> finish_target_commit p op_id (cr_lease_id request) 0
           | Some route_token \<Rightarrow> do {
               (verdict, _) \<leftarrow> route_commit_loop call is_running 0 OWNER_SEGMENT_TRANSFER_RETRY_INITIAL [];
               conclude_route_commit p op_id (cr_lease_id request) reason verdict })"

end
