(* ===== verification/Owner_Transfer.thy ===== *)
theory Owner_Transfer
  imports Owner_Segment
begin

text \<open>
  What the caller's side of the owner transfer protocol guarantees: the acknowledgement window
  advances exactly over the recorded prefix, terminal sequences are issued once and always
  above the advertised watermark, the replay loop ends at the first definitive attempt with
  bounded sleeps, and the capabilities bound the range a transfer touches.
\<close>

section \<open>The acknowledgement window\<close>

definition window_ok :: "u64 set \<Rightarrow> owner_transfer_ack_window \<Rightarrow> bool" where
  "window_ok R a \<longleftrightarrow> {1..ack_mark a} \<subseteq> R \<and> Suc (ack_mark a) \<notin> R \<and>
     set (completed_after_gap a) = {s \<in> R. ack_mark a < s}"

lemma advance_next:
  "Suc (ack_mark a) < u64_bound \<Longrightarrow> Suc (ack_mark a) \<in> set (completed_after_gap a) \<Longrightarrow>
   advance a = advance (a\<lparr>completed_after_gap := removeAll (Suc (ack_mark a)) (completed_after_gap a),
                          ack_mark := Suc (ack_mark a)\<rparr>)"
  by (subst advance.simps) (simp add: checked_add_def)

lemma advance_stop: "Suc (ack_mark a) \<notin> set (completed_after_gap a) \<Longrightarrow> advance a = a"
  by (subst advance.simps) (simp add: checked_add_def)

lemma advance_window:
  "{1..ack_mark a} \<subseteq> R \<Longrightarrow> set (completed_after_gap a) = {s \<in> R. ack_mark a < s} \<Longrightarrow>
   \<forall>s \<in> R. s < u64_bound \<Longrightarrow> window_ok R (advance a)"
proof (induction "length (completed_after_gap a)" arbitrary: a rule: less_induct)
  case less
  let ?n = "Suc (ack_mark a)"
  show ?case
  proof (cases "?n \<in> R")
    case True
    then have room: "?n < u64_bound" and mem: "?n \<in> set (completed_after_gap a)" using less.prems by auto
    let ?b = "a\<lparr>completed_after_gap := removeAll ?n (completed_after_gap a), ack_mark := ?n\<rparr>"
    have "{1..?n} \<subseteq> R" using less.prems(1) True by (simp add: atLeastAtMostSuc_conv)
    moreover have "set (completed_after_gap a) - {?n} = {s \<in> R. ?n < s}"
      unfolding less.prems(2) using Suc_lessI by auto
    ultimately have "window_ok R (advance ?b)"
      using less.prems(3) length_removeAll_less [OF mem] by (intro less.hyps) simp_all
    then show ?thesis by (simp only: advance_next [OF room mem])
  next
    case False
    then have "?n \<notin> set (completed_after_gap a)" using less.prems(2) by blast
    then have "advance a = a" by (rule advance_stop)
    with False less.prems(1,2) show ?thesis by (simp add: window_ok_def)
  qed
qed

abbreviation peer_window :: "owner_transfer_peer_tracker \<Rightarrow> owner_generation \<Rightarrow> owner_transfer_ack_window" where
  "peer_window t g \<equiv> ack (peer_or_default t g)"

lemma ack_watermark_window: "ack_watermark t g = ack_mark (peer_window t g)"
  by (simp add: ack_watermark_def peer_or_default_def peer_default_def split: option.splits)

lemma record_terminal_other [simp]:
  "h \<noteq> g \<Longrightarrow> peer_or_default (fst (record_terminal t g s)) h = peer_or_default t h"
  by (simp add: record_terminal_def Let_def peer_or_default_def)

lemma record_terminal_next [simp]:
  "next_terminal_sequence (peer_or_default (fst (record_terminal t g s)) h) =
   next_terminal_sequence (peer_or_default t h)"
  by (simp add: record_terminal_def Let_def peer_or_default_def)

lemma record_terminal_window:
  assumes "window_ok R (peer_window t g)" and "\<forall>x \<in> R. x < u64_bound" "s < u64_bound" "0 \<notin> R"
  shows "window_ok (insert s R - {0}) (peer_window (fst (record_terminal t g s)) g)"
proof -
  have w: "{1..ack_mark (peer_window t g)} \<subseteq> R" "Suc (ack_mark (peer_window t g)) \<notin> R"
    "set (completed_after_gap (peer_window t g)) = {x \<in> R. ack_mark (peer_window t g) < x}"
    using assms(1) by (auto simp: window_ok_def)
  consider "s = 0" | "s \<noteq> 0" "s \<le> ack_mark (peer_window t g)" | "ack_mark (peer_window t g) < s" by linarith
  then show ?thesis
  proof cases
    case 1
    then show ?thesis using assms by (simp add: record_terminal_def)
  next
    case 2
    then have "insert s R - {0} = R" using w(1) assms(4) by auto
    with 2 assms(1) show ?thesis
      by (simp add: record_terminal_def Let_def peer_or_default_def split: option.splits)
  next
    case 3
    let ?a = "(peer_window t g)\<lparr>completed_after_gap := List.insert s (completed_after_gap (peer_window t g))\<rparr>"
    have R: "insert s R - {0} = insert s R" using 3 assms(4) by auto
    have "window_ok (insert s R) (advance ?a)"
      by (rule advance_window) (use w 3 assms in auto)
    with 3 R show ?thesis
      by (simp add: record_terminal_def Let_def peer_or_default_def split: option.splits)
  qed
qed

lemma record_terminal_snd: "snd (record_terminal t g s) = ack_watermark (fst (record_terminal t g s)) g"
  by (simp add: record_terminal_def ack_watermark_def Let_def)

section \<open>Numbering a batch\<close>

definition terminals :: "owner_segment_transfer_item list \<Rightarrow> nat" where
  "terminals items = length (filter caches_replay_terminal items)"

definition issued :: "owner_segment_transfer_req \<Rightarrow> u64 list" where
  "issued r = filter (\<lambda>s. s \<noteq> 0) (map req_terminal_sequence (req_items r))"

lemma number_items_some:
  "n + terminals items < u64_bound \<Longrightarrow>
   \<exists>out. number_items n items = Some (n + terminals items, out) \<and> map req_item out = items \<and>
     filter (\<lambda>s. s \<noteq> 0) (map req_terminal_sequence out) = [Suc n..<Suc (n + terminals items)] \<and>
     (\<forall>i \<in> set out. req_terminal_sequence i \<noteq> 0 \<longleftrightarrow> caches_replay_terminal (req_item i))"
proof (induction items arbitrary: n)
  case Nil
  show ?case by (simp add: terminals_def)
next
  case (Cons x xs)
  show ?case
  proof (cases "caches_replay_terminal x")
    case True
    then have t: "terminals (x # xs) = Suc (terminals xs)" by (simp add: terminals_def)
    with Cons.IH [of "Suc n"] Cons.prems obtain out where
      "number_items (Suc n) xs = Some (Suc n + terminals xs, out)" "map req_item out = xs"
      "filter (\<lambda>s. s \<noteq> 0) (map req_terminal_sequence out) = [Suc (Suc n)..<Suc (Suc n + terminals xs)]"
      "\<forall>i \<in> set out. req_terminal_sequence i \<noteq> 0 \<longleftrightarrow> caches_replay_terminal (req_item i)" by auto
    with True t Cons.prems show ?thesis
      by (simp add: checked_add_def wrapping_add_exact upt_conv_Cons)
  next
    case False
    then have "terminals (x # xs) = terminals xs" by (simp add: terminals_def)
    with False Cons.IH [of n] Cons.prems show ?thesis by auto
  qed
qed

lemma number_items_bound:
  "number_items n items = Some (n', out) \<Longrightarrow> n < u64_bound \<Longrightarrow> n + terminals items < u64_bound"
proof (induction items arbitrary: n n' out)
  case (Cons x xs)
  show ?case
  proof (cases "caches_replay_terminal x")
    case True
    with Cons.prems have room: "Suc n < u64_bound"
      by (auto simp: checked_add_def bind_eq_Some_conv split: if_splits)
    with True Cons.prems obtain m ys where "number_items (Suc n) xs = Some (m, ys)"
      by (auto simp: checked_add_def wrapping_add_exact bind_eq_Some_conv split: if_splits)
    from Cons.IH [OF this room] True show ?thesis by (simp add: terminals_def)
  next
    case False
    with Cons show ?thesis by (auto simp: terminals_def bind_eq_Some_conv split: if_splits)
  qed
qed (simp add: terminals_def)

declare upt_Suc [simp del]

section \<open>Interleavings of batches and responses\<close>

text \<open>
  The uses of one tracker, seen from one peer \<open>g\<close>: the requests \<open>rs\<close> prepared for it,
  and the terminal sequences \<open>ts\<close> recorded for it. A response carries back a sequence that a
  request issued, or zero.
\<close>

inductive tracker_reach ::
  "owner_generation \<Rightarrow> owner_transfer_peer_tracker \<Rightarrow> owner_segment_transfer_req list \<Rightarrow> u64 list \<Rightarrow> bool"
  for g where
  tracker_start: "tracker_new stream = Some t \<Longrightarrow> tracker_reach g t [] []"
| tracker_prepare: "tracker_reach g t rs ts \<Longrightarrow> prepare_request t caller g items = Some (t', r) \<Longrightarrow>
    tracker_reach g t' (rs @ [r]) ts"
| tracker_prepare_other: "tracker_reach g t rs ts \<Longrightarrow> h \<noteq> g \<Longrightarrow>
    prepare_request t caller h items = Some (t', r) \<Longrightarrow> tracker_reach g t' rs ts"
| tracker_record: "tracker_reach g t rs ts \<Longrightarrow> s = 0 \<or> s \<in> set (concat (map issued rs)) \<Longrightarrow>
    tracker_reach g (fst (record_terminal t g s)) rs (ts @ [s])"
| tracker_record_other: "tracker_reach g t rs ts \<Longrightarrow> h \<noteq> g \<Longrightarrow>
    tracker_reach g (fst (record_terminal t h s)) rs ts"

definition tracker_inv ::
  "owner_generation \<Rightarrow> owner_transfer_peer_tracker \<Rightarrow> owner_segment_transfer_req list \<Rightarrow> u64 list \<Rightarrow> bool" where
  "tracker_inv g t rs ts \<longleftrightarrow>
     next_terminal_sequence (peer_or_default t g) < u64_bound \<and>
     concat (map issued rs) = [1..<Suc (next_terminal_sequence (peer_or_default t g))] \<and>
     set ts - {0} \<subseteq> set (concat (map issued rs)) \<and>
     window_ok (set ts - {0}) (peer_window t g) \<and>
     (\<forall>r \<in> set rs. \<forall>s \<in> set (issued r). req_terminal_ack_watermark r < s) \<and>
     (\<forall>r \<in> set rs. {1..req_terminal_ack_watermark r} \<subseteq> set ts)"

lemma tracker_inv_cong:
  "peer_or_default t' g = peer_or_default t g \<Longrightarrow> tracker_inv g t' rs ts = tracker_inv g t rs ts"
  by (simp only: tracker_inv_def)

lemma prepare_request_effect:
  assumes "prepare_request t caller g items = Some (t', r)"
    and n: "next_terminal_sequence (peer_or_default t g) < u64_bound"
  shows "issued r = [Suc (next_terminal_sequence (peer_or_default t g))..<
             Suc (next_terminal_sequence (peer_or_default t' g))]"
    and "next_terminal_sequence (peer_or_default t' g) =
           next_terminal_sequence (peer_or_default t g) + terminals items"
    and "next_terminal_sequence (peer_or_default t' g) < u64_bound"
    and "peer_window t' g = peer_window t g"
    and "req_terminal_ack_watermark r = ack_mark (peer_window t g)"
    and "h \<noteq> g \<Longrightarrow> peer_or_default t' h = peer_or_default t h"
proof -
  let ?n = "next_terminal_sequence (peer_or_default t g)"
  obtain m out where num: "number_items ?n items = Some (m, out)"
    and t': "t' = t\<lparr>peers := (peers t)(g \<mapsto> (peer_or_default t g)\<lparr>next_terminal_sequence := m\<rparr>)\<rparr>"
    and r: "r = \<lparr>req_caller_generation = caller, req_ack_stream_id = ack_stream_id t,
               req_terminal_ack_watermark = ack_mark (peer_window t g), req_items = out\<rparr>"
    using assms(1) by (auto simp: prepare_request_def Let_def bind_eq_Some_conv)
  from number_items_some [OF number_items_bound [OF num n]] num
  have m: "m = ?n + terminals items"
    "filter (\<lambda>s. s \<noteq> 0) (map req_terminal_sequence out) = [Suc ?n..<Suc (?n + terminals items)]" by auto
  show "issued r = [Suc ?n..<Suc (next_terminal_sequence (peer_or_default t' g))]"
    using m by (simp add: issued_def r t' peer_or_default_def)
  show "next_terminal_sequence (peer_or_default t' g) = ?n + terminals items"
    using m(1) by (simp add: t' peer_or_default_def)
  show "next_terminal_sequence (peer_or_default t' g) < u64_bound"
    using number_items_bound [OF num n] m(1) by (simp add: t' peer_or_default_def)
  show "peer_window t' g = peer_window t g" "req_terminal_ack_watermark r = ack_mark (peer_window t g)"
    by (simp_all add: t' r peer_or_default_def)
  show "h \<noteq> g \<Longrightarrow> peer_or_default t' h = peer_or_default t h"
    by (simp add: t' peer_or_default_def)
qed

lemma tracker_reach_inv: "tracker_reach g t rs ts \<Longrightarrow> tracker_inv g t rs ts"
proof (induction rule: tracker_reach.induct)
  case (tracker_start stream t)
  then have "peers t = Map.empty" by (auto simp: tracker_new_def bind_eq_Some_conv)
  then have "peer_or_default t g = peer_default" by (simp add: peer_or_default_def)
  then show ?case by (simp add: tracker_inv_def peer_default_def window_ok_def)
next
  case (tracker_prepare t rs ts caller items t' r)
  let ?n = "next_terminal_sequence (peer_or_default t g)"
  have inv: "?n < u64_bound" "concat (map issued rs) = [1..<Suc ?n]" "window_ok (set ts - {0}) (peer_window t g)"
    and sub: "set ts - {0} \<subseteq> set (concat (map issued rs))"
    using tracker_prepare.IH unfolding tracker_inv_def by blast+
  note eff = prepare_request_effect [OF tracker_prepare.hyps(2) inv(1)]
  have w: "{1..ack_mark (peer_window t g)} \<subseteq> set ts - {0}" using inv(3) by (simp add: window_ok_def)
  then have wn: "ack_mark (peer_window t g) \<le> ?n"
  proof (cases "ack_mark (peer_window t g)")
    case (Suc k)
    then have "ack_mark (peer_window t g) \<in> set ts - {0}" using subsetD [OF w, of "Suc k"] by simp
    then have "ack_mark (peer_window t g) \<in> set [1..<Suc ?n]" using sub unfolding inv(2) by blast
    then show ?thesis by simp
  qed simp
  have "[1..<Suc ?n] @ [Suc ?n..<Suc (?n + terminals items)] = [1..<Suc (?n + terminals items)]"
    using upt_add_eq_append [of 1 "Suc ?n" "terminals items"] by simp
  then have seq: "concat (map issued (rs @ [r])) = [1..<Suc (next_terminal_sequence (peer_or_default t' g))]"
    using inv(2) eff(1,2) by simp
  have "\<forall>s \<in> set (issued r). req_terminal_ack_watermark r < s" using eff(1,5) wn by auto
  then have fresh: "\<forall>x \<in> set (rs @ [r]). \<forall>s \<in> set (issued x). req_terminal_ack_watermark x < s"
    using tracker_prepare.IH by (simp add: tracker_inv_def)
  have "{1..req_terminal_ack_watermark r} \<subseteq> set ts" using eff(5) w by auto
  then have acked: "\<forall>x \<in> set (rs @ [r]). {1..req_terminal_ack_watermark x} \<subseteq> set ts"
    using tracker_prepare.IH by (simp add: tracker_inv_def)
  have "set ts - {0} \<subseteq> set (concat (map issued (rs @ [r])))" using sub by auto
  then show ?case
    unfolding tracker_inv_def eff(4) by (intro conjI eff(3) seq inv(3) fresh acked)
next
  case (tracker_prepare_other t rs ts h caller items t' r)
  then obtain m where "t' = t\<lparr>peers := (peers t)(h \<mapsto> (peer_or_default t h)\<lparr>next_terminal_sequence := m\<rparr>)\<rparr>"
    by (auto simp: prepare_request_def Let_def bind_eq_Some_conv)
  then have "peer_or_default t' g = peer_or_default t g"
    using tracker_prepare_other.hyps(2) by (simp add: peer_or_default_def)
  from iffD2 [OF tracker_inv_cong [OF this] tracker_prepare_other.IH] show ?case .
next
  case (tracker_record t rs ts s)
  let ?n = "next_terminal_sequence (peer_or_default t g)"
  have inv: "?n < u64_bound" "concat (map issued rs) = [1..<Suc ?n]" "window_ok (set ts - {0}) (peer_window t g)"
    and sub: "set ts - {0} \<subseteq> set (concat (map issued rs))"
    using tracker_record.IH unfolding tracker_inv_def by blast+
  have "x < u64_bound" if "x \<in> set (concat (map issued rs))" for x
    using that inv(1) unfolding inv(2) by simp
  then have "s < u64_bound" "\<forall>x \<in> set ts - {0}. x < u64_bound"
    using tracker_record.hyps(2) sub by (force, blast)
  then have "window_ok (insert s (set ts - {0}) - {0}) (peer_window (fst (record_terminal t g s)) g)"
    by (intro record_terminal_window [OF inv(3)]) simp_all
  moreover have "insert s (set ts - {0}) - {0} = set (ts @ [s]) - {0}" by auto
  ultimately have win: "window_ok (set (ts @ [s]) - {0}) (peer_window (fst (record_terminal t g s)) g)" by simp
  have sub': "set (ts @ [s]) - {0} \<subseteq> set (concat (map issued rs))" using sub tracker_record.hyps(2) by auto
  have fresh: "\<forall>r \<in> set rs. \<forall>s \<in> set (issued r). req_terminal_ack_watermark r < s"
    using tracker_record.IH by (simp add: tracker_inv_def)
  have acked: "\<forall>r \<in> set rs. {1..req_terminal_ack_watermark r} \<subseteq> set (ts @ [s])"
    using tracker_record.IH by (auto simp: tracker_inv_def)
  show ?case
    unfolding tracker_inv_def record_terminal_next by (intro conjI inv(1,2) sub' win fresh acked)
next
  case (tracker_record_other t rs ts h s)
  from iffD2 [OF tracker_inv_cong [OF record_terminal_other [OF tracker_record_other.hyps(2) [symmetric]]]
      tracker_record_other.IH] show ?case .
qed

section \<open>The replay loop\<close>

definition retry_sleep :: "nat \<Rightarrow> nat" where
  "retry_sleep i = min (10 * 2 ^ i) 1000"

lemma retry_sleep_Suc: "retry_sleep (Suc i) = min (2 * retry_sleep i) 1000"
  by (cases "10 * 2 ^ i \<le> (1000 :: nat)") (simp_all add: retry_sleep_def)

definition definitive :: "(nat \<Rightarrow> 'e + 'r) \<Rightarrow> (nat \<Rightarrow> bool) \<Rightarrow> (nat \<Rightarrow> bool) \<Rightarrow> nat \<Rightarrow> bool" where
  "definitive call is_running owner_is_current i \<longleftrightarrow>
     isl (call i) \<longrightarrow> \<not> is_running i \<or> \<not> owner_is_current i"

text \<open>A loop that sleeps and tries again until an attempt settles it: the delay doubles up to a second.\<close>

locale retry_loop =
  fixes loop :: "nat \<Rightarrow> nat \<Rightarrow> nat list \<Rightarrow> ('a \<times> nat list) option"
    and settles :: "nat \<Rightarrow> bool"
    and result :: "nat \<Rightarrow> 'a"
  assumes loop_settled: "settles i \<Longrightarrow> loop i d ss = Some (result i, ss)"
    and loop_again: "\<not> settles i \<Longrightarrow> loop i d ss = loop (Suc i) (min (2 * d) 1000) (ss @ [d])"
begin

lemma loop_steps:
  "\<forall>i < n. \<not> settles (k + i) \<Longrightarrow> settles (k + n) \<Longrightarrow>
   loop k (retry_sleep k) ss = Some (result (k + n), ss @ map retry_sleep [k..<k + n])"
proof (induction n arbitrary: k ss)
  case 0
  then show ?case by (simp add: loop_settled)
next
  case (Suc n)
  have "\<not> settles k" using Suc.prems(1) by (metis add_0_right zero_less_Suc)
  then have "loop k (retry_sleep k) ss = loop (Suc k) (retry_sleep (Suc k)) (ss @ [retry_sleep k])"
    by (simp add: loop_again retry_sleep_Suc)
  also have "\<dots> = Some (result (Suc k + n), (ss @ [retry_sleep k]) @ map retry_sleep [Suc k..<Suc k + n])"
    using Suc.prems(1) [rule_format, of "Suc i" for i] Suc.prems(2) by (intro Suc.IH) simp_all
  finally show ?case by (simp add: upt_conv_Cons)
qed

lemma first_settled:
  assumes "\<forall>i < n. \<not> settles i" and "settles n"
  shows "loop 0 10 [] = Some (result n, map (\<lambda>i. min (10 * 2 ^ i) 1000) [0..<n])"
  using loop_steps [of n 0 "[]"] assms by (simp add: retry_sleep_def [abs_def])

end

interpretation replay: retry_loop "replay_from call is_running owner_is_current"
  "definitive call is_running owner_is_current" call for call is_running owner_is_current
  by unfold_locales (subst replay_from.simps, force simp: definitive_def split: sum.splits)+

section \<open>Properties\<close>

text \<open>C11: The watermark a caller reports for a peer is exactly the longest recorded prefix:
  whatever the order and repetition of the recorded terminals, every sequence up to it was
  recorded and the next one was not.\<close>

theorem ack_watermark_is_recorded_prefix:
  assumes "tracker_reach g t rs ts"
  shows "{1..ack_watermark t g} \<subseteq> set ts \<and> Suc (ack_watermark t g) \<notin> set ts"
  using tracker_reach_inv [OF assms] by (auto simp: tracker_inv_def window_ok_def ack_watermark_window)

lemma sample_tracker:
  defines "g \<equiv> \<lparr>gen_node_id = ''t'', gen_node_start_time = 13\<rparr>"
    and "item \<equiv> GetToTarget \<lparr>op_coordinator = \<lparr>gen_node_id = ''c'', gen_node_start_time = 11\<rparr>,
             op_sequence = 7, op_kind = GetOp\<rparr> InvalidSource InvalidDestination"
  shows "\<exists>t rs. tracker_reach g t rs [2] \<and> rs \<noteq> [] \<and> concat (map issued rs) = [1, 2]"
proof -
  let ?t0 = "\<lparr>ack_stream_id = 9, peers = Map.empty\<rparr>"
  obtain t1 r where p: "prepare_request ?t0 g g [item, item] = Some (t1, r)" and r: "issued r = [1, 2]"
    by (simp add: prepare_request_def peer_or_default_def peer_default_def item_def checked_add_def
        wrapping_add_def issued_def)
  have "tracker_reach g ?t0 [] []" by (rule tracker_start [of 9]) (simp add: tracker_new_def)
  from tracker_prepare [OF this p] have "tracker_reach g t1 [r] []" by simp
  from tracker_record [OF this, of 2] r have "tracker_reach g (fst (record_terminal t1 g 2)) [r] [2]" by simp
  with r show ?thesis by (intro exI [of _ "fst (record_terminal t1 g 2)"] exI [of _ "[r]"]) simp
qed

theorem ack_watermark_is_recorded_prefix_witness:
  "\<exists>t g. {1..ack_watermark t g} \<subseteq> {2} \<and> Suc (ack_watermark t g) \<notin> {2 :: nat}"
proof -
  obtain g t rs where "tracker_reach g t rs [2]" using sample_tracker by blast
  from ack_watermark_is_recorded_prefix [OF this] show ?thesis by auto
qed

text \<open>C27: The terminal sequences issued to a peer are 1, 2, 3, ... without gap or repetition
  over all batches, and every batch's sequences lie strictly above the watermark it
  advertises: a peer never takes a new operation for an acknowledged one.\<close>

theorem terminal_sequences_fresh:
  assumes "tracker_reach g t rs ts"
  shows "concat (map issued rs) = [1..<Suc (next_terminal_sequence (peer_or_default t g))] \<and>
    (\<forall>r \<in> set rs. \<forall>s \<in> set (issued r). req_terminal_ack_watermark r < s) \<and>
    (\<forall>r \<in> set rs. {1..req_terminal_ack_watermark r} \<subseteq> set ts)"
  using tracker_reach_inv [OF assms] by (simp add: tracker_inv_def)

theorem terminal_sequences_fresh_witness:
  "\<exists>rs. concat (map issued rs) = [1, 2] \<and>
     (\<forall>r \<in> set rs. \<forall>s \<in> set (issued r). req_terminal_ack_watermark r < s)"
proof -
  obtain g t rs where "tracker_reach g t rs [2]" "concat (map issued rs) = [1, 2]"
    using sample_tracker by blast
  with terminal_sequences_fresh [OF this(1)] show ?thesis by blast
qed

text \<open>C34: The replay loop returns the result of the first definitive attempt (a response, or
  an error once the process stops or the target's generation is gone) after sleeping
  10, 20, 40, ... milliseconds, never more than a second at once.\<close>

theorem replay_returns_first_definitive:
  assumes "\<forall>i < n. \<not> definitive call is_running owner_is_current i"
    and "definitive call is_running owner_is_current n"
  shows "replay_owner_segment_batch_until_definitive call is_running owner_is_current =
    Some (call n, map (\<lambda>i. min (10 * 2 ^ i) 1000) [0..<n])"
  using replay.first_settled [OF assms] by (simp add: replay_owner_segment_batch_until_definitive_def)

theorem replay_returns_first_definitive_witness:
  "replay_owner_segment_batch_until_definitive
     (\<lambda>i. if i < 2 then Inl ''timeout'' else Inr [i]) (\<lambda>_. True) (\<lambda>_. True) = Some (Inr [2], [10, 20])"
  using replay_returns_first_definitive [of 2 "\<lambda>i. if i < 2 then Inl ''timeout'' else Inr [i]" "\<lambda>_. True" "\<lambda>_. True"]
  by (simp add: definitive_def upt_rec numeral_2_eq_2)

text \<open>The validity test of a slot replaces an overflowing address by the largest one instead of
  refusing the slot, so a slot whose offset leaves the address space can pass it.\<close>

lemma slot_is_valid_saturated:
  "\<exists>s. slot_is_valid s \<and> u64_bound \<le> slot_base_addr s + slot_segment_offset s"
  by (rule exI [of _ "\<lparr>slot_owner = \<lparr>gen_node_id = ''n'', gen_node_start_time = 1\<rparr>,
        slot_allocation_id = 1, slot_segment_offset = 4096, slot_capacity_bytes = 4096,
        slot_addr = u64_bound - 1, slot_base_addr = u64_bound - 4096, slot_len = 1,
        slot_registration_epoch = 1\<rparr>"])
    (simp add: slot_is_valid_def owner_generation_is_initialized_def checked_add_def)

end
