(* ===== verification/Owner_Service_Correct.thy ===== *)
theory Owner_Service_Correct
  imports Owner_Service Owner_Transfer
begin

text \<open>
  The two sides of the owner transfer protocol together: a coordinator that numbers its items and
  acknowledges recorded answers, a network that may deliver any request at any time and any number of
  times, and an owner whose handlers run interleaved. An item whose answer has not been recorded is
  executed at most once.
\<close>

section \<open>The composed system\<close>

fun key_coordinator :: "flight_key \<Rightarrow> owner_generation" where
  "key_coordinator (GetFlight op_id) = op_coordinator op_id"
| "key_coordinator (PutFlight op_id attempt) = op_coordinator op_id"
| "key_coordinator (CommitFlight op_id) = op_coordinator op_id"

text \<open>The operations whose terminal is kept for replay, and the sequence a flight was started with.\<close>

fun replayable :: "flight_key \<Rightarrow> bool" where
  "replayable (CommitFlight op_id) = False"
| "replayable _ = True"

fun flight_sequence :: "owner_service \<Rightarrow> flight_key \<Rightarrow> u64 option" where
  "flight_sequence sv (GetFlight op_id) =
     map_option (\<lambda>f. gr_terminal_sequence (so_request f)) (get_to_target_flights sv op_id)"
| "flight_sequence sv (PutFlight op_id attempt) =
     map_option (\<lambda>f. pr_terminal_sequence (so_request f)) (put_from_source_flights sv (op_id, attempt))"
| "flight_sequence sv (CommitFlight op_id) = None"

text \<open>An item handler that has not looked at the flights yet: the calling node, the generation and
  stream of its request, the watermark it captured, and the item.\<close>

type_synonym pending_item =
  "node_id_string \<times> owner_generation \<times> u64 \<times> u64 \<times> owner_segment_transfer_request_item"

definition pending_items ::
  "node_id_string \<Rightarrow> owner_segment_transfer_req \<Rightarrow> u64 \<Rightarrow> pending_item list" where
  "pending_items caller r watermark =
     map (\<lambda>i. (caller, req_caller_generation r, req_ack_stream_id r, watermark, i)) (req_items r)"

text \<open>The executions an item handler starts: one, when it becomes the leader.\<close>

definition started :: "u64 \<Rightarrow> item_progress \<Rightarrow> (flight_key \<times> u64) list" where
  "started sequence progress = (case progress of Waiting key True \<Rightarrow> [(key, sequence)] | _ \<Rightarrow> [])"

text \<open>
  One coordinator generation \<open>c\<close> and one owner \<open>g\<close>: the coordinator's tracker, the requests \<open>rs\<close> it
  sent to \<open>g\<close> and the terminals \<open>ts\<close> it recorded, as in \<open>tracker_reach\<close>; the owner's service, its
  pending handlers, and the log of started executions. Other coordinators send what they like under
  their own generation; the pool and the cluster view change freely.
\<close>

inductive system_reach ::
  "owner_generation \<Rightarrow> owner_generation \<Rightarrow> owner_transfer_peer_tracker \<Rightarrow> owner_segment_transfer_req list \<Rightarrow>
   u64 list \<Rightarrow> owner_service \<Rightarrow> pending_item list \<Rightarrow> (flight_key \<times> u64) list \<Rightarrow> bool"
  for g c where
  system_start: "tracker_new stream = Some t \<Longrightarrow> system_reach g c t [] [] (service_new p) [] []"
| system_prepare: "system_reach g c t rs ts sv pend log \<Longrightarrow> prepare_request t c g items = Some (t', r) \<Longrightarrow>
    system_reach g c t' (rs @ [r]) ts sv pend log"
| system_prepare_other: "system_reach g c t rs ts sv pend log \<Longrightarrow> h \<noteq> g \<Longrightarrow>
    prepare_request t c h items = Some (t', r) \<Longrightarrow> system_reach g c t' rs ts sv pend log"
| system_record: "system_reach g c t rs ts sv pend log \<Longrightarrow> s = 0 \<or> s \<in> set (concat (map issued rs)) \<Longrightarrow>
    system_reach g c (fst (record_terminal t g s)) rs (ts @ [s]) sv pend log"
| system_record_other: "system_reach g c t rs ts sv pend log \<Longrightarrow> h \<noteq> g \<Longrightarrow>
    system_reach g c (fst (record_terminal t h s)) rs ts sv pend log"
| system_deliver: "system_reach g c t rs ts sv pend log \<Longrightarrow> r \<in> set rs \<or> req_caller_generation r \<noteq> c \<Longrightarrow>
    accept_request member_start sv caller r = (sv', w) \<Longrightarrow>
    system_reach g c t rs ts sv' (pend @ pending_items caller r w) log"
| system_item: "system_reach g c t rs ts sv pend log \<Longrightarrow> (caller, gen, stream, w, i) \<in> set pend \<Longrightarrow>
    handle_owner_segment_transfer_item member_start sv caller gen stream w i = Some (sv', progress) \<Longrightarrow>
    system_reach g c t rs ts sv' (remove1 (caller, gen, stream, w, i) pend)
      (log @ started (req_terminal_sequence i) progress)"
| system_complete_get: "system_reach g c t rs ts sv pend log \<Longrightarrow>
    complete_flight (get_to_target_flights sv) op_id outcome = Some gets \<Longrightarrow>
    system_reach g c t rs ts (sv\<lparr>get_to_target_flights := gets\<rparr>) pend log"
| system_complete_put: "system_reach g c t rs ts sv pend log \<Longrightarrow>
    complete_flight (put_from_source_flights sv) key outcome = Some puts \<Longrightarrow>
    system_reach g c t rs ts (sv\<lparr>put_from_source_flights := puts\<rparr>) pend log"
| system_complete_commit: "system_reach g c t rs ts sv pend log \<Longrightarrow>
    complete_flight (target_route_commit_flights sv) op_id outcome = Some commits \<Longrightarrow>
    system_reach g c t rs ts (sv\<lparr>target_route_commit_flights := commits\<rparr>) pend log"
| system_pool: "system_reach g c t rs ts sv pend log \<Longrightarrow> system_reach g c t rs ts (sv\<lparr>sv_pool := p\<rparr>) pend log"

lemma prepare_request_caller: "prepare_request t caller g items = Some (t', r) \<Longrightarrow> req_caller_generation r = caller"
  by (auto simp: prepare_request_def Let_def bind_eq_Some_conv)

lemma system_tracker: "system_reach g c t rs ts sv pend log \<Longrightarrow> tracker_reach g t rs ts"
  by (induction rule: system_reach.induct) (auto intro: tracker_reach.intros)

lemma system_caller: "system_reach g c t rs ts sv pend log \<Longrightarrow> \<forall>r \<in> set rs. req_caller_generation r = c"
  by (induction rule: system_reach.induct) (auto dest: prepare_request_caller)

section \<open>What the owner's steps do to the flights\<close>

lemma ack_flight_kept:
  assumes "apply_owner_transfer_terminal_ack sv gen stream w = (sv', applied)" and "flight_sequence sv k = Some s"
  shows "flight_sequence sv' k = Some s \<or> key_coordinator k = gen \<and> s \<le> applied"
  using assms by (cases k)
    (auto simp: apply_owner_transfer_terminal_ack_def acknowledged_def Let_def split: if_splits)

lemma ack_applied:
  assumes "apply_owner_transfer_terminal_ack sv gen stream w = (sv', applied)"
  shows "applied = 0 \<or> applied = w \<or> inbound_ack_watermarks sv (gen, stream) = Some applied"
    and "inbound_ack_watermarks sv' key = inbound_ack_watermarks sv key \<or>
      key = (gen, stream) \<and> inbound_ack_watermarks sv' key = Some applied"
  using assms by (auto simp: apply_owner_transfer_terminal_ack_def Let_def split: if_splits option.splits)

lemma join_flight_role:
  assumes "join_flight flights key request = (flights', role)"
  shows "flights k = Some f \<Longrightarrow> flights' k = Some f"
    and "role = Leader \<Longrightarrow> flights key = None \<and> flights' key = Some (shared_op_new request)"
  using assms by (auto simp: join_flight_def split: option.splits if_splits)

lemma join_flight_other:
  "join_flight flights key request = (flights', role) \<Longrightarrow> k \<noteq> key \<Longrightarrow> flights' k = flights k"
  by (auto simp: join_flight_def split: option.splits)

lemma start_commit_frame:
  assumes "start_owner_target_route_commit sv op request = Some (sv', progress)"
  shows "get_to_target_flights sv' = get_to_target_flights sv"
    and "put_from_source_flights sv' = put_from_source_flights sv"
    and "inbound_ack_watermarks sv' = inbound_ack_watermarks sv"
    and "progress = Waiting key leads \<Longrightarrow> \<not> replayable key"
proof -
  from assms obtain pool pending where b: "begin_target_commit (sv_pool sv) op (cr_lease_id request)
      (cr_receipt request) (cr_route_token request) = Some (pool, pending)"
    by (auto simp: start_owner_target_route_commit_def bind_eq_Some_conv)
  obtain flights role where j: "join_flight (target_route_commit_flights sv) op request = (flights, role)"
    by (cases "join_flight (target_route_commit_flights sv) op request")
  have "(\<exists>fs. sv' = sv\<lparr>sv_pool := pool, target_route_commit_flights := fs\<rparr>) \<and>
      (progress = Waiting key leads \<longrightarrow> key = CommitFlight op)"
  proof (cases "\<exists>a b. pending = TargetCommitPending a b")
    case True
    then show ?thesis using assms b j
      by (auto simp: start_owner_target_route_commit_def split: if_splits)
  next
    case False
    then have "sv' = sv\<lparr>sv_pool := pool\<rparr>" "progress = Answered pending"
      using assms b by (cases pending; simp add: start_owner_target_route_commit_def)+
    moreover have "sv\<lparr>sv_pool := pool\<rparr> = sv\<lparr>sv_pool := pool, target_route_commit_flights := target_route_commit_flights sv\<rparr>"
      by simp
    ultimately show ?thesis by (metis item_progress.distinct(1))
  qed
  then show "get_to_target_flights sv' = get_to_target_flights sv"
    and "put_from_source_flights sv' = put_from_source_flights sv"
    and "inbound_ack_watermarks sv' = inbound_ack_watermarks sv"
    and "progress = Waiting key leads \<Longrightarrow> \<not> replayable key" by auto
qed

lemma dispatch_item_flights:
  assumes "dispatch_item sv stream sequence item = Some (sv', progress)"
  shows "flight_sequence sv k = Some s \<Longrightarrow> flight_sequence sv' k = Some s"
    and "inbound_ack_watermarks sv' = inbound_ack_watermarks sv"
    and "progress = Waiting key True \<Longrightarrow> replayable key \<Longrightarrow> flight_sequence sv key = None \<and>
      flight_sequence sv' key = Some sequence \<and> item_op_id item \<noteq> None \<and> caches_replay_terminal item \<and>
      key_coordinator key = op_coordinator (the (item_op_id item))"
proof -
  have "(flight_sequence sv k = Some s \<longrightarrow> flight_sequence sv' k = Some s) \<and>
    inbound_ack_watermarks sv' = inbound_ack_watermarks sv \<and>
    (progress = Waiting key True \<longrightarrow> replayable key \<longrightarrow> flight_sequence sv key = None \<and>
      flight_sequence sv' key = Some sequence \<and> item_op_id item \<noteq> None \<and> caches_replay_terminal item \<and>
      key_coordinator key = op_coordinator (the (item_op_id item)))"
  proof (cases item)
    case (GetToTarget op src dst)
    define request where "request = \<lparr>gr_ack_stream_id = stream, gr_terminal_sequence = sequence,
      gr_source = src, gr_destination = dst\<rparr>"
    obtain flights role where j: "join_flight (get_to_target_flights sv) op request = (flights, role)"
      by (cases "join_flight (get_to_target_flights sv) op request")
    have r: "sv' = sv\<lparr>get_to_target_flights := flights\<rparr>"
      "progress = (if role = ChangedRequest then Answered (error_outcome Conflict) else Waiting (GetFlight op) (role = Leader))"
      using assms GetToTarget j by (auto simp: dispatch_item_def handle_owner_get_to_target_def request_def)
    show ?thesis using r join_flight_role [OF j] GetToTarget
      by (cases k) (auto simp: request_def shared_op_new_def split: if_splits)
  next
    case (PutFromSource op attempt plan src disp mode)
    define request where "request = \<lparr>pr_ack_stream_id = stream, pr_terminal_sequence = sequence,
      pr_target_attempt = attempt, pr_target_plan = plan, pr_source = src, pr_disposition = disp,
      pr_route_commit_mode = mode\<rparr>"
    obtain flights role where j: "join_flight (put_from_source_flights sv) (op, attempt) request = (flights, role)"
      by (cases "join_flight (put_from_source_flights sv) (op, attempt) request")
    have r: "sv' = sv\<lparr>put_from_source_flights := flights\<rparr>"
      "progress = (if role = ChangedRequest then Answered (error_outcome Conflict)
         else Waiting (PutFlight op attempt) (role = Leader))"
      using assms PutFromSource j by (auto simp: dispatch_item_def handle_owner_put_from_source_def request_def)
    show ?thesis using r join_flight_role [OF j] PutFromSource
      by (cases k) (auto simp: request_def shared_op_new_def split: if_splits)
  next
    case (CommitTarget op lease receipt token)
    then have "start_owner_target_route_commit sv op \<lparr>cr_lease_id = lease, cr_receipt = receipt,
        cr_route_token = token, cr_route_commit_mode = SyncCommit\<rparr> = Some (sv', progress)"
      using assms by (simp add: dispatch_item_def commit_owner_target_route_def)
    note f = start_commit_frame [OF this]
    show ?thesis using f by (cases k) auto
  qed (use assms in \<open>cases k; auto simp: dispatch_item_def bind_eq_Some_conv\<close>)+
  then show "flight_sequence sv k = Some s \<Longrightarrow> flight_sequence sv' k = Some s"
    and "inbound_ack_watermarks sv' = inbound_ack_watermarks sv"
    and "progress = Waiting key True \<Longrightarrow> replayable key \<Longrightarrow> flight_sequence sv key = None \<and>
      flight_sequence sv' key = Some sequence \<and> item_op_id item \<noteq> None \<and> caches_replay_terminal item \<and>
      key_coordinator key = op_coordinator (the (item_op_id item))" by blast+
qed

lemma handle_item_flights:
  assumes "handle_owner_segment_transfer_item member_start sv caller gen stream w i = Some (sv', progress)"
  shows "flight_sequence sv k = Some s \<Longrightarrow> flight_sequence sv' k = Some s"
    and "inbound_ack_watermarks sv' = inbound_ack_watermarks sv"
    and "progress = Waiting key True \<Longrightarrow> replayable key \<Longrightarrow> flight_sequence sv key = None \<and>
      flight_sequence sv' key = Some (req_terminal_sequence i) \<and> req_terminal_sequence i \<noteq> 0 \<and> key_coordinator key = gen"
  using assms dispatch_item_flights [of sv stream "req_terminal_sequence i" "req_item i" sv' progress]
  by (auto simp: handle_owner_segment_transfer_item_def item_error_def Let_def split: option.splits if_splits)

lemma complete_flight_request:
  assumes "complete_flight flights key outcome = Some flights'"
  shows "map_option (\<lambda>f. h (so_request f)) (flights' k) = map_option (\<lambda>f. h (so_request f)) (flights k)"
  using assms by (auto simp: complete_flight_def shared_op_complete_def bind_eq_Some_conv split: if_splits)

section \<open>Executed at most once until recorded\<close>

definition system_inv ::
  "owner_generation \<Rightarrow> u64 list \<Rightarrow> owner_service \<Rightarrow> (flight_key \<times> u64) list \<Rightarrow> bool" where
  "system_inv c ts sv log \<longleftrightarrow>
     (\<forall>stream m. inbound_ack_watermarks sv (c, stream) = Some m \<longrightarrow> {1..m} \<subseteq> set ts) \<and>
     (\<forall>k s. (k, s) \<in> set log \<longrightarrow> key_coordinator k = c \<longrightarrow> replayable k \<longrightarrow> s \<notin> set ts \<longrightarrow>
        s \<noteq> 0 \<and> flight_sequence sv k = Some s \<and> count_list log (k, s) = 1)"

lemma system_inv_frame:
  assumes "system_inv c ts sv log" and "set ts \<subseteq> set ts'"
    and "\<And>stream m. inbound_ack_watermarks sv' (c, stream) = Some m \<Longrightarrow>
      inbound_ack_watermarks sv (c, stream) = Some m \<or> {1..m} \<subseteq> set ts'"
    and "\<And>k s. flight_sequence sv k = Some s \<Longrightarrow> key_coordinator k = c \<Longrightarrow> s \<noteq> 0 \<Longrightarrow>
      flight_sequence sv' k = Some s \<or> s \<in> set ts'"
  shows "system_inv c ts' sv' log"
  using assms unfolding system_inv_def by (metis subset_iff)

lemma system_inv_deliver:
  assumes "system_inv c ts sv log" and "accept_request member_start sv caller r = (sv', w)"
    and "req_caller_generation r = c \<Longrightarrow> {1..req_terminal_ack_watermark r} \<subseteq> set ts"
  shows "system_inv c ts sv' log"
proof (cases "sv' = sv")
  case False
  then have ack: "apply_owner_transfer_terminal_ack sv (req_caller_generation r) (req_ack_stream_id r)
      (req_terminal_ack_watermark r) = (sv', w)"
    using assms(2) by (auto simp: accept_request_def split: if_splits)
  have w: "{1..w} \<subseteq> set ts" if "req_caller_generation r = c"
    using ack_applied(1) [OF ack] assms(1,3) that by (auto simp: system_inv_def)
  show ?thesis
  proof (rule system_inv_frame [OF assms(1) subset_refl])
    fix stream m assume "inbound_ack_watermarks sv' (c, stream) = Some m"
    then show "inbound_ack_watermarks sv (c, stream) = Some m \<or> {1..m} \<subseteq> set ts"
      using ack_applied(2) [OF ack, of "(c, stream)"] w by auto
  next
    fix k s assume k: "flight_sequence sv k = Some s" "key_coordinator k = c" "s \<noteq> 0"
    show "flight_sequence sv' k = Some s \<or> s \<in> set ts"
      using ack_flight_kept [OF ack k(1)] w k(2,3) by (auto simp: subset_iff)
  qed
qed (use assms(1) in simp)

lemma system_inv_item:
  assumes "system_inv c ts sv log"
    and h: "handle_owner_segment_transfer_item member_start sv caller gen stream w i = Some (sv', progress)"
  shows "system_inv c ts sv' (log @ started (req_terminal_sequence i) progress)"
proof (cases "\<exists>key. progress = Waiting key True \<and> replayable key \<and> key_coordinator key = c")
  case True
  then obtain key where key: "progress = Waiting key True" "replayable key" "key_coordinator key = c" by blast
  let ?n = "req_terminal_sequence i"
  note lead = handle_item_flights(3) [OF h key(1,2)]
  have st: "started ?n progress = [(key, ?n)]" using key(1) by (simp add: started_def)
  have old: "s \<noteq> 0 \<and> flight_sequence sv k = Some s \<and> count_list log (k, s) = 1"
    if "(k, s) \<in> set log" "key_coordinator k = c" "replayable k" "s \<notin> set ts" for k s
    using assms(1) that unfolding system_inv_def by blast
  show ?thesis unfolding system_inv_def st
  proof (intro conjI allI impI)
    fix stream m assume "inbound_ack_watermarks sv' (c, stream) = Some m"
    then show "{1..m} \<subseteq> set ts" using assms(1) handle_item_flights(2) [OF h] unfolding system_inv_def by metis
  next
    fix k s assume k: "(k, s) \<in> set (log @ [(key, ?n)])" "key_coordinator k = c" "replayable k" "s \<notin> set ts"
    have "s \<noteq> 0 \<and> flight_sequence sv' k = Some s \<and> count_list (log @ [(key, ?n)]) (k, s) = 1"
    proof (cases "(k, s) \<in> set log")
      case True
      note o = old [OF True k(2-4)]
      then have "k \<noteq> key" using lead by auto
      with o show ?thesis using handle_item_flights(1) [OF h] by (simp add: count_list_append)
    next
      case False
      then have "k = key" "s = ?n" using k(1) by auto
      with lead False show ?thesis by (simp add: count_list_append count_list_0_iff)
    qed
    then show "s \<noteq> 0" "flight_sequence sv' k = Some s" "count_list (log @ [(key, ?n)]) (k, s) = 1" by blast+
  qed
next
  case False
  have sub: "(k, s) \<in> set (started (req_terminal_sequence i) progress) \<Longrightarrow> \<not> (replayable k \<and> key_coordinator k = c)" for k s
    using False by (auto simp: started_def split: item_progress.splits bool.splits)
  have "system_inv c ts sv' log"
    by (rule system_inv_frame [OF assms(1)]) (simp_all add: handle_item_flights(1,2) [OF h])
  then show ?thesis using sub unfolding system_inv_def
    by (auto simp: count_list_append count_list_0_iff)
qed

lemma system_inv_flights:
  assumes "system_inv c ts sv log" and "inbound_ack_watermarks sv' = inbound_ack_watermarks sv"
    and "\<And>k. flight_sequence sv' k = flight_sequence sv k"
  shows "system_inv c ts sv' log"
  by (rule system_inv_frame [OF assms(1)]) (simp_all add: assms(2,3))

lemma system_reach_inv:
  "system_reach g c t rs ts sv pend log \<Longrightarrow> system_inv c ts sv log"
proof (induction rule: system_reach.induct)
  case (system_start stream t p)
  show ?case by (simp add: system_inv_def service_new_def)
next
  case (system_record t rs ts sv pend log s)
  then show ?case by (intro system_inv_frame [OF system_record.IH]) auto
next
  case (system_deliver t rs ts sv pend log r member_start caller sv' w)
  have "{1..req_terminal_ack_watermark r} \<subseteq> set ts" if "req_caller_generation r = c"
    using that system_deliver.hyps(2) tracker_reach_inv [OF system_tracker [OF system_deliver.hyps(1)]]
    by (simp add: tracker_inv_def)
  then show ?case by (rule system_inv_deliver [OF system_deliver.IH system_deliver.hyps(3)])
next
  case (system_item t rs ts sv pend log caller gen stream w i member_start sv' progress)
  show ?case by (rule system_inv_item [OF system_item.IH system_item.hyps(3)])
next
  case (system_complete_get t rs ts sv pend log op_id outcome gets)
  have "flight_sequence (sv\<lparr>get_to_target_flights := gets\<rparr>) k = flight_sequence sv k" for k
    using complete_flight_request [OF system_complete_get.hyps(2)] by (cases k) simp_all
  then show ?case by (rule system_inv_flights [OF system_complete_get.IH, rotated]) simp
next
  case (system_complete_put t rs ts sv pend log key outcome puts)
  have "flight_sequence (sv\<lparr>put_from_source_flights := puts\<rparr>) k = flight_sequence sv k" for k
    using complete_flight_request [OF system_complete_put.hyps(2)] by (cases k) simp_all
  then show ?case by (rule system_inv_flights [OF system_complete_put.IH, rotated]) simp
next
  case (system_complete_commit t rs ts sv pend log op_id outcome commits)
  have "flight_sequence (sv\<lparr>target_route_commit_flights := commits\<rparr>) k = flight_sequence sv k" for k
    by (cases k) simp_all
  then show ?case by (rule system_inv_flights [OF system_complete_commit.IH, rotated]) simp
next
  case (system_pool t rs ts sv pend log p)
  have "flight_sequence (sv\<lparr>sv_pool := p\<rparr>) k = flight_sequence sv k" for k
    by (cases k) simp_all
  then show ?case by (rule system_inv_flights [OF system_pool.IH, rotated]) simp
qed

section \<open>What reaches an item handler\<close>

lemma number_items_terminals:
  "number_items n items = Some (n', out) \<Longrightarrow>
   \<forall>i \<in> set out. caches_replay_terminal (req_item i) \<longleftrightarrow> req_terminal_sequence i \<noteq> 0"
  by (induction n items arbitrary: n' out rule: number_items.induct)
    (auto simp: bind_eq_Some_conv checked_add_def split: if_splits)

lemma prepare_request_items:
  assumes "prepare_request t caller g items = Some (t', r)"
  shows "ack_stream_id t' = ack_stream_id t" "req_ack_stream_id r = ack_stream_id t"
    and "\<forall>i \<in> set (req_items r). caches_replay_terminal (req_item i) \<longleftrightarrow> req_terminal_sequence i \<noteq> 0"
  using assms by (auto simp: prepare_request_def Let_def bind_eq_Some_conv dest: number_items_terminals)

lemma record_terminal_stream [simp]: "ack_stream_id (fst (record_terminal t g s)) = ack_stream_id t"
  by (simp add: record_terminal_def Let_def)

lemma system_requests:
  "system_reach g c t rs ts sv pend log \<Longrightarrow> ack_stream_id t \<noteq> 0 \<and>
   (\<forall>r \<in> set rs. req_ack_stream_id r = ack_stream_id t \<and>
      (\<forall>i \<in> set (req_items r). caches_replay_terminal (req_item i) \<longleftrightarrow> req_terminal_sequence i \<noteq> 0))"
proof (induction rule: system_reach.induct)
  case (system_start stream t p)
  then show ?case by (auto simp: tracker_new_def bind_eq_Some_conv assert_or_panic_def split: if_splits)
next
  case (system_prepare t rs ts sv pend log items t' r)
  then show ?case using prepare_request_items [OF system_prepare.hyps(2)] by simp
next
  case (system_prepare_other t rs ts sv pend log h items t' r)
  then show ?case using prepare_request_items [OF system_prepare_other.hyps(3)] by simp
qed simp_all

definition pending_ok ::
  "owner_generation \<Rightarrow> owner_segment_transfer_req list \<Rightarrow> u64 list \<Rightarrow> pending_item \<Rightarrow> bool" where
  "pending_ok c rs ts q \<longleftrightarrow>
     (case q of (caller, gen, stream, w, i) \<Rightarrow> gen = c \<longrightarrow> {1..w} \<subseteq> set ts \<and>
        (\<exists>r \<in> set rs. req_ack_stream_id r = stream \<and> i \<in> set (req_items r)))"

lemma pending_ok_mono:
  "pending_ok c rs ts q \<Longrightarrow> set rs \<subseteq> set rs' \<Longrightarrow> set ts \<subseteq> set ts' \<Longrightarrow> pending_ok c rs' ts' q"
  by (auto simp: pending_ok_def)

lemma accepted_watermark:
  assumes "system_inv c ts sv log" and "accept_request member_start sv caller r = (sv', w)"
    and "req_caller_generation r = c" and "{1..req_terminal_ack_watermark r} \<subseteq> set ts"
  shows "{1..w} \<subseteq> set ts"
proof (cases "w = 0")
  case False
  then have "apply_owner_transfer_terminal_ack sv (req_caller_generation r) (req_ack_stream_id r)
      (req_terminal_ack_watermark r) = (sv', w)"
    using assms(2) by (auto simp: accept_request_def split: if_splits)
  from ack_applied(1) [OF this] assms(1,3,4) show ?thesis by (auto simp: system_inv_def)
qed simp

lemma system_pending:
  "system_reach g c t rs ts sv pend log \<Longrightarrow> list_all (pending_ok c rs ts) pend"
proof (induction rule: system_reach.induct)
  case (system_deliver t rs ts sv pend log r member_start caller sv' w)
  have "list_all (pending_ok c rs ts) (pending_items caller r w)"
  proof (cases "req_caller_generation r = c")
    case True
    then have r: "r \<in> set rs" using system_deliver.hyps(2) by simp
    then have "{1..req_terminal_ack_watermark r} \<subseteq> set ts"
      using tracker_reach_inv [OF system_tracker [OF system_deliver.hyps(1)]] by (simp add: tracker_inv_def)
    from accepted_watermark [OF system_reach_inv [OF system_deliver.hyps(1)] system_deliver.hyps(3) True this] r
    show ?thesis by (auto simp: list_all_iff pending_items_def pending_ok_def)
  qed (simp add: list_all_iff pending_items_def pending_ok_def)
  with system_deliver.IH show ?case by simp
next
  case (system_item t rs ts sv pend log caller gen stream w i member_start sv' progress)
  then show ?case using set_remove1_subset [of "(caller, gen, stream, w, i)" pend] by (auto simp: list_all_iff)
qed (auto simp: list_all_iff intro: pending_ok_mono)

section \<open>A sample run\<close>

text \<open>One read, delivered twice before its answer is recorded; then the answer is recorded, the next
  batch acknowledges it, and a third copy of the first batch arrives.\<close>

definition trace_owner :: owner_generation where
  "trace_owner = \<lparr>gen_node_id = ''t'', gen_node_start_time = 13\<rparr>"

definition trace_coordinator :: owner_generation where
  "trace_coordinator = \<lparr>gen_node_id = ''c'', gen_node_start_time = 11\<rparr>"

definition trace_op :: "u64 \<Rightarrow> owner_transfer_op_id" where
  "trace_op n = \<lparr>op_coordinator = trace_coordinator, op_sequence = n, op_kind = GetOp\<rparr>"

definition trace_item :: "u64 \<Rightarrow> owner_segment_transfer_request_item" where
  "trace_item n = \<lparr>req_terminal_sequence = n, req_item = GetToTarget (trace_op n) InvalidSource InvalidDestination\<rparr>"

definition trace_batch :: "u64 \<Rightarrow> u64 \<Rightarrow> owner_segment_transfer_req" where
  "trace_batch watermark n = \<lparr>req_caller_generation = trace_coordinator, req_ack_stream_id = 9,
     req_terminal_ack_watermark = watermark, req_items = [trace_item n]\<rparr>"

definition trace_flight :: "owner_get_to_target_request shared_op" where
  "trace_flight = shared_op_new \<lparr>gr_ack_stream_id = 9, gr_terminal_sequence = 1, gr_source = InvalidSource,
     gr_destination = InvalidDestination\<rparr>"

definition trace_view :: "node_id_string \<Rightarrow> i64 option" where
  "trace_view = [''c'' \<mapsto> 11]"

definition trace_pending :: "u64 \<Rightarrow> pending_item" where
  "trace_pending n = (''c'', trace_coordinator, 9, 0, trace_item n)"

definition trace_service :: "owner_pool \<Rightarrow> owner_service" where
  "trace_service p = (service_new p)\<lparr>get_to_target_flights := [trace_op 1 \<mapsto> trace_flight]\<rparr>"

definition trace_tracker_state :: "u64 \<Rightarrow> u64 \<Rightarrow> owner_transfer_peer_tracker" where
  "trace_tracker_state n mark = \<lparr>ack_stream_id = 9, peers = [trace_owner \<mapsto>
     \<lparr>next_terminal_sequence = n, ack = \<lparr>ack_mark = mark, completed_after_gap = []\<rparr>\<rparr>]\<rparr>"

lemmas trace_defs = trace_owner_def trace_coordinator_def trace_op_def trace_item_def trace_batch_def
  trace_flight_def trace_view_def trace_pending_def trace_service_def trace_tracker_state_def

declare One_nat_def [simp del]

lemma trace_delivered:
  "system_reach trace_owner trace_coordinator (trace_tracker_state 1 0) [trace_batch 0 1] []
     (service_new p) [trace_pending 1, trace_pending 1] []"
proof -
  let ?t0 = "\<lparr>ack_stream_id = 9, peers = Map.empty\<rparr>"
  have start: "system_reach trace_owner trace_coordinator ?t0 [] [] (service_new p) [] []"
    by (rule system_start [of 9]) (simp add: tracker_new_def)
  have "prepare_request ?t0 trace_coordinator trace_owner [req_item (trace_item 1)] =
      Some (trace_tracker_state 1 0, trace_batch 0 1)"
    by (simp add: prepare_request_def peer_or_default_def peer_default_def trace_defs checked_add_def wrapping_add_def)
  from system_prepare [OF start this]
  have sent: "system_reach trace_owner trace_coordinator (trace_tracker_state 1 0) [trace_batch 0 1] []
      (service_new p) [] []" by simp
  have accept: "accept_request trace_view (service_new p) ''c'' (trace_batch 0 1) = (service_new p, 0)"
    by (simp add: accept_request_def trace_defs apply_owner_transfer_terminal_ack_def)
  have items: "pending_items ''c'' (trace_batch 0 1) 0 = [trace_pending 1]"
    by (simp add: pending_items_def trace_defs)
  from system_deliver [OF system_deliver [OF sent _ accept] _ accept] show ?thesis by (simp add: items)
qed

lemma trace_started:
  "handle_owner_segment_transfer_item trace_view (service_new p) ''c'' trace_coordinator 9 0 (trace_item 1) =
     Some (trace_service p, Waiting (GetFlight (trace_op 1)) True)"
  "handle_owner_segment_transfer_item trace_view (trace_service p) ''c'' trace_coordinator 9 0 (trace_item 1) =
     Some (trace_service p, Waiting (GetFlight (trace_op 1)) False)"
  by (simp_all add: handle_owner_segment_transfer_item_def item_error_def dispatch_item_def
      handle_owner_get_to_target_def join_flight_def service_new_def trace_defs shared_op_new_def)

lemma trace_joined:
  "system_reach trace_owner trace_coordinator (trace_tracker_state 1 0) [trace_batch 0 1] []
     (trace_service p) [] [(GetFlight (trace_op 1), 1)]"
proof -
  have seq: "req_terminal_sequence (trace_item 1) = 1" by (simp add: trace_item_def)
  from system_item [OF trace_delivered _ trace_started(1) [of p]]
  have "system_reach trace_owner trace_coordinator (trace_tracker_state 1 0) [trace_batch 0 1] []
     (trace_service p) [trace_pending 1] [(GetFlight (trace_op 1), 1)]"
    by (simp add: trace_pending_def started_def seq)
  from system_item [OF this _ trace_started(2) [of p]] show ?thesis
    by (simp add: trace_pending_def started_def)
qed


section \<open>Properties\<close>

text \<open>C3: Executed at most once until recorded. Whatever the order, repetition and interleaving of
  deliveries, item handlers, completions and acknowledgements, a read or a put whose terminal
  answer its coordinator has not recorded has been started at most once by the owner.\<close>

theorem unrecorded_executed_at_most_once:
  assumes "system_reach g c t rs ts sv pend log"
    and "key_coordinator key = c" and "replayable key" and "sequence \<notin> set ts"
  shows "count_list log (key, sequence) \<le> 1"
proof (cases "(key, sequence) \<in> set log")
  case True
  with system_reach_inv [OF assms(1)] assms(2-4) show ?thesis by (auto simp: system_inv_def)
qed (simp add: count_list_0_iff)

theorem unrecorded_executed_at_most_once_witness:
  "\<exists>sv. system_reach trace_owner trace_coordinator (trace_tracker_state 1 0) [trace_batch 0 1] [] sv []
       [(GetFlight (trace_op 1), 1)] \<and>
     count_list [(GetFlight (trace_op 1), 1 :: nat)] (GetFlight (trace_op 1), 1) \<le> 1"
proof -
  fix p
  have "count_list [(GetFlight (trace_op 1), 1 :: nat)] (GetFlight (trace_op 1), 1) \<le> 1"
    by (rule unrecorded_executed_at_most_once [OF trace_joined [of p]]) (simp_all add: trace_op_def)
  with trace_joined [of p] show ?thesis by blast
qed

text \<open>C28: An unrecorded item is never taken for an acknowledged one: its handler, whenever it runs and
  whatever the owner has applied in the meantime, dispatches it as long as the calling member is the
  current one.\<close>

theorem unrecorded_item_dispatched:
  assumes "system_reach g c t rs ts sv pend log" and "(caller, c, stream, w, i) \<in> set pend"
    and "req_terminal_sequence i = 0 \<or> req_terminal_sequence i \<notin> set ts"
    and "item_op_id (req_item i) = Some op_id" and "op_coordinator op_id = c"
    and "gen_node_id c = caller" and "member_start caller = Some (gen_node_start_time c)"
  shows "handle_owner_segment_transfer_item member_start sv' caller c stream w i =
    dispatch_item sv' stream (req_terminal_sequence i) (req_item i)"
proof -
  have p: "{1..w} \<subseteq> set ts" "\<exists>r \<in> set rs. req_ack_stream_id r = stream \<and> i \<in> set (req_items r)"
    using system_pending [OF assms(1)] assms(2) by (auto simp: list_all_iff pending_ok_def)
  then have "stream \<noteq> 0" "caches_replay_terminal (req_item i) \<longleftrightarrow> req_terminal_sequence i \<noteq> 0"
    using system_requests [OF assms(1)] by auto
  moreover have "req_terminal_sequence i = 0 \<or> w < req_terminal_sequence i"
  proof (rule ccontr)
    assume "\<not> (req_terminal_sequence i = 0 \<or> w < req_terminal_sequence i)"
    then have "req_terminal_sequence i \<in> {1..w}" by simp
    with p(1) assms(3) show False by (auto simp: subset_iff)
  qed
  ultimately have "item_error member_start caller c stream w i = None"
    using assms(4-7) by (auto simp: item_error_def)
  then show ?thesis by (simp add: handle_owner_segment_transfer_item_def)
qed

theorem unrecorded_item_dispatched_witness:
  "\<exists>p. handle_owner_segment_transfer_item trace_view (service_new p) ''c'' trace_coordinator 9 0 (trace_item 1) =
     dispatch_item (service_new p) 9 1 (req_item (trace_item 1))"
proof -
  fix p
  have "handle_owner_segment_transfer_item trace_view (service_new p) ''c'' trace_coordinator 9 0 (trace_item 1) =
      dispatch_item (service_new p) 9 (req_terminal_sequence (trace_item 1)) (req_item (trace_item 1))"
    by (rule unrecorded_item_dispatched [OF trace_delivered, of _ _ _ _ "trace_op 1"])
      (simp_all add: trace_defs)
  then show ?thesis by (auto simp: trace_item_def)
qed


end
