(* ===== verification/Owner_Put.thy ===== *)
theory Owner_Put
  imports Owner_Service
begin

text \<open>
  The target side of a put (\<open>execute_owner_put_from_source\<close> in
  \<open>fluxon_kv/src/client_kv_api/mod.rs\<close>): the owner that shall hold a copy of a value checks the plan,
  adopts a copy it already has or prepares a slot, reads the payload from the source owner and has the
  master commit the route. Like the other executions it is split where it waits; the transfer and the
  master's answers are arguments. The leader of the key's materialisation fence runs it, and what it
  reports to the fence is part of the result.
\<close>

datatype owner_key_materialization_outcome =
  MaterializationInFlight | MaterializationCommitted | MaterializationFailed

definition put_receipt :: "owner_transfer_op_id \<Rightarrow> owner_slot_desc \<Rightarrow> owner_slot_desc \<Rightarrow> owner_transfer_receipt" where
  "put_receipt op_id source_slot target_slot =
     \<lparr>rcpt_completion_id = op_sequence op_id, rcpt_direction = RdmaRead, rcpt_bytes = slot_len source_slot,
      rcpt_source = Some source_slot, rcpt_target = target_slot,
      rcpt_source_registration_epoch = slot_registration_epoch source_slot,
      rcpt_target_registration_epoch = slot_registration_epoch target_slot\<rparr>"

definition put_from_source_completed ::
  "u32 \<Rightarrow> owner_source_read_capability \<Rightarrow> owner_slot_desc \<Rightarrow> owner_transfer_receipt \<Rightarrow> u64 \<Rightarrow>
   owner_segment_transfer_outcome" where
  "put_from_source_completed target_attempt source target receipt route_epoch =
     PutFromSourceCompleted target_attempt (src_source (rc_route source)) target receipt route_epoch"

definition put_from_source_accepted_route_pending ::
  "u32 \<Rightarrow> owner_source_read_capability \<Rightarrow> owner_slot_desc \<Rightarrow> owner_transfer_receipt \<Rightarrow>
   owner_segment_transfer_outcome" where
  "put_from_source_accepted_route_pending target_attempt source target receipt =
     PutFromSourceAcceptedRoutePending target_attempt (src_source (rc_route source)) target receipt"

text \<open>The answer for a target whose route is committed, by the mode the caller asked for.\<close>

definition put_success ::
  "owner_put_from_source_request \<Rightarrow> owner_slot_desc \<Rightarrow> owner_transfer_receipt \<Rightarrow> u64 \<Rightarrow> owner_segment_transfer_outcome" where
  "put_success request target receipt route_epoch =
     (case pr_route_commit_mode request of
        AsyncCommit \<Rightarrow> put_from_source_accepted_route_pending (pr_target_attempt request) (pr_source request) target receipt
      | SyncCommit \<Rightarrow> put_from_source_completed (pr_target_attempt request) (pr_source request) target receipt route_epoch)"

text \<open>A value the owner already holds is adopted by committing its route; the answer of the master is
  \<open>master_answer\<close>.\<close>

definition complete_put_from_existing_owner_manifest ::
  "append_error + put_append_done_resp \<Rightarrow> owner_transfer_op_id \<Rightarrow> owner_put_from_source_request \<Rightarrow>
   owner_slot_desc \<Rightarrow> owner_slot_desc \<Rightarrow> owner_segment_transfer_outcome" where
  "complete_put_from_existing_owner_manifest master_answer op_id request source_slot target_slot =
     (case master_answer of
        Inr response \<Rightarrow>
          if pad_appended response \<and> pad_route_epoch response \<noteq> 0
          then put_success request target_slot (put_receipt op_id source_slot target_slot) (pad_route_epoch response)
          else error_outcome RouteCommitRequired
      | Inl _ \<Rightarrow> error_outcome RouteCommitRequired)"

section \<open>Up to the transfer\<close>

definition put_plan_matches ::
  "owner_generation \<Rightarrow> owner_transfer_op_id \<Rightarrow> owner_put_from_source_request \<Rightarrow> bool" where
  "put_plan_matches target_owner op_id request \<longleftrightarrow>
     (let source_slot = src_source (rc_route (pr_source request)); target_plan = pr_target_plan request in
      \<not> (op_kind op_id \<noteq> ReplicaAppendOp \<or> pr_target_attempt request = 0 \<or>
         tgt_operation target_plan \<noteq> op_id \<or> tgt_target_owner target_plan \<noteq> target_owner \<or>
         tgt_plan_nonce target_plan \<noteq> op_sequence op_id \<or>
         tgt_key target_plan \<noteq> src_key (rc_route (pr_source request)) \<or>
         tgt_put_id target_plan \<noteq> src_put_id (rc_route (pr_source request)) \<or>
         tgt_atomic_batch target_plan \<noteq> src_atomic_batch (rc_route (pr_source request)) \<or>
         slot_owner source_slot = target_owner \<or>
         \<not> source_read_is_valid_for (pr_source request) op_id target_owner (pr_target_attempt request) (slot_len source_slot)))"

text \<open>What comes after the pool was asked: an answer with the report to the fence, the master's answer
  about a copy that exists, or a target, with the payload to be read first or not.\<close>

datatype put_step =
    PutAnswer owner_segment_transfer_outcome owner_key_materialization_outcome
  | PutAdopt owner_slot_desc
  | PutTarget owner_lease_id owner_slot_desc bool

definition put_target_step ::
  "owner_generation \<Rightarrow> owner_slot_desc \<Rightarrow> owner_lease_id \<Rightarrow> owner_slot_desc \<Rightarrow> bool \<Rightarrow> put_step" where
  "put_target_step target_owner source_slot lease_id target_slot transfer_required =
     (if slot_owner target_slot \<noteq> target_owner \<or> slot_len target_slot \<noteq> slot_len source_slot \<or>
         \<not> slot_is_valid target_slot
      then PutAnswer (error_outcome Conflict) MaterializationFailed
      else PutTarget lease_id target_slot transfer_required)"

definition begin_owner_put_from_source ::
  "owner_generation \<Rightarrow> owner_pool \<Rightarrow> owner_transfer_op_id \<Rightarrow> owner_put_from_source_request \<Rightarrow>
   (owner_pool \<times> put_step) option" where
  "begin_owner_put_from_source target_owner p op_id request =
     (let source_slot = src_source (rc_route (pr_source request)); target_plan = pr_target_plan request in
      case pool_manifest_entry p (tgt_key target_plan) (tgt_put_id target_plan) of
        Some existing \<Rightarrow>
          if me_physical_state existing \<noteq> CommittedPhysical
          then Some (p, PutAnswer (error_outcome Conflict) MaterializationFailed)
          else if slot_owner (me_slot existing) \<noteq> target_owner \<or> slot_len (me_slot existing) \<noteq> slot_len source_slot \<or>
                  \<not> slot_is_valid (me_slot existing)
          then Some (p, PutAnswer (error_outcome Conflict) MaterializationFailed)
          else Some (p, PutAdopt (me_slot existing))
      | None \<Rightarrow> do {
          (p, prepared) \<leftarrow> prepare_target p op_id target_owner (tgt_key target_plan) (tgt_put_id target_plan)
             (slot_len source_slot) (pr_disposition request) (tgt_atomic_batch target_plan);
          Some (p, case prepared of
            TargetPrepared lease_id slot _ \<Rightarrow> put_target_step target_owner source_slot lease_id slot True
          | TargetDataReady lease_id slot \<Rightarrow> put_target_step target_owner source_slot lease_id slot False
          | TargetCommitPending lease_id slot \<Rightarrow> put_target_step target_owner source_slot lease_id slot False
          | TargetCommitted lease_id slot route_epoch \<Rightarrow>
              if route_epoch \<noteq> 0
              then PutAnswer (put_success request slot (put_receipt op_id source_slot slot) route_epoch)
                     MaterializationCommitted
              else PutAnswer (TargetCommitted lease_id slot route_epoch) MaterializationFailed
          | terminal \<Rightarrow> PutAnswer terminal MaterializationFailed) })"

text \<open>The adopted copy: the fence is told about it when the route was committed.\<close>

definition adopt_owner_put_from_source ::
  "append_error + put_append_done_resp \<Rightarrow> owner_transfer_op_id \<Rightarrow> owner_put_from_source_request \<Rightarrow>
   owner_slot_desc \<Rightarrow> owner_segment_transfer_outcome \<times> owner_key_materialization_outcome" where
  "adopt_owner_put_from_source master_answer op_id request existing_slot =
     (let outcome = complete_put_from_existing_owner_manifest master_answer op_id request
            (src_source (rc_route (pr_source request))) existing_slot
      in (outcome, case outcome of
            PutFromSourceAcceptedRoutePending _ _ _ _ \<Rightarrow> MaterializationCommitted
          | PutFromSourceCompleted _ _ _ _ _ \<Rightarrow> MaterializationCommitted
          | _ \<Rightarrow> MaterializationFailed))"

section \<open>After the transfer\<close>

text \<open>A failed transfer gives the target back.\<close>

definition abort_owner_put_from_source ::
  "owner_pool \<Rightarrow> owner_transfer_op_id \<Rightarrow> owner_lease_id \<Rightarrow> string \<Rightarrow>
   (owner_pool \<times> owner_segment_transfer_outcome \<times> owner_key_materialization_outcome) option" where
  "abort_owner_put_from_source p op_id lease_id reason =
     do { (p, outcome) \<leftarrow> abort_target p op_id lease_id reason;
          Some (p, outcome, MaterializationFailed) }"

definition put_commit_request ::
  "owner_transfer_op_id \<Rightarrow> owner_put_from_source_request \<Rightarrow> owner_lease_id \<Rightarrow> owner_slot_desc \<Rightarrow>
   owner_target_route_commit_request" where
  "put_commit_request op_id request lease_id target_slot =
     \<lparr>cr_lease_id = lease_id,
      cr_receipt = put_receipt op_id (src_source (rc_route (pr_source request))) target_slot,
      cr_route_token = Some (pr_target_plan request), cr_route_commit_mode = pr_route_commit_mode request\<rparr>"

definition commit_owner_put_from_source ::
  "owner_service \<Rightarrow> owner_transfer_op_id \<Rightarrow> owner_put_from_source_request \<Rightarrow> owner_lease_id \<Rightarrow> owner_slot_desc \<Rightarrow>
   (owner_service \<times> item_progress) option" where
  "commit_owner_put_from_source sv op_id request lease_id target_slot =
     start_owner_target_route_commit sv op_id (put_commit_request op_id request lease_id target_slot)"

text \<open>In the asynchronous mode the put answers as soon as the commit runs; a task keeps the fence until the
  commit ends and then reports \<open>route_wait_outcome\<close>.\<close>

definition answer_put_async ::
  "owner_transfer_op_id \<Rightarrow> owner_put_from_source_request \<Rightarrow> owner_slot_desc \<Rightarrow> item_progress \<Rightarrow>
   owner_segment_transfer_outcome \<times> owner_key_materialization_outcome" where
  "answer_put_async op_id request target_slot commit =
     (let receipt = put_receipt op_id (src_source (rc_route (pr_source request))) target_slot in
      case commit of
        Waiting _ _ \<Rightarrow>
          (put_from_source_accepted_route_pending (pr_target_attempt request) (pr_source request) target_slot receipt,
           MaterializationInFlight)
      | Answered terminal \<Rightarrow>
          (case terminal of
             TargetCommitted _ slot route_epoch \<Rightarrow>
               if route_epoch \<noteq> 0 \<and> geometry_matches slot target_slot
               then (put_from_source_accepted_route_pending (pr_target_attempt request) (pr_source request) slot receipt,
                     MaterializationCommitted)
               else (terminal, MaterializationFailed)
           | _ \<Rightarrow> (terminal, MaterializationFailed)))"

definition route_wait_outcome ::
  "owner_slot_desc \<Rightarrow> owner_segment_transfer_outcome \<Rightarrow> owner_key_materialization_outcome" where
  "route_wait_outcome expected_slot terminal =
     (case terminal of
        TargetCommitted _ slot route_epoch \<Rightarrow>
          if route_epoch \<noteq> 0 \<and> geometry_matches slot expected_slot then MaterializationCommitted
          else MaterializationFailed
      | _ \<Rightarrow> MaterializationFailed)"

text \<open>In the synchronous mode the put waits for the commit's terminal answer.\<close>

definition answer_put_sync ::
  "owner_pool \<Rightarrow> owner_transfer_op_id \<Rightarrow> owner_put_from_source_request \<Rightarrow> owner_lease_id \<Rightarrow> owner_slot_desc \<Rightarrow>
   string \<Rightarrow> owner_segment_transfer_outcome \<Rightarrow>
   (owner_pool \<times> owner_segment_transfer_outcome \<times> owner_key_materialization_outcome) option" where
  "answer_put_sync p op_id request lease_id target_slot reason terminal =
     (case terminal of
        TargetCommitted committed_lease slot route_epoch \<Rightarrow>
          if committed_lease = lease_id \<and> geometry_matches slot target_slot \<and> route_epoch \<noteq> 0
          then Some (p, put_from_source_completed (pr_target_attempt request) (pr_source request) slot
                 (put_receipt op_id (src_source (rc_route (pr_source request))) target_slot) route_epoch,
               MaterializationCommitted)
          else Some (p, terminal, MaterializationFailed)
      | ErrorOutcome error \<Rightarrow>
          if err_code error = RouteCommitRequired
          then do { (p, outcome) \<leftarrow> abort_route_rejected_target p op_id lease_id reason;
                    Some (p, outcome, MaterializationFailed) }
          else Some (p, terminal, MaterializationFailed)
      | _ \<Rightarrow> Some (p, terminal, MaterializationFailed))"

end
