(* ===== verification/Owner_Put_Correct.thy ===== *)
theory Owner_Put_Correct
  imports Owner_Put Owner_Transfer Owner_Pool_Correct
begin

text \<open>
  Executions of the owner around its segment pool: a read always gives its source back, and a put that
  prepares a target either publishes it at the route the master committed or leaves nothing of it,
  after finitely many questions to the master.
\<close>

declare map_of_eq_Some_iff [simp del] Some_eq_map_of_iff [simp del]

section \<open>A target on its way\<close>

text \<open>A lease whose slot is prepared, unread, and named by a manifest entry of its key and generation.\<close>

definition target_held ::
  "owner_segment_state \<Rightarrow> owner_transfer_op_id \<Rightarrow> owner_target_lease_record \<Rightarrow> owner_slot_manifest_entry \<Rightarrow> bool" where
  "target_held s op_id e m \<longleftrightarrow> target_leases s op_id = Some e \<and>
     (\<exists>r. alloc_map s (slot_allocation_id (tl_slot e)) = Some r \<and> os_state r = Prepared \<and>
        os_source_read_lease_count r = 0) \<and>
     manifest_key_by_allocation s (slot_allocation_id (tl_slot e)) = Some (manifest_key (tl_key e) (tl_put_id e)) \<and>
     manifest_by_key s (manifest_key (tl_key e) (tl_put_id e)) = Some m"

lemma prepared_target_held:
  assumes inv: "pool_inv p" and seg: "segment p = Some s" "target_leases s op = None"
    and prep: "prepare_target p op tgt key pid len disp batch = Some (p', TargetPrepared lid slot v)"
  obtains s' m where "segment p' = Some s'" "me_slot m = slot" "slot_owner slot = tgt"
    "target_held s' op \<lparr>tl_lease_id = lid, tl_key = key, tl_put_id = pid, tl_len = len, tl_disposition = disp,
       tl_atomic_batch = batch, tl_slot = slot, tl_state = TargetPreparedState\<rparr> m"
proof -
  obtain slot_size s1 p1 q m s2 where f: "tgt = seg_owner s"
    "claim_prepared_slot s slot_size len (next_allocation_id p + 1) = Some (s1, Some slot)"
    "m = \<lparr>me_key = key, me_put_id = pid, me_slot = slot, me_scope = disposition_scope disp, me_disposition = disp,
          me_route_epoch = 0, me_physical_state = ReservedPhysical\<rparr>"
    "install_manifest_entry s1 m = (s2, Inr ())" "seg_manifest_entry s key pid = None"
    "p' = q\<lparr>segment := Some (insert_target_lease s2 op
        \<lparr>tl_lease_id = lid, tl_key = key, tl_put_id = pid, tl_len = len, tl_disposition = disp,
         tl_atomic_batch = batch, tl_slot = slot, tl_state = TargetPreparedState\<rparr>)\<rparr>"
    by (rule prepare_target_fresh [OF prep seg]) blast
  have si: "seg_inv s" by (rule pool_invD(1) [OF inv seg(1)])
  then have phys: "phys_ok s" by (simp add: seg_inv_def)
  obtain r where r: "alloc_map s1 (next_allocation_id p + 1) = Some r" "os_state r = Prepared"
      "os_source_read_lease_count r = 0" "slot = claimed_slot s (next_allocation_id p + 1) r"
    using phys f(2) by (cases rule: claim_prepared_slot_cases) (auto simp: update_conv')
  have id: "slot_allocation_id slot = next_allocation_id p + 1" "slot_owner slot = tgt"
    using r(4) f(1) by (simp_all add: claimed_slot_def)
  have "manifest_by_key s1 = manifest_by_key s" using claim_prepared_slot_inv [OF si f(2)] by simp
  then have none: "manifest_by_key s1 (manifest_key key pid) = None" using f(5) by (simp add: seg_manifest_entry_def)
  then have s2: "s2 = s1\<lparr>manifest_key_by_allocation :=
        (manifest_key_by_allocation s1)(slot_allocation_id slot \<mapsto> manifest_key key pid),
      manifest_by_key := (manifest_by_key s1)(manifest_key key pid \<mapsto> m)\<rparr>"
    using f(3,4) by (auto simp: install_manifest_entry_def Let_def split: if_splits option.splits)
  show ?thesis
  proof (rule that)
    show "segment p' = Some (insert_target_lease s2 op
        \<lparr>tl_lease_id = lid, tl_key = key, tl_put_id = pid, tl_len = len, tl_disposition = disp,
         tl_atomic_batch = batch, tl_slot = slot, tl_state = TargetPreparedState\<rparr>)" by (simp add: f(6))
    show "me_slot m = slot" "slot_owner slot = tgt" using f(3) id(2) by simp_all
    show "target_held (insert_target_lease s2 op
        \<lparr>tl_lease_id = lid, tl_key = key, tl_put_id = pid, tl_len = len, tl_disposition = disp,
         tl_atomic_batch = batch, tl_slot = slot, tl_state = TargetPreparedState\<rparr>) op
        \<lparr>tl_lease_id = lid, tl_key = key, tl_put_id = pid, tl_len = len, tl_disposition = disp,
         tl_atomic_batch = batch, tl_slot = slot, tl_state = TargetPreparedState\<rparr> m"
      using r(1-3) id(1) by (simp add: target_held_def insert_target_lease_def s2)
  qed
qed

lemma target_held_commit_begins:
  assumes "segment p = Some s" "target_held s op e m" "tl_lease_id e = lid"
    and "tl_state e = TargetPreparedState \<or> tl_state e = TargetDataReadyState rc"
    and "receipt_proves receipt e" "route_token_error op e token = None"
  obtains s' where "begin_target_commit p op lid receipt token =
      Some (p\<lparr>segment := Some s'\<rparr>, TargetCommitPending lid (tl_slot e))"
    "target_held s' op (e\<lparr>tl_state := TargetRoutePendingState receipt token\<rparr>) (m\<lparr>me_physical_state := RoutePendingPhysical\<rparr>)"
    "seg_allocator s' = seg_allocator s"
  using that assms
  by (auto simp: begin_target_commit_def target_held_def set_target_state_def update_manifest_by_allocation_def
      manifest_entry_by_allocation_def)

lemma target_held_counted:
  assumes "pool_inv p" "segment p = Some s" "target_held s op e m"
  shows "0 < prepared_slots p"
proof -
  have "slot_states s (slot_allocation_id (tl_slot e)) = Some Prepared"
    using assms(3) by (auto simp: target_held_def slot_states_def)
  then show ?thesis
    using pool_invD(4) [OF assms(1,2)] map_count_0 [OF slot_states_finite, of s is_prepared_slot]
    by (auto simp: neq0_conv [symmetric])
qed

lemma target_held_committed:
  assumes inv: "pool_inv p" and seg: "segment p = Some s" "target_held s op e m" "tl_lease_id e = lid"
    and st: "tl_state e = TargetRoutePendingState rc tok" "persistent (tl_disposition e)" "epoch \<noteq> 0"
  shows "\<exists>p' s'. finish_target_commit p op lid epoch = Some (p', TargetCommitted lid (tl_slot e) epoch) \<and>
    segment p' = Some s' \<and>
    seg_manifest_entry s' (tl_key e) (tl_put_id e) = Some (m\<lparr>me_physical_state := CommittedPhysical, me_route_epoch := epoch\<rparr>) \<and>
    map_option os_state (seg_allocation s' (slot_allocation_id (tl_slot e))) = Some (Committed True 0)"
proof -
  obtain n where n: "prepared_slots p = Suc n" using target_held_counted [OF inv seg(1,2)] gr0_implies_Suc by blast
  show ?thesis using assms n live_slots_small(2) [OF inv seg(1)]
    by (auto simp: finish_target_commit_def target_held_def seg_allocation_def set_target_state_def set_allocation_def
        update_manifest_by_allocation_def manifest_entry_by_allocation_def checked_sub_def checked_add_def
        seg_manifest_entry_def update_conv' Let_def)
qed

lemma target_held_aborted:
  assumes inv: "pool_inv p" and seg: "segment p = Some s" "target_held s op e m" and room: "revision_room (seg_allocator s)"
  shows "\<exists>p' s'. abort_prepared p s op (slot_allocation_id (tl_slot e)) reason = Some (p', TargetAborted) \<and>
    segment p' = Some s' \<and> seg_manifest_entry s' (tl_key e) (tl_put_id e) = None \<and>
    seg_allocation s' (slot_allocation_id (tl_slot e)) = None"
proof -
  let ?i = "slot_allocation_id (tl_slot e)"
  let ?s = "s\<lparr>target_leases := (target_leases s)(op \<mapsto> e\<lparr>tl_state := TargetAbortedState reason\<rparr>)\<rparr>"
  obtain n where n: "prepared_slots p = Suc n" using target_held_counted [OF inv seg(1,2)] gr0_implies_Suc by blast
  obtain r where r: "alloc_map s ?i = Some r" "os_state r = Prepared" "os_source_read_lease_count r = 0"
    and lease: "target_leases s op = Some e"
    and mk: "manifest_key_by_allocation s ?i = Some (manifest_key (tl_key e) (tl_put_id e))"
    using seg(2) by (auto simp: target_held_def)
  have si: "seg_inv ?s" using pool_invD(1) [OF inv seg(1)] seg_inv_target_leases by simp
  obtain s' where fr: "free_allocation ?s ?i = Some s'"
    using free_allocation_total [OF si, of ?i r] r room by auto
  have "manifest_by_key s' (manifest_key (tl_key e) (tl_put_id e)) = None"
    by (rule free_allocation_cases [OF si fr]) (simp add: mk)
  moreover have "alloc_map s' ?i = None" using free_allocation_inv(2) [OF si fr] by simp
  ultimately show ?thesis using lease r n fr
    by (simp add: abort_prepared_def set_target_state_def seg_release_prepared_slot_def seg_allocation_def
        checked_sub_def seg_manifest_entry_def)
qed

section \<open>The commit loop\<close>

fun verdict :: "append_error + put_append_done_resp \<Rightarrow> route_verdict" where
  "verdict (Inr response) = (case classify_owner_put_append_done response of
     CommittedRoute route_epoch \<Rightarrow> RouteCommitted route_epoch | ObsoleteRoute \<Rightarrow> RouteRejected)"
| "verdict (Inl error) =
     (if owner_put_append_done_is_definitively_rejected error then RouteRejected else RouteShutdown)"

text \<open>An answer settles the commit unless it leaves its effect open while the process runs.\<close>

definition append_settles :: "(nat \<Rightarrow> append_error + put_append_done_resp) \<Rightarrow> (nat \<Rightarrow> bool) \<Rightarrow> nat \<Rightarrow> bool" where
  "append_settles call is_running i \<longleftrightarrow>
     (case call i of Inr _ \<Rightarrow> True
      | Inl error \<Rightarrow> owner_put_append_done_is_definitively_rejected error \<or> \<not> is_running i)"

interpretation commit_loop: retry_loop "route_commit_loop call is_running" "append_settles call is_running"
  "\<lambda>i. verdict (call i)" for call is_running
  by unfold_locales
    (subst route_commit_loop.simps, force simp: append_settles_def split: sum.splits put_append_disposition.splits)+

lemma committed_epoch: "verdict answer = RouteCommitted epoch \<Longrightarrow> epoch \<noteq> 0"
  by (cases answer) (auto simp: classify_owner_put_append_done_def split: if_splits)

lemma run_commit_settled:
  assumes "\<forall>i < n. \<not> append_settles call is_running i" "append_settles call is_running n"
    and "op_kind op_id = ReplicaAppendOp" "cr_route_token request = Some token"
  shows "run_owner_target_route_commit call is_running reason p op_id request =
    conclude_route_commit p op_id (cr_lease_id request) reason (verdict (call n))"
  using commit_loop.first_settled [OF assms(1,2)] assms(3,4) by (simp add: run_owner_target_route_commit_def)

section \<open>Reads\<close>

text \<open>C10: A read of a memory source always ends and gives its source back. On every reachable pool in
  which the operation holds its source lease, whatever the transfer engine answered, the execution
  returns the read's receipt or the internal error, the lease is recorded as released, no hold is
  retained, and a later execution of the same operation is refused without touching the pool.\<close>

theorem get_to_target_gives_source_back:
  assumes "pool_reach p" "segment p = Some s" "map_of (source_leases s) op_id = Some l" "sl_state l = ActiveLease"
    and "revision_room (seg_allocator s)"
    and "get_destination_target (gr_destination request) = Some (target_owner, target_addr, is_gpu)"
    and "gr_source request = MemorySource token"
  shows "\<exists>p' outcome. finish_owner_get_to_target transferred p op_id request (src_source token)
      (MemoryHold (sl_lease_id l)) = Some (p', outcome, None) \<and>
    outcome = (if transferred then GetToTargetCompleted
        \<lparr>get_rcpt_completion_id = op_sequence op_id,
         get_rcpt_direction = get_direction (src_source token) target_owner target_addr,
         get_rcpt_bytes = slot_len (src_source token), get_rcpt_source = src_source token,
         get_rcpt_destination = gr_destination request\<rparr>
      else error_outcome Internal) \<and>
    (\<exists>s'. segment p' = Some s' \<and> map_of (source_leases s') op_id =
       Some (l\<lparr>sl_state := ReleasedLease (if transferred then TransferSuccess else TransferFailed)\<rparr>)) \<and>
    (\<exists>code. begin_owner_get_to_target self p' op_id request =
       Some (p', GetAnswer (error_outcome code) None))"
proof -
  let ?o = "if transferred then TransferSuccess else TransferFailed"
  obtain p' s' where r: "release_source p op_id (sl_lease_id l) ?o = Some (p', SourceReleased)"
    "segment p' = Some s'" "map_of (source_leases s') op_id = Some (l\<lparr>sl_state := ReleasedLease ?o\<rparr>)"
    using release_source_total [OF assms(1-5)] by blast
  have "p'\<lparr>segment := Some s'\<rparr> = p'" using r(2) by simp
  then have "\<exists>outcome. acquire_source p' op_id token = Some (p', outcome) \<and>
      (outcome = SourceReleased \<or> outcome = error_outcome Conflict)"
    using r(2,3) by (simp add: acquire_source_def seg_acquire_source_def)
  then have "\<exists>code. begin_owner_get_to_target self p' op_id request =
      Some (p', GetAnswer (error_outcome code) None)"
    using assms(7) by (auto simp: begin_owner_get_to_target_def Let_def)
  with r assms(6) show ?thesis
    by (cases transferred) (auto simp: finish_owner_get_to_target_def release_owner_get_to_target_source_hold_def Let_def)
qed

theorem get_to_target_gives_source_back_witness:
  "\<exists>(p :: owner_pool) p' token outcome.
     finish_owner_get_to_target True p sample_get
       \<lparr>gr_ack_stream_id = 9, gr_terminal_sequence = 1, gr_source = MemorySource token,
        gr_destination = ExternalGpu \<lparr>gpu_operation = sample_get, gpu_requester = sample_owner, gpu_addr = 64,
          gpu_capacity_bytes = 40960, gpu_registration_id = 3\<rparr>\<rparr>
       (src_source token) (MemoryHold (sample_lease 2)) = Some (p', outcome, None)"
proof -
  obtain a al where reach: "pool_reach (sample_leased a al)" "revision_room a" by (rule sample_reach)
  define s where "s = the (segment (sample_leased a al))"
  have s: "segment (sample_leased a al) = Some s"
    "map_of (source_leases s) sample_get = Some \<lparr>sl_lease_id = sample_lease 2,
       sl_route_token = sample_source_token al, sl_state = ActiveLease\<rparr>" "seg_allocator s = a"
    by (simp_all add: s_def sample_leased_def sample_pool_def sample_at_def sample_segment_def)
  let ?r = "\<lparr>gr_ack_stream_id = 9, gr_terminal_sequence = 1, gr_source = MemorySource (sample_source_token al),
        gr_destination = ExternalGpu \<lparr>gpu_operation = sample_get, gpu_requester = sample_owner, gpu_addr = 64,
          gpu_capacity_bytes = 40960, gpu_registration_id = 3\<rparr>\<rparr>"
  let ?l = "\<lparr>sl_lease_id = sample_lease 2, sl_route_token = sample_source_token al, sl_state = ActiveLease\<rparr>"
  have "sl_state ?l = ActiveLease" "revision_room (seg_allocator s)" "gr_source ?r = MemorySource (sample_source_token al)"
    "get_destination_target (gr_destination ?r) = Some (sample_owner, 64, True)" using reach(2) s(3) by simp_all
  from get_to_target_gives_source_back [OF reach(1) s(1,2) this(1,2,4,3), of True]
  obtain p' outcome where "finish_owner_get_to_target True (sample_leased a al) sample_get ?r
      (src_source (sample_source_token al)) (MemoryHold (sl_lease_id ?l)) = Some (p', outcome, None)" by blast
  then show ?thesis by (intro exI) simp
qed

section \<open>Puts\<close>

definition target_published :: "owner_pool \<Rightarrow> string \<Rightarrow> put_id_for_a_key \<Rightarrow> owner_slot_desc \<Rightarrow> u64 \<Rightarrow> bool" where
  "target_published p key put_id slot route_epoch \<longleftrightarrow>
     (\<exists>s m. segment p = Some s \<and> seg_manifest_entry s key put_id = Some m \<and> me_slot m = slot \<and>
        me_physical_state m = CommittedPhysical \<and> me_route_epoch m = route_epoch \<and>
        map_option os_state (seg_allocation s (slot_allocation_id slot)) = Some (Committed True 0))"

definition target_gone :: "owner_pool \<Rightarrow> string \<Rightarrow> put_id_for_a_key \<Rightarrow> owner_slot_desc \<Rightarrow> bool" where
  "target_gone p key put_id slot \<longleftrightarrow>
     (\<exists>s. segment p = Some s \<and> seg_manifest_entry s key put_id = None \<and>
        seg_allocation s (slot_allocation_id slot) = None)"

lemma prepare_target_initialized:
  assumes "prepare_target p op tgt key pid len disp batch = Some (p', TargetPrepared lid slot v)"
    and "segment p = Some s" "target_leases s op = None"
  shows "owner_transfer_op_id_is_initialized op"
  using assms by (auto simp: prepare_target_def split: if_splits)

lemma begin_put_prepared:
  assumes "begin_owner_put_from_source owner p op request = Some (p1, PutTarget lid slot True)"
  obtains v where "prepare_target p op owner (tgt_key (pr_target_plan request)) (tgt_put_id (pr_target_plan request))
      (slot_len (src_source (rc_route (pr_source request)))) (pr_disposition request)
      (tgt_atomic_batch (pr_target_plan request)) = Some (p1, TargetPrepared lid slot v)"
    "slot_is_valid slot"
proof -
  let ?prep = "prepare_target p op owner (tgt_key (pr_target_plan request)) (tgt_put_id (pr_target_plan request))
      (slot_len (src_source (rc_route (pr_source request)))) (pr_disposition request)
      (tgt_atomic_batch (pr_target_plan request))"
  from assms obtain out where "?prep = Some (p1, out)"
    by (auto simp: begin_owner_put_from_source_def Let_def bind_eq_Some_conv split: option.splits if_splits)
  with assms show ?thesis
    by (cases out) (auto simp: begin_owner_put_from_source_def put_target_step_def Let_def
        intro: that split: option.splits if_splits)
qed

lemma put_receipt_proves:
  assumes "op_sequence op \<noteq> 0"
  shows "receipt_proves (put_receipt op source slot)
    \<lparr>tl_lease_id = lid, tl_key = key, tl_put_id = pid, tl_len = slot_len source, tl_disposition = disp,
     tl_atomic_batch = batch, tl_slot = slot, tl_state = st\<rparr>"
  using assms by (simp add: receipt_proves_def put_receipt_def)

text \<open>C6: A put publishes its target or leaves nothing of it. When a put that is new to a reachable pool
  gets a target, then a failed transfer gives the slot and the manifest entry back; and after a
  successful one the route commit starts, and ends at the master's first definitive answer: the
  target is published at exactly the committed route epoch and the put answers with that epoch, or
  the slot and the manifest entry are gone, unless the process shuts down first. No step panics.
  Between these steps no other operation changes the pool.\<close>

theorem put_publishes_or_leaves_nothing:
  assumes "pool_reach (sv_pool sv)" "segment (sv_pool sv) = Some s" "target_leases s op = None"
    and "put_plan_matches owner op request" "persistent (pr_disposition request)"
    and "begin_owner_put_from_source owner (sv_pool sv) op request = Some (p1, PutTarget lid slot True)"
    and "segment p1 = Some s1" "revision_room (seg_allocator s1)"
    and "target_route_commit_flights sv op = None"
    and "\<forall>i < n. \<not> append_settles call is_running i" "append_settles call is_running n"
  shows "(\<exists>p2. abort_owner_put_from_source p1 op lid reason = Some (p2, TargetAborted, MaterializationFailed) \<and>
      target_gone p2 (tgt_key (pr_target_plan request)) (tgt_put_id (pr_target_plan request)) slot) \<and>
    (\<exists>sv2 p3 terminal. commit_owner_put_from_source (sv\<lparr>sv_pool := p1\<rparr>) op request lid slot =
        Some (sv2, Waiting (CommitFlight op) True) \<and>
      run_owner_target_route_commit call is_running reason (sv_pool sv2) op (put_commit_request op request lid slot) =
        Some (p3, terminal) \<and>
      (case verdict (call n) of
         RouteCommitted route_epoch \<Rightarrow>
           answer_put_sync p3 op request lid slot reason terminal =
             Some (p3, put_from_source_completed (pr_target_attempt request) (pr_source request) slot
               (put_receipt op (src_source (rc_route (pr_source request))) slot) route_epoch, MaterializationCommitted) \<and>
           route_wait_outcome slot terminal = MaterializationCommitted \<and>
           target_published p3 (tgt_key (pr_target_plan request)) (tgt_put_id (pr_target_plan request)) slot route_epoch
       | RouteRejected \<Rightarrow> terminal = TargetAborted \<and>
           target_gone p3 (tgt_key (pr_target_plan request)) (tgt_put_id (pr_target_plan request)) slot
       | RouteShutdown \<Rightarrow> terminal = error_outcome Internal \<and> p3 = sv_pool sv2))"
proof -
  let ?plan = "pr_target_plan request" and ?source = "src_source (rc_route (pr_source request))"
  let ?rc = "put_receipt op ?source slot"
  let ?e = "\<lparr>tl_lease_id = lid, tl_key = tgt_key ?plan, tl_put_id = tgt_put_id ?plan, tl_len = slot_len ?source,
     tl_disposition = pr_disposition request, tl_atomic_batch = tgt_atomic_batch ?plan, tl_slot = slot,
     tl_state = TargetPreparedState\<rparr>"
  let ?e' = "?e\<lparr>tl_state := TargetRoutePendingState ?rc (Some ?plan)\<rparr>"
  obtain v where prep: "prepare_target (sv_pool sv) op owner (tgt_key ?plan) (tgt_put_id ?plan) (slot_len ?source)
      (pr_disposition request) (tgt_atomic_batch ?plan) = Some (p1, TargetPrepared lid slot v)" "slot_is_valid slot"
    by (rule begin_put_prepared [OF assms(6)])
  have seq: "op_sequence op \<noteq> 0"
    using prepare_target_initialized [OF prep(1) assms(2,3)] by (simp add: owner_transfer_op_id_is_initialized_def)
  have reach1: "pool_reach p1"
    by (rule rtranclp.rtrancl_into_rtrancl [OF assms(1)]) (rule pool_step.prepare [OF prep(1)])
  note inv1 = pool_inv_reach [OF reach1]
  obtain m where m: "me_slot m = slot" "slot_owner slot = owner" "target_held s1 op ?e m"
    using prepared_target_held [OF pool_inv_reach [OF assms(1)] assms(2,3) prep(1)] assms(7) by auto
  have aborted: "\<exists>p2. abort_owner_put_from_source p1 op lid reason = Some (p2, TargetAborted, MaterializationFailed) \<and>
      target_gone p2 (tgt_key ?plan) (tgt_put_id ?plan) slot"
    using target_held_aborted [OF inv1 assms(7) m(3) assms(8), of reason] assms(7) m(3)
    by (auto simp: abort_owner_put_from_source_def abort_target_def target_gone_def target_held_def)
  have token: "route_token_error op ?e (Some ?plan) = None"
    using assms(4,5) m(2) seq by (simp add: route_token_error_def put_plan_matches_def Let_def)
  obtain s2 where b: "begin_target_commit p1 op lid ?rc (Some ?plan) =
      Some (p1\<lparr>segment := Some s2\<rparr>, TargetCommitPending lid slot)"
    "target_held s2 op ?e' (m\<lparr>me_physical_state := RoutePendingPhysical\<rparr>)" "seg_allocator s2 = seg_allocator s1"
    by (rule target_held_commit_begins [OF assms(7) m(3) _ _ put_receipt_proves [OF seq] token]) auto
  let ?sv2 = "sv\<lparr>sv_pool := p1\<lparr>segment := Some s2\<rparr>, target_route_commit_flights :=
      (target_route_commit_flights sv)(op \<mapsto> shared_op_new (put_commit_request op request lid slot))\<rparr>"
  have start: "commit_owner_put_from_source (sv\<lparr>sv_pool := p1\<rparr>) op request lid slot =
      Some (?sv2, Waiting (CommitFlight op) True)"
    using b(1) assms(9)
    by (simp add: commit_owner_put_from_source_def start_owner_target_route_commit_def put_commit_request_def join_flight_def)
  have inv2: "pool_inv (p1\<lparr>segment := Some s2\<rparr>)"
    by (rule pool_inv_reach, rule rtranclp.rtrancl_into_rtrancl [OF reach1]) (rule pool_step.begin_commit [OF b(1)])
  have run: "run_owner_target_route_commit call is_running reason (sv_pool ?sv2) op (put_commit_request op request lid slot) =
      conclude_route_commit (p1\<lparr>segment := Some s2\<rparr>) op lid reason (verdict (call n))"
    using run_commit_settled [OF assms(10,11)] assms(4)
    by (simp add: put_commit_request_def put_plan_matches_def Let_def)
  have "\<exists>p3 terminal. conclude_route_commit (p1\<lparr>segment := Some s2\<rparr>) op lid reason (verdict (call n)) = Some (p3, terminal) \<and>
      (case verdict (call n) of
         RouteCommitted route_epoch \<Rightarrow>
           answer_put_sync p3 op request lid slot reason terminal =
             Some (p3, put_from_source_completed (pr_target_attempt request) (pr_source request) slot ?rc route_epoch,
               MaterializationCommitted) \<and>
           route_wait_outcome slot terminal = MaterializationCommitted \<and>
           target_published p3 (tgt_key ?plan) (tgt_put_id ?plan) slot route_epoch
       | RouteRejected \<Rightarrow> terminal = TargetAborted \<and> target_gone p3 (tgt_key ?plan) (tgt_put_id ?plan) slot
       | RouteShutdown \<Rightarrow> terminal = error_outcome Internal \<and> p3 = p1\<lparr>segment := Some s2\<rparr>)"
  proof (cases "verdict (call n)")
    case (RouteCommitted epoch)
    have "geometry_matches slot slot" by (simp add: geometry_matches_def)
    then show ?thesis
      using target_held_committed [OF inv2 _ b(2), where lid = lid and epoch = epoch] committed_epoch [OF RouteCommitted]
        assms(5) m(1) RouteCommitted
      by (auto simp: conclude_route_commit_def answer_put_sync_def route_wait_outcome_def target_published_def)
  next
    case RouteRejected
    have "\<exists>p' s'. abort_prepared (p1\<lparr>segment := Some s2\<rparr>) s2 op (slot_allocation_id slot) reason = Some (p', TargetAborted) \<and>
        segment p' = Some s' \<and> seg_manifest_entry s' (tgt_key ?plan) (tgt_put_id ?plan) = None \<and>
        seg_allocation s' (slot_allocation_id slot) = None"
      using target_held_aborted [OF inv2 _ b(2), where reason = reason] assms(8) b(3) by simp
    then show ?thesis using RouteRejected b(2)
      by (auto simp: conclude_route_commit_def abort_route_rejected_target_def target_gone_def target_held_def)
  qed (simp add: conclude_route_commit_def)
  then obtain p3 terminal where c: "conclude_route_commit (p1\<lparr>segment := Some s2\<rparr>) op lid reason (verdict (call n)) =
      Some (p3, terminal)" and res: "case verdict (call n) of
         RouteCommitted route_epoch \<Rightarrow>
           answer_put_sync p3 op request lid slot reason terminal =
             Some (p3, put_from_source_completed (pr_target_attempt request) (pr_source request) slot ?rc route_epoch,
               MaterializationCommitted) \<and>
           route_wait_outcome slot terminal = MaterializationCommitted \<and>
           target_published p3 (tgt_key ?plan) (tgt_put_id ?plan) slot route_epoch
       | RouteRejected \<Rightarrow> terminal = TargetAborted \<and> target_gone p3 (tgt_key ?plan) (tgt_put_id ?plan) slot
       | RouteShutdown \<Rightarrow> terminal = error_outcome Internal \<and> p3 = p1\<lparr>segment := Some s2\<rparr>" by blast
  have sp: "sv_pool ?sv2 = p1\<lparr>segment := Some s2\<rparr>" by simp
  show ?thesis
    by (rule conjI [OF aborted], rule exI [of _ ?sv2], rule exI [of _ p3], rule exI [of _ terminal],
        rule conjI [OF start], rule conjI [OF trans [OF run c]], unfold sp, rule res)
qed

definition sample_put_request :: owner_put_from_source_request where
  "sample_put_request =
     \<lparr>pr_ack_stream_id = 9, pr_terminal_sequence = 1, pr_target_attempt = 1, pr_target_plan = sample_target_token,
      pr_source = \<lparr>rc_operation = sample_put, rc_target_owner = sample_owner, rc_target_attempt = 1,
        rc_route = \<lparr>src_key = ''k'', src_put_id = (1, 0), src_route_epoch = 3,
          src_source = \<lparr>slot_owner = op_coordinator sample_put, slot_allocation_id = 5, slot_segment_offset = 8192,
            slot_capacity_bytes = 40960, slot_addr = 8192, slot_base_addr = 0, slot_len = 40000,
            slot_registration_epoch = 4\<rparr>,
          src_atomic_batch = None, src_plan_nonce = 1\<rparr>\<rparr>,
      pr_disposition = GlobalShared, pr_route_commit_mode = SyncCommit\<rparr>"

lemma sample_put_begin:
  assumes "allocate a 10 = Some (a', Some al)" "offset al \<le> 90"
  shows "put_plan_matches sample_owner sample_put sample_put_request"
    and "begin_owner_put_from_source sample_owner (sample_installed a) sample_put sample_put_request =
      Some (sample_prepared a' al, PutTarget (sample_lease 1) (sample_slot al) True)"
proof -
  show "put_plan_matches sample_owner sample_put sample_put_request"
    by (simp add: put_plan_matches_def sample_put_request_def sample_target_token_def source_read_is_valid_for_def
        slot_is_valid_def sample_put_def sample_owner_def owner_generation_is_initialized_def checked_add_def)
  have "pool_manifest_entry (sample_installed a) ''k'' (1, 0) = None"
    by (simp add: pool_manifest_entry_def seg_manifest_entry_def sample_installed_def sample_segment_def)
  then show "begin_owner_put_from_source sample_owner (sample_installed a) sample_put sample_put_request =
      Some (sample_prepared a' al, PutTarget (sample_lease 1) (sample_slot al) True)"
    using sample_prepare_at [OF assms] assms(2)
    by (simp add: begin_owner_put_from_source_def sample_put_request_def sample_target_token_def put_target_step_def
        slot_is_valid_def sample_slot_def sample_owner_def owner_generation_is_initialized_def checked_add_def)
qed

theorem put_publishes_or_leaves_nothing_witness:
  "\<exists>(p :: owner_pool) slot. target_published p ''k'' (1, 0) slot 7"
proof -
  obtain a a' al where a: "with_max_allocs 100 102 = Some a" "allocate a 10 = Some (a', Some al)" "revision_room a'"
    and off: "offset al \<le> 90" by (rule sample_allocator)
  have reach: "pool_reach (sample_installed a)"
    by (rule r_into_rtranclp, rule pool_step.install [OF sample_install [OF a(1)]]) simp
  let ?sv = "service_new (sample_installed a)"
  let ?call = "\<lambda>i :: nat. if i = 0 then Inl OtherAppendError else Inr \<lparr>pad_appended = True, pad_route_epoch = 7\<rparr>"
  have settles: "\<forall>i < 1. \<not> append_settles ?call (\<lambda>_. True) i" "append_settles ?call (\<lambda>_. True) 1"
    by (simp_all add: append_settles_def owner_put_append_done_is_definitively_rejected_def)
  have v: "verdict (?call 1) = RouteCommitted 7" by (simp add: classify_owner_put_append_done_def)
  have sv: "sv_pool ?sv = sample_installed a" "target_route_commit_flights ?sv sample_put = None"
    by (simp_all add: service_new_def)
  have s: "segment (sample_installed a) = Some (sample_segment a)" "target_leases (sample_segment a) sample_put = None"
    by (simp_all add: sample_installed_def sample_segment_def)
  have s1: "segment (sample_prepared a' al) = Some (sample_at a' al TargetPreparedState ReservedPhysical 0 Prepared 0 [])"
    "revision_room (seg_allocator (sample_at a' al TargetPreparedState ReservedPhysical 0 Prepared 0 []))"
    using a(3) by (simp_all add: sample_pool_def sample_at_def sample_segment_def)
  have r: "persistent (pr_disposition sample_put_request)" "tgt_key (pr_target_plan sample_put_request) = ''k''"
    "tgt_put_id (pr_target_plan sample_put_request) = (1, 0)"
    by (simp_all add: sample_put_request_def persistent_def sample_target_token_def)
  from put_publishes_or_leaves_nothing [of ?sv "sample_segment a" sample_put sample_owner sample_put_request
      "sample_prepared a' al" "sample_lease 1" "sample_slot al" _ _ _ _ "[]", unfolded sv(1), OF reach s
      sample_put_begin(1) [OF a(2) off] r(1) sample_put_begin(2) [OF a(2) off] s1 sv(2) settles]
  show ?thesis unfolding v r route_verdict.case by blast
qed

end
