(* ===== verification/Byte_Codec.thy ===== *)
theory Byte_Codec
  imports Fluxon_Prelude "HOL-Library.Word" "HOL-Library.List_Lexorder"
begin

text \<open>
  What the wire formats share: bytes as 8-bit words, the little-endian encodings of Rust's
  \<open>to_le_bytes\<close> and \<open>from_le_bytes\<close>, UTF-8 validity as \<open>std::str::from_utf8\<close> decides it, a
  decoding cursor, the ordered map \<open>BTreeMap\<close>, and the contract of a pair of an encoder and a
  cursor-based decoder, with the lemma that a counted sequence of such items can be read back.
\<close>

section \<open>Bytes\<close>

type_synonym u8 = "8 word"

text \<open>\<open>to_le_bytes\<close> at a width of \<open>n\<close> bytes; higher bits are cut off, as \<open>as u32\<close> does.\<close>

primrec le_bytes :: "nat \<Rightarrow> nat \<Rightarrow> u8 list" where
  "le_bytes 0 x = []"
| "le_bytes (Suc n) x = of_nat x # le_bytes n (x div 256)"

primrec le_nat :: "u8 list \<Rightarrow> nat" where
  "le_nat [] = 0"
| "le_nat (b # bs) = unat b + 256 * le_nat bs"

lemma length_le_bytes [simp]: "length (le_bytes n x) = n"
  by (induction n arbitrary: x) auto

lemma unat_of_nat_byte [simp]: "unat (of_nat x :: u8) = x mod 256"
  by (simp add: unat_of_nat)

lemma le_nat_le_bytes: "le_nat (le_bytes n x) = x mod 256 ^ n"
proof (induction n arbitrary: x)
  case (Suc n)
  then show ?case by (simp add: mod_mult2_eq)
qed simp

lemma unat_byte_bound: "unat (b :: u8) < 256"
  using unsigned_less [of b] by simp

lemma le_nat_bound: "le_nat bs < 256 ^ length bs"
proof (induction bs)
  case (Cons b bs)
  then have "le_nat bs + 1 \<le> 256 ^ length bs" by simp
  then have "256 * (le_nat bs + 1) \<le> 256 * 256 ^ length bs" by (rule mult_le_mono2)
  then show ?case using unat_byte_bound [of b] by simp
qed simp

text \<open>\<open>i64::to_le_bytes\<close> and \<open>i64::from_le_bytes\<close>, through two's complement.\<close>

definition i64_ok :: "i64 \<Rightarrow> bool" where
  "i64_ok i \<longleftrightarrow> - 9223372036854775808 \<le> i \<and> i < 9223372036854775808"

definition i64_bits :: "i64 \<Rightarrow> nat" where
  "i64_bits i = nat (i mod 18446744073709551616)"

definition i64_of_bits :: "nat \<Rightarrow> i64" where
  "i64_of_bits n = (if n < 9223372036854775808 then int n else int n - 18446744073709551616)"

lemma i64_bits_bound: "i64_bits i < u64_bound"
  by (simp add: i64_bits_def nat_less_iff)

lemma i64_of_bits_bits: "i64_ok i \<Longrightarrow> i64_of_bits (i64_bits i) = i"
proof -
  assume a: "i64_ok i"
  show ?thesis
  proof (cases "0 \<le> i")
    case True
    then have "i mod 18446744073709551616 = i" using a by (simp add: i64_ok_def)
    then show ?thesis using True a by (simp add: i64_bits_def i64_of_bits_def i64_ok_def nat_less_iff)
  next
    case False
    have "(i + 18446744073709551616) mod 18446744073709551616 = i + 18446744073709551616"
      by (rule mod_pos_pos_trivial) (use False a in \<open>simp_all add: i64_ok_def\<close>)
    then have "i mod 18446744073709551616 = i + 18446744073709551616" by simp
    then show ?thesis using False a
      by (simp add: i64_bits_def i64_of_bits_def i64_ok_def nat_less_iff)
  qed
qed

lemma i64_of_bits_ok: "n < u64_bound \<Longrightarrow> i64_ok (i64_of_bits n)"
  by (simp add: i64_of_bits_def i64_ok_def)

lemma le_nat_4 [simp]: "n < u32_bound \<Longrightarrow> le_nat (le_bytes 4 n) = n"
  by (simp add: le_nat_le_bytes)

lemma le_nat_8 [simp]: "n < u64_bound \<Longrightarrow> le_nat (le_bytes 8 n) = n"
  by (simp add: le_nat_le_bytes)

lemma le_nat_2 [simp]: "n < 65536 \<Longrightarrow> le_nat (le_bytes 2 n) = n"
  by (simp add: le_nat_le_bytes)

section \<open>UTF-8\<close>

text \<open>The well-formed byte sequences of the Unicode standard: no overlong forms, no surrogates,
  nothing above U+10FFFF.\<close>

definition utf8_cont :: "u8 \<Rightarrow> bool" where
  "utf8_cont b \<longleftrightarrow> 128 \<le> unat b \<and> unat b \<le> 191"

definition utf8_second3 :: "u8 \<Rightarrow> u8 \<Rightarrow> bool" where
  "utf8_second3 b c \<longleftrightarrow> utf8_cont c \<and> (unat b = 224 \<longrightarrow> 160 \<le> unat c) \<and> (unat b = 237 \<longrightarrow> unat c \<le> 159)"

definition utf8_second4 :: "u8 \<Rightarrow> u8 \<Rightarrow> bool" where
  "utf8_second4 b c \<longleftrightarrow> utf8_cont c \<and> (unat b = 240 \<longrightarrow> 144 \<le> unat c) \<and> (unat b = 244 \<longrightarrow> unat c \<le> 143)"

fun valid_utf8 :: "u8 list \<Rightarrow> bool" where
  "valid_utf8 [] = True"
| "valid_utf8 (b # bs) =
     (if unat b < 128 then valid_utf8 bs
      else if 194 \<le> unat b \<and> unat b \<le> 223 then
        (case bs of c # r \<Rightarrow> utf8_cont c \<and> valid_utf8 r | _ \<Rightarrow> False)
      else if 224 \<le> unat b \<and> unat b \<le> 239 then
        (case bs of c # d # r \<Rightarrow> utf8_second3 b c \<and> utf8_cont d \<and> valid_utf8 r | _ \<Rightarrow> False)
      else if 240 \<le> unat b \<and> unat b \<le> 244 then
        (case bs of c # d # e # r \<Rightarrow> utf8_second4 b c \<and> utf8_cont d \<and> utf8_cont e \<and> valid_utf8 r
         | _ \<Rightarrow> False)
      else False)"

section \<open>Results\<close>

text \<open>The \<open>?\<close> operator: go on with the value, or return the error.\<close>

definition and_then :: "'e + 'a \<Rightarrow> ('a \<Rightarrow> 'e + 'b) \<Rightarrow> 'e + 'b" where
  "and_then m f = (case m of Inl e \<Rightarrow> Inl e | Inr x \<Rightarrow> f x)"

lemma and_then_simps [simp]:
  "and_then (Inl e) f = Inl e" "and_then (Inr x) f = f x"
  by (simp_all add: and_then_def)

named_theorems result_iff

lemma and_then_Inr [result_iff]: "and_then m f = Inr y \<longleftrightarrow> (\<exists>x. m = Inr x \<and> f x = Inr y)"
  by (cases m) auto

section \<open>Slices and the cursor\<close>

text \<open>\<open>data[start..start + len]\<close>; the code takes slices only after a bounds check.\<close>

definition data_slice :: "u8 list \<Rightarrow> usize \<Rightarrow> usize \<Rightarrow> u8 list" where
  "data_slice data start len = take len (drop start data)"

lemma length_data_slice [simp]: "start + len \<le> length data \<Longrightarrow> length (data_slice data start len) = len"
  by (simp add: data_slice_def)

lemma data_slice_append [simp]: "data_slice (xs @ ys @ zs) (length xs) (length ys) = ys"
  by (simp add: data_slice_def)

lemma data_slice_mid: "n = length xs \<Longrightarrow> m = length ys \<Longrightarrow> data_slice (xs @ ys @ zs) n m = ys"
  by simp

text \<open>\<open>for _ in 0..n\<close> around a body that reads one item and advances the cursor.\<close>

primrec read_n :: "(usize \<Rightarrow> 'e + 'a \<times> usize) \<Rightarrow> nat \<Rightarrow> usize \<Rightarrow> 'e + 'a list \<times> usize" where
  "read_n body 0 pos = Inr ([], pos)"
| "read_n body (Suc n) pos =
     and_then (body pos) (\<lambda>(x, pos).
     and_then (read_n body n pos) (\<lambda>(xs, pos). Inr (x # xs, pos)))"

lemma read_n_all:
  assumes "\<And>pos x pos'. I pos \<Longrightarrow> body pos = Inr (x, pos') \<Longrightarrow> P x \<and> I pos'"
    and "read_n body n pos = Inr (xs, pos')" and "I pos"
  shows "(\<forall>x \<in> set xs. P x) \<and> I pos' \<and> length xs = n"
  using assms(2,3)
proof (induction n arbitrary: pos xs)
  case (Suc n)
  then obtain x q ys where "body pos = Inr (x, q)" "read_n body n q = Inr (ys, pos')" "xs = x # ys"
    by (auto simp: and_then_Inr)
  with Suc assms(1) [of pos x q] show ?case by auto
qed auto

text \<open>
  An item format: an encoder, a decoder that reads one item at a cursor, the items that can be
  encoded, and what decoding an item at a position yields (ranges depend on the position).
\<close>

locale item_format =
  fixes enc :: "'a \<Rightarrow> u8 list"
    and dec :: "u8 list \<Rightarrow> usize \<Rightarrow> 'e + 'b \<times> usize"
    and ok :: "'a \<Rightarrow> bool"
    and view :: "usize \<Rightarrow> 'a \<Rightarrow> 'b"
  assumes dec_enc: "ok x \<Longrightarrow> dec (pre @ enc x @ suf) (length pre) = Inr (view (length pre) x, length pre + length (enc x))"
begin

primrec views :: "usize \<Rightarrow> 'a list \<Rightarrow> 'b list" where
  "views pos [] = []"
| "views pos (x # xs) = view pos x # views (pos + length (enc x)) xs"

lemma read_n_enc:
  "(\<forall>x \<in> set xs. ok x) \<Longrightarrow>
   read_n (dec (pre @ concat (map enc xs) @ suf)) (length xs) (length pre) =
     Inr (views (length pre) xs, length pre + length (concat (map enc xs)))"
proof (induction xs arbitrary: pre)
  case (Cons x xs)
  have "dec (pre @ enc x @ concat (map enc xs) @ suf) (length pre) =
      Inr (view (length pre) x, length pre + length (enc x))"
    using dec_enc [of x pre "concat (map enc xs) @ suf"] Cons.prems by simp
  moreover have "read_n (dec ((pre @ enc x) @ concat (map enc xs) @ suf)) (length xs) (length (pre @ enc x)) =
      Inr (views (length (pre @ enc x)) xs, length (pre @ enc x) + length (concat (map enc xs)))"
    using Cons.prems by (intro Cons.IH) simp
  ultimately show ?case by (simp add: add.assoc)
qed simp

end

section \<open>The ordered map\<close>

text \<open>A \<open>BTreeMap\<close> is the list of its entries in ascending key order, which is the order in
  which it is iterated. Strings are ordered by their bytes.\<close>

primrec btree_insert :: "'k :: linorder \<Rightarrow> 'v \<Rightarrow> ('k \<times> 'v) list \<Rightarrow> ('k \<times> 'v) list" where
  "btree_insert k v [] = [(k, v)]"
| "btree_insert k v (e # es) =
     (if k < fst e then (k, v) # e # es else if k = fst e then (k, v) # es else e # btree_insert k v es)"

definition btree_ok :: "('k :: linorder \<times> 'v) list \<Rightarrow> bool" where
  "btree_ok m = sorted_wrt (<) (map fst m)"

lemma btree_ok_Nil [simp]: "btree_ok []"
  by (simp add: btree_ok_def)

lemma btree_insert_fst: "set (map fst (btree_insert k v m)) = insert k (set (map fst m))"
  by (induction m) auto

lemma btree_insert_ok: "btree_ok m \<Longrightarrow> btree_ok (btree_insert k v m)"
proof (induction m)
  case (Cons e m)
  have "set (map fst (btree_insert k v m)) = insert k (set (map fst m))" by (rule btree_insert_fst)
  then have "\<forall>x \<in> set (btree_insert k v m). fst x = k \<or> fst x \<in> fst ` set m" by auto
  with Cons show ?case by (fastforce simp: btree_ok_def)
qed (simp add: btree_ok_def)

lemma btree_lookup_insert: "btree_ok m \<Longrightarrow> map_of (btree_insert k v m) = (map_of m)(k \<mapsto> v)"
proof (induction m)
  case (Cons e m)
  have *: "fst e < k \<or> k < fst e \<or> k = fst e" by auto
  have "k < fst e \<Longrightarrow> k \<notin> fst ` set m" using Cons.prems by (fastforce simp: btree_ok_def)
  with Cons show ?case using * by (cases e) (auto simp: btree_ok_def fun_eq_iff)
qed simp

lemma btree_insert_last: "(\<forall>e \<in> set m. fst e < k) \<Longrightarrow> btree_insert k v m = m @ [(k, v)]"
  by (induction m) auto

text \<open>Collecting entries in ascending order rebuilds the map.\<close>

lemma btree_collect:
  "btree_ok (m @ es) \<Longrightarrow> fold (\<lambda>(k, v). btree_insert k v) es m = m @ es"
proof (induction es arbitrary: m)
  case (Cons e es)
  have "\<forall>x \<in> set m. fst x < fst e" using Cons.prems by (auto simp: btree_ok_def sorted_wrt_append)
  then have "btree_insert (fst e) (snd e) m = m @ [e]" by (simp add: btree_insert_last)
  with Cons.IH [of "m @ [e]"] Cons.prems show ?case by (cases e) simp
qed simp

end
