(* ===== verification/Flat_Dict.thy ===== *)
theory Flat_Dict
  imports Byte_Codec
begin

text \<open>
  The flat-dictionary value format: the decoders and encoders of
  \<open>fluxon_kv/src/user_api/codec_flat_dict.rs\<close> and \<open>fluxon_kv/src/memholder/kvclient_encode.rs\<close>.
  A value is a count followed by its entries; an entry is a length-prefixed UTF-8 key, a type id
  and a length-prefixed payload. A string is its UTF-8 bytes, a float its 64 bits. Cursor sums are
  unbounded where the source adds without a check: a slice is shorter than \<open>2 ^ 63\<close> bytes and a
  length field below \<open>2 ^ 32\<close>, so they cannot overflow.
\<close>

section \<open>Data\<close>

abbreviation FLAT_KV_TYPE_INT64 :: u8 where "FLAT_KV_TYPE_INT64 \<equiv> 1"
abbreviation FLAT_KV_TYPE_FLOAT64 :: u8 where "FLAT_KV_TYPE_FLOAT64 \<equiv> 3"
abbreviation FLAT_KV_TYPE_STRING :: u8 where "FLAT_KV_TYPE_STRING \<equiv> 4"
abbreviation FLAT_KV_TYPE_BYTES :: u8 where "FLAT_KV_TYPE_BYTES \<equiv> 5"
abbreviation FLAT_KV_TYPE_BOOL :: u8 where "FLAT_KV_TYPE_BOOL \<equiv> 7"

type_synonym f64 = "64 word"

datatype flat_value =
    FvInt64 i64
  | FvFloat64 f64
  | FvBool bool
  | FvString "u8 list"
  | FvBytes "u8 list"

type_synonym flat_dict = "(u8 list \<times> flat_value) list"

datatype borrowed_flat_kv_value_range =
    BvBool bool
  | BvInt64 i64
  | BvFloat64 f64
  | BvString "u8 list"
  | BvBytesRange usize usize

record borrowed_flat_kv_entry =
  be_key :: "u8 list"
  be_value :: borrowed_flat_kv_value_range

datatype flat_kv_value_range =
    RvBool bool
  | RvInt64 i64
  | RvFloat64 f64
  | RvString "u8 list"
  | RvBytesRange usize usize

text \<open>What a decoder was reading when the data ended, and the reasons for refusing a value.\<close>

datatype field_kind = EntryCountHeader | KeyLength | KeyBytes | ValueTypeId | ValueLength | ValueBytes

datatype flat_kv_error =
    Truncated field_kind
  | InvalidUtf8Key
  | BoolLength
  | Int64Length
  | Float64Length
  | InvalidUtf8Value
  | UnknownTypeId u8
  | TrailingBytes

datatype kv_error = InvalidArgument | ApiUnknown

section \<open>Decoding\<close>

definition need :: "u8 list \<Rightarrow> usize \<Rightarrow> usize \<Rightarrow> field_kind \<Rightarrow> flat_kv_error + unit" where
  "need data pos n what = (if length data < pos + n then Inl (Truncated what) else Inr ())"

definition read_u32 :: "u8 list \<Rightarrow> usize \<Rightarrow> field_kind \<Rightarrow> flat_kv_error + u32 \<times> usize" where
  "read_u32 data pos what =
     and_then (need data pos 4 what) (\<lambda>_. Inr (le_nat (data_slice data pos 4), pos + 4))"

definition read_u8 :: "u8 list \<Rightarrow> usize \<Rightarrow> field_kind \<Rightarrow> flat_kv_error + u8 \<times> usize" where
  "read_u8 data pos what = and_then (need data pos 1 what) (\<lambda>_. Inr (data ! pos, pos + 1))"

definition read_bytes :: "u8 list \<Rightarrow> usize \<Rightarrow> usize \<Rightarrow> field_kind \<Rightarrow> flat_kv_error + u8 list \<times> usize" where
  "read_bytes data pos n what =
     and_then (need data pos n what) (\<lambda>_. Inr (data_slice data pos n, pos + n))"

text \<open>The \<open>match type_id\<close> of the decoding loop.\<close>

definition decode_value ::
  "u8 \<Rightarrow> usize \<Rightarrow> usize \<Rightarrow> u8 list \<Rightarrow> flat_kv_error + borrowed_flat_kv_value_range" where
  "decode_value type_id val_start val_len val_bytes =
     (if type_id = FLAT_KV_TYPE_BOOL then
        if val_len \<noteq> 1 then Inl BoolLength else Inr (BvBool (val_bytes ! 0 \<noteq> 0))
      else if type_id = FLAT_KV_TYPE_INT64 then
        if val_len \<noteq> 8 then Inl Int64Length else Inr (BvInt64 (i64_of_bits (le_nat val_bytes)))
      else if type_id = FLAT_KV_TYPE_FLOAT64 then
        if val_len \<noteq> 8 then Inl Float64Length else Inr (BvFloat64 (of_nat (le_nat val_bytes)))
      else if type_id = FLAT_KV_TYPE_STRING then
        if \<not> valid_utf8 val_bytes then Inl InvalidUtf8Value else Inr (BvString val_bytes)
      else if type_id = FLAT_KV_TYPE_BYTES then Inr (BvBytesRange val_start val_len)
      else Inl (UnknownTypeId type_id))"

text \<open>The body of the loop: one entry.\<close>

definition read_entry :: "u8 list \<Rightarrow> usize \<Rightarrow> flat_kv_error + borrowed_flat_kv_entry \<times> usize" where
  "read_entry data pos =
     and_then (read_u32 data pos KeyLength) (\<lambda>(key_len, pos).
     and_then (read_bytes data pos key_len KeyBytes) (\<lambda>(key, pos).
     if \<not> valid_utf8 key then Inl InvalidUtf8Key else
     and_then (read_u8 data pos ValueTypeId) (\<lambda>(type_id, pos).
     and_then (read_u32 data pos ValueLength) (\<lambda>(val_len, val_start).
     and_then (read_bytes data val_start val_len ValueBytes) (\<lambda>(val_bytes, pos).
     and_then (decode_value type_id val_start val_len val_bytes) (\<lambda>value.
     Inr (\<lparr>be_key = key, be_value = value\<rparr>, pos)))))))"

text \<open>The vector of entries is reserved for the number the header claims, which has 32 bits: its capacity
  cannot overflow, but memory may not suffice.\<close>

definition flat_kv_decode_borrowed :: "u8 list \<Rightarrow> flat_kv_error + borrowed_flat_kv_entry list" where
  "flat_kv_decode_borrowed data =
     and_then (read_u32 data 0 EntryCountHeader) (\<lambda>(count, pos).
     and_then (read_n (read_entry data) count pos) (\<lambda>(out, pos).
     if pos \<noteq> length data then Inl TrailingBytes else Inr out))"

fun to_value_range :: "borrowed_flat_kv_value_range \<Rightarrow> flat_kv_value_range" where
  "to_value_range (BvBool b) = RvBool b"
| "to_value_range (BvInt64 i) = RvInt64 i"
| "to_value_range (BvFloat64 f) = RvFloat64 f"
| "to_value_range (BvString s) = RvString s"
| "to_value_range (BvBytesRange start len) = RvBytesRange start len"

definition flat_kv_decode_ranges :: "u8 list \<Rightarrow> flat_kv_error + (u8 list \<times> flat_kv_value_range) list" where
  "flat_kv_decode_ranges data =
     and_then (flat_kv_decode_borrowed data) (\<lambda>items.
     Inr (map (\<lambda>item. (be_key item, to_value_range (be_value item))) items))"

text \<open>\<open>map_err(invalid_arg)\<close>.\<close>

definition invalid_arg :: "flat_kv_error + 'a \<Rightarrow> kv_error + 'a" where
  "invalid_arg r = (case r of Inl e \<Rightarrow> Inl InvalidArgument | Inr x \<Rightarrow> Inr x)"

fun materialize :: "u8 list \<Rightarrow> flat_kv_value_range \<Rightarrow> kv_error + flat_value" where
  "materialize data (RvBool b) = Inr (FvBool b)"
| "materialize data (RvInt64 i) = Inr (FvInt64 i)"
| "materialize data (RvFloat64 f) = Inr (FvFloat64 f)"
| "materialize data (RvString s) = Inr (FvString s)"
| "materialize data (RvBytesRange start len) =
     (if length data < start + len then Inl InvalidArgument else Inr (FvBytes (data_slice data start len)))"

fun collect_flat_dict ::
  "u8 list \<Rightarrow> (u8 list \<times> flat_kv_value_range) list \<Rightarrow> flat_dict \<Rightarrow> kv_error + flat_dict" where
  "collect_flat_dict data [] out = Inr out"
| "collect_flat_dict data ((k, v) # items) out =
     and_then (materialize data v) (\<lambda>vv. collect_flat_dict data items (btree_insert k vv out))"

definition decode_flat_dict_bytes :: "u8 list \<Rightarrow> kv_error + flat_dict" where
  "decode_flat_dict_bytes data =
     and_then (invalid_arg (flat_kv_decode_ranges data)) (\<lambda>items. collect_flat_dict data items [])"

section \<open>Finding one field without decoding\<close>

definition find_need :: "u8 list \<Rightarrow> usize \<Rightarrow> usize \<Rightarrow> kv_error + usize" where
  "find_need data pos len =
     (case checked_add u64_bound pos len of
        None \<Rightarrow> Inl InvalidArgument
      | Some e \<Rightarrow> if length data < e then Inl InvalidArgument else Inr e)"

definition find_read_u32 :: "u8 list \<Rightarrow> usize \<Rightarrow> kv_error + u32 \<times> usize" where
  "find_read_u32 data pos =
     and_then (find_need data pos 4) (\<lambda>e. Inr (le_nat (data_slice data pos (e - pos)), e))"

text \<open>The validating \<open>match type_id\<close>: the guarded arms come first.\<close>

definition find_check_value :: "u8 \<Rightarrow> usize \<Rightarrow> u8 list \<Rightarrow> kv_error + unit" where
  "find_check_value type_id value_len value_bytes =
     (if type_id = FLAT_KV_TYPE_BOOL \<and> value_len \<noteq> 1 then Inl InvalidArgument
      else if (type_id = FLAT_KV_TYPE_INT64 \<or> type_id = FLAT_KV_TYPE_FLOAT64) \<and> value_len \<noteq> 8
      then Inl InvalidArgument
      else if type_id = FLAT_KV_TYPE_STRING
      then (if valid_utf8 value_bytes then Inr () else Inl InvalidArgument)
      else if type_id = FLAT_KV_TYPE_BOOL \<or> type_id = FLAT_KV_TYPE_INT64 \<or>
        type_id = FLAT_KV_TYPE_FLOAT64 \<or> type_id = FLAT_KV_TYPE_BYTES
      then Inr ()
      else Inl InvalidArgument)"

definition find_entry ::
  "u8 list \<Rightarrow> u8 list \<Rightarrow> usize \<Rightarrow> (usize \<times> usize) option \<Rightarrow> kv_error + (usize \<times> usize) option \<times> usize" where
  "find_entry data field_key pos found =
     and_then (find_read_u32 data pos) (\<lambda>(key_len, pos).
     and_then (find_need data pos key_len) (\<lambda>key_end.
     let key = data_slice data pos (key_end - pos) in
     if \<not> valid_utf8 key then Inl InvalidArgument else
     and_then (find_need data key_end 1) (\<lambda>type_end.
     let type_id = data ! key_end in
     and_then (find_read_u32 data type_end) (\<lambda>(value_len, value_start).
     and_then (find_need data value_start value_len) (\<lambda>value_end.
     let value_bytes = data_slice data value_start (value_end - value_start) in
     and_then (find_check_value type_id value_len value_bytes) (\<lambda>_.
     Inr (if key = field_key
          then (if type_id = FLAT_KV_TYPE_BYTES then Some (value_start, value_len) else None)
          else found, value_end)))))))"

primrec find_loop ::
  "u8 list \<Rightarrow> u8 list \<Rightarrow> nat \<Rightarrow> usize \<Rightarrow> (usize \<times> usize) option \<Rightarrow> kv_error + (usize \<times> usize) option \<times> usize" where
  "find_loop data field_key 0 pos found = Inr (found, pos)"
| "find_loop data field_key (Suc n) pos found =
     and_then (find_entry data field_key pos found) (\<lambda>(found, pos). find_loop data field_key n pos found)"

definition find_flat_dict_bytes_field_range ::
  "u8 list \<Rightarrow> u8 list \<Rightarrow> kv_error + (usize \<times> usize) option" where
  "find_flat_dict_bytes_field_range data field_key =
     and_then (find_read_u32 data 0) (\<lambda>(count, pos).
     and_then (find_loop data field_key count pos None) (\<lambda>(found, pos).
     if pos \<noteq> length data then Inl InvalidArgument else Inr found))"

section \<open>Encoding a dictionary\<close>

definition encode_value :: "flat_value \<Rightarrow> kv_error + u8 list" where
  "encode_value v =
     (case v of
        FvBool b \<Rightarrow> Inr ([FLAT_KV_TYPE_BOOL] @ le_bytes 4 1 @ [if b then 1 else 0])
      | FvInt64 i \<Rightarrow> Inr ([FLAT_KV_TYPE_INT64] @ le_bytes 4 8 @ le_bytes 8 (i64_bits i))
      | FvFloat64 f \<Rightarrow> Inr ([FLAT_KV_TYPE_FLOAT64] @ le_bytes 4 8 @ le_bytes 8 (unat f))
      | FvString s \<Rightarrow> if u32_bound - 1 < length s then Inl InvalidArgument
          else Inr ([FLAT_KV_TYPE_STRING] @ le_bytes 4 (length s) @ s)
      | FvBytes b \<Rightarrow> if u32_bound - 1 < length b then Inl InvalidArgument
          else Inr ([FLAT_KV_TYPE_BYTES] @ le_bytes 4 (length b) @ b))"

fun encode_entries :: "flat_dict \<Rightarrow> u8 list \<Rightarrow> kv_error + u8 list" where
  "encode_entries [] out = Inr out"
| "encode_entries ((k, v) # es) out =
     (if u32_bound - 1 < length k then Inl InvalidArgument
      else and_then (encode_value v) (\<lambda>bs.
        encode_entries es (out @ le_bytes 4 (length k) @ k @ bs)))"

definition encode_flat_dict_bytes :: "flat_dict \<Rightarrow> kv_error + u8 list" where
  "encode_flat_dict_bytes value =
     (if u32_bound - 1 < length value then Inl InvalidArgument
      else encode_entries value (le_bytes 4 (length value)))"

section \<open>The format\<close>

text \<open>The bytes of an entry, for any of the encoders, and what the decoder sees of them.\<close>

fun value_type :: "flat_value \<Rightarrow> u8" where
  "value_type (FvBool b) = FLAT_KV_TYPE_BOOL"
| "value_type (FvInt64 i) = FLAT_KV_TYPE_INT64"
| "value_type (FvFloat64 f) = FLAT_KV_TYPE_FLOAT64"
| "value_type (FvString s) = FLAT_KV_TYPE_STRING"
| "value_type (FvBytes b) = FLAT_KV_TYPE_BYTES"

fun value_payload :: "flat_value \<Rightarrow> u8 list" where
  "value_payload (FvBool b) = [if b then 1 else 0]"
| "value_payload (FvInt64 i) = le_bytes 8 (i64_bits i)"
| "value_payload (FvFloat64 f) = le_bytes 8 (unat f)"
| "value_payload (FvString s) = s"
| "value_payload (FvBytes b) = b"

definition entry_bytes :: "u8 list \<times> flat_value \<Rightarrow> u8 list" where
  "entry_bytes e = le_bytes 4 (length (fst e)) @ fst e @ [value_type (snd e)] @
     le_bytes 4 (length (value_payload (snd e))) @ value_payload (snd e)"

definition flat_bytes :: "(u8 list \<times> flat_value) list \<Rightarrow> u8 list" where
  "flat_bytes es = le_bytes 4 (length es) @ concat (map entry_bytes es)"

fun value_ok :: "flat_value \<Rightarrow> bool" where
  "value_ok (FvInt64 i) = i64_ok i"
| "value_ok (FvString s) = valid_utf8 s"
| "value_ok v = True"

definition entry_ok :: "u8 list \<times> flat_value \<Rightarrow> bool" where
  "entry_ok e \<longleftrightarrow> valid_utf8 (fst e) \<and> value_ok (snd e) \<and>
     length (fst e) < u32_bound \<and> length (value_payload (snd e)) < u32_bound"

fun value_view :: "usize \<Rightarrow> flat_value \<Rightarrow> borrowed_flat_kv_value_range" where
  "value_view start (FvBool b) = BvBool b"
| "value_view start (FvInt64 i) = BvInt64 i"
| "value_view start (FvFloat64 f) = BvFloat64 f"
| "value_view start (FvString s) = BvString s"
| "value_view start (FvBytes b) = BvBytesRange start (length b)"

definition entry_view :: "usize \<Rightarrow> u8 list \<times> flat_value \<Rightarrow> borrowed_flat_kv_entry" where
  "entry_view pos e = \<lparr>be_key = fst e, be_value = value_view (pos + 4 + length (fst e) + 5) (snd e)\<rparr>"

definition flat_dict_ok :: "flat_dict \<Rightarrow> bool" where
  "flat_dict_ok d \<longleftrightarrow> btree_ok d \<and> list_all (\<lambda>e. valid_utf8 (fst e) \<and> value_ok (snd e)) d"

lemma encode_entries_spec:
  "encode_entries es out =
     (if list_all (\<lambda>e. length (fst e) < u32_bound \<and> length (value_payload (snd e)) < u32_bound) es
      then Inr (out @ concat (map entry_bytes es)) else Inl InvalidArgument)"
proof (induction es arbitrary: out)
  case (Cons e es)
  obtain k v where e: "e = (k, v)" by (cases e)
  have v: "encode_value v = (if length (value_payload v) < u32_bound
      then Inr ([value_type v] @ le_bytes 4 (length (value_payload v)) @ value_payload v)
      else Inl InvalidArgument)"
    by (cases v) (simp_all add: encode_value_def)
  show ?case by (simp add: e v Cons.IH entry_bytes_def [of "(k, v)"])
qed simp

lemma decode_value_view:
  assumes "value_ok v" and "length (value_payload v) < u32_bound"
  shows "decode_value (value_type v) start (length (value_payload v)) (value_payload v) = Inr (value_view start v)"
proof (cases v)
  case (FvInt64 i)
  then show ?thesis using assms i64_bits_bound [of i] by (simp add: decode_value_def i64_of_bits_bits)
next
  case (FvFloat64 f)
  have "unat f < u64_bound" using unsigned_less [of f] by simp
  then show ?thesis using FvFloat64 by (simp add: decode_value_def)
qed (use assms in \<open>simp_all add: decode_value_def\<close>)

lemma need_append [simp]: "need (xs @ ys @ zs) (length xs) (length ys) what = Inr ()"
  by (simp add: need_def)

lemma read_bytes_append:
  "n = length ys \<Longrightarrow> pos = length xs \<Longrightarrow> read_bytes (xs @ ys @ zs) pos n what = Inr (ys, pos + n)"
  by (simp add: read_bytes_def need_def)

lemma read_u32_append:
  "n < u32_bound \<Longrightarrow> pos = length xs \<Longrightarrow> read_u32 (xs @ le_bytes 4 n @ zs) pos what = Inr (n, pos + 4)"
  by (simp add: read_u32_def need_def data_slice_mid)

lemma read_u8_append:
  "pos = length xs \<Longrightarrow> read_u8 (xs @ [b] @ zs) pos what = Inr (b, pos + 1)"
  by (simp add: read_u8_def need_def nth_append)

lemma read_entry_enc:
  assumes "entry_ok e"
  shows "read_entry (pre @ entry_bytes e @ suf) (length pre) =
    Inr (entry_view (length pre) e, length pre + length (entry_bytes e))"
proof -
  obtain k v where e: "e = (k, v)" by (cases e)
  let ?p = "value_payload v" and ?n = "length pre"
  let ?d = "pre @ le_bytes 4 (length k) @ k @ [value_type v] @ le_bytes 4 (length ?p) @ ?p @ suf"
  have ok: "valid_utf8 k" "value_ok v" "length k < u32_bound" "length ?p < u32_bound"
    using assms by (simp_all add: e entry_ok_def)
  have "read_u32 ?d ?n KeyLength = Inr (length k, ?n + 4)"
    using ok by (intro read_u32_append) auto
  moreover have "read_bytes ?d (?n + 4) (length k) KeyBytes = Inr (k, ?n + 4 + length k)"
    using read_bytes_append [of "length k" k "?n + 4" "pre @ le_bytes 4 (length k)"] by simp
  moreover have "read_u8 ?d (?n + 4 + length k) ValueTypeId = Inr (value_type v, ?n + 4 + length k + 1)"
    using read_u8_append [of "?n + 4 + length k" "pre @ le_bytes 4 (length k) @ k"] by simp
  moreover have "read_u32 ?d (?n + 4 + length k + 1) ValueLength = Inr (length ?p, ?n + 4 + length k + 1 + 4)"
    using read_u32_append [OF ok(4), of "?n + 4 + length k + 1" "pre @ le_bytes 4 (length k) @ k @ [value_type v]"]
    by simp
  moreover have "read_bytes ?d (?n + 4 + length k + 1 + 4) (length ?p) ValueBytes =
      Inr (?p, ?n + 4 + length k + 1 + 4 + length ?p)"
    using read_bytes_append [of "length ?p" ?p "?n + 4 + length k + 1 + 4"
        "pre @ le_bytes 4 (length k) @ k @ [value_type v] @ le_bytes 4 (length ?p)"] by simp
  moreover have "decode_value (value_type v) s (length ?p) ?p = Inr (value_view s v)" for s
    by (rule decode_value_view) (use ok in auto)
  ultimately have "read_entry ?d ?n = Inr (\<lparr>be_key = k, be_value = value_view (?n + 4 + length k + 1 + 4) v\<rparr>,
      ?n + 4 + length k + 1 + 4 + length ?p)"
    using ok(1) by (simp add: read_entry_def del: add_Suc_right)
  moreover have "pre @ entry_bytes e @ suf = ?d" by (simp add: e entry_bytes_def)
  ultimately show ?thesis by (simp add: e entry_view_def entry_bytes_def ac_simps)
qed

interpretation flat_entry: item_format entry_bytes read_entry entry_ok entry_view
  by unfold_locales (rule read_entry_enc)

lemma decode_borrowed_flat_bytes:
  assumes "list_all entry_ok es" and "length es < u32_bound"
  shows "flat_kv_decode_borrowed (flat_bytes es) = Inr (flat_entry.views 4 es)"
proof -
  have "read_u32 (flat_bytes es) 0 EntryCountHeader = Inr (length es, 4)"
    using read_u32_append [OF assms(2), of 0 "[]"] by (simp add: flat_bytes_def)
  moreover have "read_n (read_entry (flat_bytes es)) (length es) 4 =
      Inr (flat_entry.views 4 es, length (flat_bytes es))"
    using flat_entry.read_n_enc [of es "le_bytes 4 (length es)" "[]"] assms(1)
    by (simp add: flat_bytes_def list_all_iff)
  ultimately show ?thesis by (simp add: flat_kv_decode_borrowed_def)
qed

section \<open>Round trip\<close>

definition range_item :: "borrowed_flat_kv_entry \<Rightarrow> u8 list \<times> flat_kv_value_range" where
  "range_item item = (be_key item, to_value_range (be_value item))"

lemma range_item_view:
  "range_item (entry_view pos (k, v)) = (k, to_value_range (value_view (pos + 4 + length k + 5) v))"
  by (simp add: range_item_def entry_view_def)

lemma materialize_view:
  assumes "data = pre @ value_payload v @ suf"
  shows "materialize data (to_value_range (value_view (length pre) v)) = Inr v"
  using assms by (cases v) auto

lemma collect_views:
  "data = pre @ concat (map entry_bytes es) \<Longrightarrow>
   collect_flat_dict data (map range_item (flat_entry.views (length pre) es)) out =
     Inr (fold (\<lambda>(k, v). btree_insert k v) es out)"
proof (induction es arbitrary: pre out)
  case (Cons e es)
  obtain k v where e: "e = (k, v)" by (cases e)
  let ?p = "pre @ le_bytes 4 (length k) @ k @ [value_type v] @ le_bytes 4 (length (value_payload v))"
  have "materialize data (to_value_range (value_view (length ?p) v)) = Inr v"
    using Cons.prems by (intro materialize_view [of _ _ _ "concat (map entry_bytes es)"]) (simp add: e entry_bytes_def [of "(k, v)"])
  moreover have "length ?p = length pre + 4 + length k + 5" by simp
  moreover have "data = (pre @ entry_bytes e) @ concat (map entry_bytes es)" using Cons.prems by simp
  note Cons.IH [OF this, of "btree_insert k v out"]
  ultimately show ?case by (simp add: e range_item_view ac_simps)
qed simp

lemma encode_flat_dict_flat_bytes:
  "encode_flat_dict_bytes d = Inr bs \<Longrightarrow>
   bs = flat_bytes d \<and> length d < u32_bound \<and>
   list_all (\<lambda>e. length (fst e) < u32_bound \<and> length (value_payload (snd e)) < u32_bound) d"
  by (auto simp: encode_flat_dict_bytes_def encode_entries_spec flat_bytes_def split: if_splits)

lemma decode_flat_bytes:
  assumes "flat_dict_ok d" and "list_all entry_ok d" and "length d < u32_bound"
  shows "decode_flat_dict_bytes (flat_bytes d) = Inr d"
proof -
  have "collect_flat_dict (flat_bytes d) (map range_item (flat_entry.views 4 d)) [] =
      Inr (fold (\<lambda>(k, v). btree_insert k v) d [])"
    using collect_views [of "flat_bytes d" "le_bytes 4 (length d)" d] by (simp add: flat_bytes_def)
  moreover have "fold (\<lambda>(k, v). btree_insert k v) d [] = d"
    using btree_collect [of "[]" d] assms(1) by (simp add: flat_dict_ok_def)
  ultimately show ?thesis
    using decode_borrowed_flat_bytes [OF assms(2,3)]
    by (simp add: decode_flat_dict_bytes_def flat_kv_decode_ranges_def invalid_arg_def range_item_def [abs_def])
qed

text \<open>C15: A dictionary of UTF-8 keys whose sizes fit the length fields is always encoded, and decoding
  the bytes gives back exactly the dictionary.\<close>

theorem flat_dict_round_trip:
  assumes "flat_dict_ok d" and "length d < u32_bound"
    and "list_all (\<lambda>(k, v). length k < u32_bound \<and> length (value_payload v) < u32_bound) d"
  shows "\<exists>bs. encode_flat_dict_bytes d = Inr bs \<and> decode_flat_dict_bytes bs = Inr d"
proof -
  have l: "list_all (\<lambda>e. length (fst e) < u32_bound \<and> length (value_payload (snd e)) < u32_bound) d"
    using assms(3) by (auto simp: list_all_iff)
  then have "list_all entry_ok d" using assms(1) by (auto simp: list_all_iff entry_ok_def flat_dict_ok_def)
  then have "decode_flat_dict_bytes (flat_bytes d) = Inr d" using assms decode_flat_bytes by blast
  moreover have "encode_flat_dict_bytes d = Inr (flat_bytes d)"
    using l assms(2) by (simp add: encode_flat_dict_bytes_def encode_entries_spec flat_bytes_def)
  ultimately show ?thesis by blast
qed

definition sample_dict :: flat_dict where
  "sample_dict = [([97], FvInt64 (- 2)), ([97, 98], FvBytes [0, 255]), ([195, 169], FvString [101])]"

theorem flat_dict_round_trip_witness:
  "\<exists>bs. encode_flat_dict_bytes sample_dict = Inr bs \<and> decode_flat_dict_bytes bs = Inr sample_dict"
  by (rule flat_dict_round_trip)
    (simp_all add: sample_dict_def flat_dict_ok_def btree_ok_def i64_ok_def utf8_cont_def)

section \<open>What a decoder accepts\<close>

text \<open>The type of a decoded entry: its key and string are UTF-8, its integer fits, its byte range
  lies inside the data.\<close>

fun range_ok :: "u8 list \<Rightarrow> borrowed_flat_kv_value_range \<Rightarrow> bool" where
  "range_ok data (BvInt64 i) = i64_ok i"
| "range_ok data (BvString s) = valid_utf8 s"
| "range_ok data (BvBytesRange start len) = (start + len \<le> length data \<and> len < u32_bound)"
| "range_ok data v = True"

lemma need_Inr [result_iff]: "need data pos n what = Inr u \<longleftrightarrow> pos + n \<le> length data"
  by (auto simp: need_def)

lemma read_u32_Inr [result_iff]:
  "read_u32 data pos what = Inr (x, q) \<longleftrightarrow> pos + 4 \<le> length data \<and> x = le_nat (data_slice data pos 4) \<and> q = pos + 4"
  by (auto simp: read_u32_def result_iff)

lemma read_u8_Inr [result_iff]:
  "read_u8 data pos what = Inr (x, q) \<longleftrightarrow> pos + 1 \<le> length data \<and> x = data ! pos \<and> q = pos + 1"
  by (auto simp: read_u8_def result_iff)

lemma read_bytes_Inr [result_iff]:
  "read_bytes data pos n what = Inr (x, q) \<longleftrightarrow> pos + n \<le> length data \<and> x = data_slice data pos n \<and> q = pos + n"
  by (auto simp: read_bytes_def result_iff)

lemma le_nat_4_bound: "length bs = 4 \<Longrightarrow> le_nat bs < u32_bound"
  using le_nat_bound [of bs] by simp

lemma le_nat_8_bound: "length bs = 8 \<Longrightarrow> le_nat bs < u64_bound"
  using le_nat_bound [of bs] by simp

lemma decode_value_range_ok:
  assumes "decode_value type_id start len bs = Inr v" and "bs = data_slice data start len"
    and "start + len \<le> length data" and "len < u32_bound"
  shows "range_ok data v"
  using assms by (auto simp: decode_value_def i64_of_bits_ok le_nat_8_bound split: if_splits)

lemma read_entry_ok:
  assumes "read_entry data pos = Inr (e, q)"
  shows "valid_utf8 (be_key e) \<and> range_ok data (be_value e) \<and> q \<le> length data \<and> pos + 9 \<le> q"
proof -
  obtain k p t v bs val l s where
      k: "pos + 4 \<le> length data" "s = pos + 4 + k + 1 + 4" "valid_utf8 (data_slice data (pos + 4) k)"
    and l: "s \<le> length data" "l = le_nat (data_slice data (s - 4) 4)"
    and d: "s + l \<le> length data" "decode_value t s l (data_slice data s l) = Inr val"
    and e: "e = \<lparr>be_key = data_slice data (pos + 4) k, be_value = val\<rparr>" "q = s + l"
    using assms by (auto simp: read_entry_def result_iff split: if_splits)
  have "l < u32_bound" using l k by (auto intro: le_nat_4_bound)
  from decode_value_range_ok [OF d(2) refl d(1) this] show ?thesis using k d e by simp
qed

definition decoded_entry_ok :: "u8 list \<Rightarrow> borrowed_flat_kv_entry \<Rightarrow> bool" where
  "decoded_entry_ok data e \<longleftrightarrow> valid_utf8 (be_key e) \<and> range_ok data (be_value e)"

lemma read_entries_ok:
  assumes "read_n (read_entry data) n pos = Inr (es, q)" and "pos \<le> length data"
  shows "(\<forall>e \<in> set es. decoded_entry_ok data e) \<and> q \<le> length data \<and> length es = n"
  using read_n_all [of "\<lambda>pos. pos \<le> length data" "read_entry data" "decoded_entry_ok data", OF _ assms(1)]
    read_entry_ok assms(2) unfolding decoded_entry_ok_def by blast

lemma decode_borrowed_ok:
  assumes "flat_kv_decode_borrowed data = Inr es"
  shows "\<forall>e \<in> set es. decoded_entry_ok data e"
  using assms read_entries_ok [of data _ 4 es]
  by (auto simp: flat_kv_decode_borrowed_def result_iff split: if_splits)

text \<open>C33: Every entry a decoder hands out is well typed, whatever the bytes it was given: keys and strings
  are UTF-8, integers are 64-bit, and a byte range lies inside the data, so that slicing it cannot
  panic.\<close>

theorem decoded_entries_typed:
  assumes "flat_kv_decode_borrowed data = Inr es"
  shows "\<forall>e \<in> set es. valid_utf8 (be_key e) \<and> range_ok data (be_value e)"
  using decode_borrowed_ok [OF assms] by (simp add: decoded_entry_ok_def)

definition sample_bytes :: "u8 list" where
  "sample_bytes = [1, 0, 0, 0, 1, 0, 0, 0, 97, 5, 2, 0, 0, 0, 7, 8]"

lemma sample_bytes_decode:
  "flat_kv_decode_borrowed sample_bytes = Inr [\<lparr>be_key = [97], be_value = BvBytesRange 14 2\<rparr>]"
  by code_simp

theorem decoded_entries_typed_witness:
  "flat_kv_decode_borrowed sample_bytes = Inr [\<lparr>be_key = [97], be_value = BvBytesRange 14 2\<rparr>] \<and>
   valid_utf8 [97] \<and> range_ok sample_bytes (BvBytesRange 14 2)"
  using sample_bytes_decode decoded_entries_typed [OF sample_bytes_decode] by simp

section \<open>Finding a field is decoding and looking it up\<close>

definition found_after ::
  "u8 list \<Rightarrow> borrowed_flat_kv_entry \<Rightarrow> (usize \<times> usize) option \<Rightarrow> (usize \<times> usize) option" where
  "found_after field_key e found =
     (if be_key e = field_key
      then (case be_value e of BvBytesRange start len \<Rightarrow> Some (start, len) | _ \<Rightarrow> None) else found)"

lemma find_need_eq:
  "pos \<le> length data \<Longrightarrow> n < u32_bound \<Longrightarrow> length data < 9223372036854775808 \<Longrightarrow>
   find_need data pos n = (if length data < pos + n then Inl InvalidArgument else Inr (pos + n))"
  by (simp add: find_need_def checked_add_def)

lemma find_read_u32_eq:
  "pos \<le> length data \<Longrightarrow> length data < 9223372036854775808 \<Longrightarrow>
   find_read_u32 data pos = invalid_arg (read_u32 data pos what)"
  by (simp add: find_read_u32_def find_need_eq read_u32_def need_def invalid_arg_def)

lemma find_check_value_eq:
  "find_check_value type_id len bs =
     (case decode_value type_id start len bs of Inl e \<Rightarrow> Inl InvalidArgument | Inr v \<Rightarrow> Inr ())"
  by (auto simp: find_check_value_def decode_value_def)

lemma decode_value_found:
  "decode_value type_id start len bs = Inr v \<Longrightarrow>
   (if type_id = FLAT_KV_TYPE_BYTES then Some (start, len) else None) =
     (case v of BvBytesRange start len \<Rightarrow> Some (start, len) | _ \<Rightarrow> None)"
  by (auto simp: decode_value_def split: if_splits)

lemma find_entry_eq:
  assumes "pos \<le> length data" and small: "length data < 9223372036854775808"
  shows "find_entry data field_key pos found =
    (case read_entry data pos of Inl e \<Rightarrow> Inl InvalidArgument
     | Inr (e, q) \<Rightarrow> Inr (found_after field_key e found, q))"
proof (cases "pos + 4 \<le> length data")
  case pos: True
  define k where "k = le_nat (data_slice data pos 4)"
  have kb: "k < u32_bound" using pos by (simp add: k_def le_nat_4_bound)
  show ?thesis
  proof (cases "pos + 4 + k \<le> length data \<and> valid_utf8 (data_slice data (pos + 4) k) \<and> pos + 4 + k + 1 + 4 \<le> length data")
    case True
    define s where "s = pos + 4 + k + 1 + 4"
    define l where "l = le_nat (data_slice data (pos + 4 + k + 1) 4)"
    have lb: "l < u32_bound" using True by (simp add: l_def le_nat_4_bound)
    have s: "s \<le> length data" using True by (simp add: s_def)
    let ?t = "data ! (pos + 4 + k)"
    have "read_entry data pos = and_then (read_bytes data s l ValueBytes) (\<lambda>(bs, q).
        and_then (decode_value ?t s l bs) (\<lambda>v. Inr (\<lparr>be_key = data_slice data (pos + 4) k, be_value = v\<rparr>, q)))"
      using pos True by (simp add: read_entry_def read_u32_def read_bytes_def read_u8_def need_def
          k_def [symmetric] l_def s_def ac_simps)
    moreover have "find_entry data field_key pos found = and_then (find_need data s l) (\<lambda>e.
        and_then (find_check_value ?t l (data_slice data s (e - s))) (\<lambda>_.
        Inr (if data_slice data (pos + 4) k = field_key
          then (if ?t = FLAT_KV_TYPE_BYTES then Some (s, l) else None) else found, e)))"
      using pos True small kb by (simp add: find_entry_def find_read_u32_def find_need_eq
          k_def [symmetric] l_def s_def Let_def ac_simps)
    ultimately show ?thesis
      using s lb small decode_value_found [of ?t s l]
      by (cases "decode_value ?t s l (data_slice data s l)")
        (auto simp: find_need_eq read_bytes_def need_def find_check_value_eq [where start = s] found_after_def)
  next
    case False
    then show ?thesis using pos small kb
      by (auto simp: find_entry_def find_read_u32_def find_need_eq read_entry_def read_u32_def
          read_bytes_def read_u8_def need_def k_def [symmetric] Let_def)
  qed
qed (use assms in \<open>simp add: find_entry_def find_read_u32_def find_need_eq read_entry_def read_u32_def need_def\<close>)

lemma find_loop_eq:
  assumes "pos \<le> length data" and "length data < 9223372036854775808"
  shows "find_loop data field_key n pos found =
    (case read_n (read_entry data) n pos of Inl e \<Rightarrow> Inl InvalidArgument
     | Inr (es, q) \<Rightarrow> Inr (fold (found_after field_key) es found, q))"
  using assms(1)
proof (induction n arbitrary: pos found)
  case (Suc n)
  show ?case
  proof (cases "read_entry data pos")
    case (Inl e)
    then show ?thesis using find_entry_eq [OF Suc.prems assms(2)] by simp
  next
    case (Inr r)
    obtain e q where r: "r = (e, q)" by (cases r)
    have "q \<le> length data" using read_entry_ok [of data pos e q] Inr r by simp
    from Suc.IH [OF this] show ?thesis
      using find_entry_eq [OF Suc.prems assms(2)] Inr r
      by (cases "read_n (read_entry data) n q") auto
  qed
qed simp

lemma find_eq_decode_borrowed:
  assumes "length data < 9223372036854775808"
  shows "find_flat_dict_bytes_field_range data field_key =
    (case flat_kv_decode_borrowed data of Inl e \<Rightarrow> Inl InvalidArgument
     | Inr es \<Rightarrow> Inr (fold (found_after field_key) es None))"
proof (cases "4 \<le> length data")
  case True
  let ?n = "le_nat (data_slice data 0 4)"
  show ?thesis using find_loop_eq [OF True assms, of field_key ?n None] True assms
    by (cases "read_n (read_entry data) ?n 4")
      (auto simp: find_flat_dict_bytes_field_range_def find_read_u32_def find_need_eq
        flat_kv_decode_borrowed_def read_u32_def need_def)
qed (use assms in \<open>simp add: find_flat_dict_bytes_field_range_def find_read_u32_def find_need_eq
        flat_kv_decode_borrowed_def read_u32_def need_def\<close>)

fun range_value :: "u8 list \<Rightarrow> borrowed_flat_kv_value_range \<Rightarrow> flat_value" where
  "range_value data (BvBool b) = FvBool b"
| "range_value data (BvInt64 i) = FvInt64 i"
| "range_value data (BvFloat64 f) = FvFloat64 f"
| "range_value data (BvString s) = FvString s"
| "range_value data (BvBytesRange start len) = FvBytes (data_slice data start len)"

lemma materialize_range: "range_ok data v \<Longrightarrow> materialize data (to_value_range v) = Inr (range_value data v)"
  by (cases v) auto

definition field_agrees ::
  "u8 list \<Rightarrow> u8 list \<Rightarrow> flat_dict \<Rightarrow> (usize \<times> usize) option \<Rightarrow> bool" where
  "field_agrees data field_key d found =
     (case found of
        Some (start, len) \<Rightarrow> start + len \<le> length data \<and>
          map_of d field_key = Some (FvBytes (data_slice data start len))
      | None \<Rightarrow> (\<forall>b. map_of d field_key \<noteq> Some (FvBytes b)))"

lemma field_agrees_step:
  assumes "field_agrees data field_key out found" and "btree_ok out" and "decoded_entry_ok data e"
  shows "field_agrees data field_key (btree_insert (be_key e) (range_value data (be_value e)) out)
    (found_after field_key e found)"
  using assms by (cases "be_value e")
    (auto simp: field_agrees_def found_after_def btree_lookup_insert decoded_entry_ok_def split: option.splits)

lemma collect_agrees:
  assumes "\<forall>e \<in> set es. decoded_entry_ok data e" and "btree_ok out" and "field_agrees data field_key out found"
  shows "\<exists>d. collect_flat_dict data (map range_item es) out = Inr d \<and> btree_ok d \<and>
    field_agrees data field_key d (fold (found_after field_key) es found)"
  using assms
proof (induction es arbitrary: out found)
  case (Cons e es)
  then have "materialize data (to_value_range (be_value e)) = Inr (range_value data (be_value e))"
    by (intro materialize_range) (simp add: decoded_entry_ok_def)
  then show ?case
    using Cons.IH [OF _ btree_insert_ok [OF Cons.prems(2)] field_agrees_step [OF Cons.prems(3,2)]] Cons.prems(1)
    by (simp add: range_item_def)
qed simp

text \<open>C18: Looking up a byte field in the encoded value agrees with decoding the whole value: it fails on
  exactly the values that do not decode, and otherwise it answers a range exactly when the decoded
  dictionary has bytes under the key, and then those bytes are the range.\<close>

theorem find_field_agrees_with_decode:
  assumes "length data < 9223372036854775808"
  shows "case decode_flat_dict_bytes data of
      Inl e \<Rightarrow> find_flat_dict_bytes_field_range data field_key = Inl e
    | Inr d \<Rightarrow> (\<exists>found. find_flat_dict_bytes_field_range data field_key = Inr found \<and>
        (case found of
           Some (start, len) \<Rightarrow> start + len \<le> length data \<and>
             map_of d field_key = Some (FvBytes (data_slice data start len))
         | None \<Rightarrow> (\<forall>b. map_of d field_key \<noteq> Some (FvBytes b))))"
proof (cases "flat_kv_decode_borrowed data")
  case (Inl e)
  then show ?thesis
    by (simp add: decode_flat_dict_bytes_def flat_kv_decode_ranges_def invalid_arg_def find_eq_decode_borrowed [OF assms])
next
  case (Inr es)
  have "field_agrees data field_key [] None" by (simp add: field_agrees_def)
  from collect_agrees [OF decode_borrowed_ok [OF Inr] btree_ok_Nil this]
  obtain d where "collect_flat_dict data (map range_item es) [] = Inr d"
    "field_agrees data field_key d (fold (found_after field_key) es None)" by blast
  with Inr show ?thesis
    by (simp add: decode_flat_dict_bytes_def flat_kv_decode_ranges_def invalid_arg_def
        find_eq_decode_borrowed [OF assms] range_item_def [abs_def] field_agrees_def)
qed

definition sample_field_dict :: flat_dict where
  "sample_field_dict = [([97], FvBytes [7, 8])]"

lemma sample_bytes_dict: "decode_flat_dict_bytes sample_bytes = Inr sample_field_dict"
  by code_simp

theorem find_field_agrees_with_decode_witness:
  "\<exists>found. find_flat_dict_bytes_field_range sample_bytes [97] = Inr found \<and>
     (case found of
        Some (start, len) \<Rightarrow> start + len \<le> length sample_bytes \<and>
          map_of sample_field_dict [97] = Some (FvBytes (data_slice sample_bytes start len))
      | None \<Rightarrow> (\<forall>b. map_of sample_field_dict [97] \<noteq> Some (FvBytes b)))"
proof -
  have "length sample_bytes < 9223372036854775808" by (simp add: sample_bytes_def)
  from find_field_agrees_with_decode [OF this, of "[97]"] show ?thesis by (simp only: sample_bytes_dict sum.case)
qed

end
