(* ===== verification/Flat_Writer.thy ===== *)
theory Flat_Writer
  imports Flat_Dict
begin

text \<open>
  The pointer-based encoder of \<open>fluxon_kv/src/memholder/kvclient_encode.rs\<close>: the length
  computation, the unsafe writer that fills a buffer of exactly that length, and the encoder of
  owned entries on top of them. Memory is a function from addresses to bytes; a vector is an
  address and a length; an access the safety comments forbid (a copy between overlapping ranges, a
  read past the eight bytes of an inline value) is \<open>None\<close>.
\<close>

section \<open>Memory\<close>

type_synonym memory = "nat \<Rightarrow> u8"

definition load :: "memory \<Rightarrow> nat \<Rightarrow> nat \<Rightarrow> u8 list" where
  "load mem a n = map (\<lambda>i. mem (a + i)) [0..<n]"

definition store :: "memory \<Rightarrow> nat \<Rightarrow> u8 list \<Rightarrow> memory" where
  "store mem a bs = (\<lambda>x. if a \<le> x \<and> x < a + length bs then bs ! (x - a) else mem x)"

definition apart :: "nat \<Rightarrow> nat \<Rightarrow> nat \<Rightarrow> nat \<Rightarrow> bool" where
  "apart a n b m \<longleftrightarrow> n = 0 \<or> m = 0 \<or> a + n \<le> b \<or> b + m \<le> a"

definition copy_nonoverlapping :: "memory \<Rightarrow> nat \<Rightarrow> nat \<Rightarrow> nat \<Rightarrow> memory option" where
  "copy_nonoverlapping mem src dst n =
     (if apart src n dst n then Some (store mem dst (load mem src n)) else None)"

lemma length_load [simp]: "length (load mem a n) = n"
  by (simp add: load_def)

lemma load_0 [simp]: "load mem a 0 = []"
  by (simp add: load_def)

lemma load_Suc [simp]: "load mem a (Suc n) = mem a # load mem (Suc a) n"
  by (simp add: load_def map_upt_Suc del: upt_Suc)

lemma load_numeral [simp]: "load mem a (numeral n) = mem a # load mem (Suc a) (pred_numeral n)"
  by (subst numeral_eq_Suc) (rule load_Suc)

lemma store_Nil [simp]: "store mem a [] = mem"
  by (auto simp: store_def fun_eq_iff)

lemma store_append: "store (store mem a xs) (a + length xs) ys = store mem a (xs @ ys)"
  by (auto simp: store_def fun_eq_iff nth_append)

lemma load_store [simp]: "load (store mem a bs) a (length bs) = bs"
  by (auto simp: load_def store_def intro: nth_equalityI)

lemma load_store_apart: "apart s n a (length bs) \<Longrightarrow> load (store mem a bs) s n = load mem s n"
  by (auto simp: load_def store_def apart_def)

lemma store_outside: "x < a \<or> a + length bs \<le> x \<Longrightarrow> store mem a bs x = mem x"
  by (auto simp: store_def)

lemma apart_sub: "apart s n a m \<Longrightarrow> a \<le> b \<Longrightarrow> b + k \<le> a + m \<Longrightarrow> apart s n b k"
  by (auto simp: apart_def)

section \<open>Length and writer\<close>

text \<open>Type id, key address and length, inline value or value address, value length, and a slot the
  encoder does not use.\<close>

type_synonym flat_ptr = "u8 \<times> usize \<times> u32 \<times> u64 \<times> u32 \<times> u32 option"

fun calc_entries :: "flat_ptr list \<Rightarrow> u64 \<Rightarrow> kv_error + u64" where
  "calc_entries [] total_len = Inr total_len"
| "calc_entries ((type_id, key_ptr, key_len, val_u64, val_len, _) # ptrs) total_len =
     (if u32_bound - 1 < val_len then Inl ApiUnknown
      else if (if type_id = FLAT_KV_TYPE_BOOL then val_len \<noteq> 1
               else if type_id = FLAT_KV_TYPE_INT64 \<or> type_id = FLAT_KV_TYPE_FLOAT64 then val_len \<noteq> 8
               else if type_id = FLAT_KV_TYPE_STRING \<or> type_id = FLAT_KV_TYPE_BYTES
               then u64_bound \<le> val_u64 else True)
      then Inl ApiUnknown
      else case checked_add u64_bound total_len (4 + key_len + 1 + 4 + val_len) of
             None \<Rightarrow> Inl ApiUnknown
           | Some total_len \<Rightarrow>
               if u32_bound - 1 < total_len then Inl ApiUnknown else calc_entries ptrs total_len)"

definition calc_flat_dict_encoded_len :: "flat_ptr list \<Rightarrow> kv_error + u64" where
  "calc_flat_dict_encoded_len ptrs =
     (if u32_bound - 1 < length ptrs then Inl ApiUnknown else calc_entries ptrs 4)"

definition write_value :: "memory \<Rightarrow> usize \<Rightarrow> u8 \<Rightarrow> u64 \<Rightarrow> u32 \<Rightarrow> (memory \<times> usize) option" where
  "write_value mem cursor type_id val_u64 val_len =
     (if type_id = FLAT_KV_TYPE_STRING \<or> type_id = FLAT_KV_TYPE_BYTES
      then do { mem \<leftarrow> copy_nonoverlapping mem val_u64 cursor val_len; Some (mem, cursor + val_len) }
      else do { assert_or_panic (val_len \<le> 8);
                Some (store mem cursor (take val_len (le_bytes 8 val_u64)), cursor + val_len) })"

fun write_entry :: "memory \<Rightarrow> usize \<Rightarrow> flat_ptr \<Rightarrow> (memory \<times> usize) option" where
  "write_entry mem cursor (type_id, key_ptr, key_len, val_u64, val_len, _) =
     do { let mem = store mem cursor (le_bytes 4 key_len);
          let cursor = cursor + 4;
          mem \<leftarrow> copy_nonoverlapping mem key_ptr cursor key_len;
          let cursor = cursor + key_len;
          let mem = store mem cursor [type_id];
          let cursor = cursor + 1;
          let mem = store mem cursor (le_bytes 4 val_len);
          let cursor = cursor + 4;
          write_value mem cursor type_id val_u64 val_len }"

fun write_entries :: "memory \<Rightarrow> usize \<Rightarrow> flat_ptr list \<Rightarrow> memory option" where
  "write_entries mem cursor [] = Some mem"
| "write_entries mem cursor (p # ptrs) =
     do { (mem, cursor) \<leftarrow> write_entry mem cursor p; write_entries mem cursor ptrs }"

definition write_flat_dict_ptrs_to_ptr :: "memory \<Rightarrow> usize \<Rightarrow> flat_ptr list \<Rightarrow> memory option" where
  "write_flat_dict_ptrs_to_ptr mem abs_dst ptrs =
     write_entries (store mem abs_dst (le_bytes 4 (length ptrs))) (abs_dst + 4) ptrs"

section \<open>Owned entries\<close>

record vec =
  vec_ptr :: usize
  vec_len :: usize

datatype owned_flat_kv_value =
    OvBool bool
  | OvInt64 i64
  | OvFloat64 f64
  | OvString vec
  | OvBytes vec

record owned_flat_kv_entry =
  key_utf8 :: vec
  oe_value :: owned_flat_kv_value

definition u32_try_from :: "nat \<Rightarrow> kv_error + u32" where
  "u32_try_from n = (if n < u32_bound then Inr n else Inl ApiUnknown)"

text \<open>One round of the first loop of \<open>flat_kv_encode_owned\<close>.\<close>

definition owned_ptr :: "owned_flat_kv_entry \<Rightarrow> kv_error + flat_ptr" where
  "owned_ptr entry =
     and_then (u32_try_from (vec_len (key_utf8 entry))) (\<lambda>key_len.
     case oe_value entry of
       OvBool value \<Rightarrow>
         Inr (FLAT_KV_TYPE_BOOL, vec_ptr (key_utf8 entry), key_len, if value then 1 else 0, 1, None)
     | OvInt64 value \<Rightarrow>
         Inr (FLAT_KV_TYPE_INT64, vec_ptr (key_utf8 entry), key_len, i64_bits value, 8, None)
     | OvFloat64 value \<Rightarrow>
         Inr (FLAT_KV_TYPE_FLOAT64, vec_ptr (key_utf8 entry), key_len, unat value, 8, None)
     | OvString value \<Rightarrow>
         and_then (u32_try_from (vec_len value)) (\<lambda>val_len.
         Inr (FLAT_KV_TYPE_STRING, vec_ptr (key_utf8 entry), key_len, vec_ptr value, val_len, None))
     | OvBytes value \<Rightarrow>
         and_then (u32_try_from (vec_len value)) (\<lambda>val_len.
         Inr (FLAT_KV_TYPE_BYTES, vec_ptr (key_utf8 entry), key_len, vec_ptr value, val_len, None)))"

fun owned_ptrs :: "owned_flat_kv_entry list \<Rightarrow> kv_error + flat_ptr list" where
  "owned_ptrs [] = Inr []"
| "owned_ptrs (e # es) =
     and_then (owned_ptr e) (\<lambda>p. and_then (owned_ptrs es) (\<lambda>ps. Inr (p # ps)))"

text \<open>The tail the two pointer-based encoders share: \<open>dst\<close> is the address of the vector that
  \<open>Vec::with_capacity\<close> allocates.\<close>

definition encode_ptrs :: "memory \<Rightarrow> usize \<Rightarrow> flat_ptr list \<Rightarrow> (kv_error + memory \<times> vec) option" where
  "encode_ptrs mem dst ptrs =
     (case calc_flat_dict_encoded_len ptrs of
        Inl e \<Rightarrow> Some (Inl e)
      | Inr payload_len \<Rightarrow>
          do { mem \<leftarrow> write_flat_dict_ptrs_to_ptr mem dst ptrs;
               Some (Inr (mem, \<lparr>vec_ptr = dst, vec_len = payload_len\<rparr>)) })"

definition flat_kv_encode_owned ::
  "memory \<Rightarrow> usize \<Rightarrow> owned_flat_kv_entry list \<Rightarrow> (kv_error + memory \<times> vec) option" where
  "flat_kv_encode_owned mem dst entries =
     (case owned_ptrs entries of
        Inl e \<Rightarrow> Some (Inl e)
      | Inr ptrs \<Rightarrow> encode_ptrs mem dst ptrs)"

section \<open>The writer fills exactly its buffer\<close>

definition bytes_like :: "u8 \<Rightarrow> bool" where
  "bytes_like type_id \<longleftrightarrow> type_id = FLAT_KV_TYPE_STRING \<or> type_id = FLAT_KV_TYPE_BYTES"

fun ptr_len :: "flat_ptr \<Rightarrow> nat" where
  "ptr_len (type_id, key_ptr, key_len, val_u64, val_len, _) = 9 + key_len + val_len"

fun ptr_bytes :: "memory \<Rightarrow> flat_ptr \<Rightarrow> u8 list" where
  "ptr_bytes mem (type_id, key_ptr, key_len, val_u64, val_len, _) =
     le_bytes 4 key_len @ load mem key_ptr key_len @ [type_id] @ le_bytes 4 val_len @
     (if bytes_like type_id then load mem val_u64 val_len else take val_len (le_bytes 8 val_u64))"

text \<open>What the caller of the writer guarantees of an entry, for a buffer at \<open>dst\<close> of \<open>n\<close> bytes.\<close>

fun ptr_apart :: "nat \<Rightarrow> nat \<Rightarrow> flat_ptr \<Rightarrow> bool" where
  "ptr_apart dst n (type_id, key_ptr, key_len, val_u64, val_len, _) =
     (apart key_ptr key_len dst n \<and> (bytes_like type_id \<longrightarrow> apart val_u64 val_len dst n))"

fun ptr_inline_ok :: "flat_ptr \<Rightarrow> bool" where
  "ptr_inline_ok (type_id, key_ptr, key_len, val_u64, val_len, _) = (bytes_like type_id \<or> val_len \<le> 8)"

lemma length_ptr_bytes: "ptr_inline_ok p \<Longrightarrow> length (ptr_bytes mem p) = ptr_len p"
  by (cases p) auto

lemma copy_into_buffer:
  assumes "apart s k dst n" and "length written + k \<le> n"
  shows "copy_nonoverlapping (store mem dst written) s (dst + length written) k =
    Some (store mem dst (written @ load mem s k))"
proof -
  have "apart s k dst (length written)" "apart s k (dst + length written) k"
    using assms by (auto intro: apart_sub)
  then show ?thesis
    using store_append [of mem dst written "load mem s k"]
    by (simp add: copy_nonoverlapping_def load_store_apart)
qed

lemma write_value_buffer:
  assumes "bytes_like type_id \<or> val_len \<le> 8" and "bytes_like type_id \<Longrightarrow> apart val_u64 val_len dst n"
    and "length written + val_len \<le> n"
  shows "write_value (store mem dst written) (dst + length written) type_id val_u64 val_len =
    Some (store mem dst (written @ (if bytes_like type_id then load mem val_u64 val_len
      else take val_len (le_bytes 8 val_u64))), dst + length written + val_len)"
  using assms copy_into_buffer [of val_u64 val_len dst n written mem]
  by (auto simp: write_value_def bytes_like_def store_append)

lemma write_entry_buffer:
  assumes "ptr_apart dst n p" and "ptr_inline_ok p" and "length written + ptr_len p \<le> n"
  shows "write_entry (store mem dst written) (dst + length written) p =
    Some (store mem dst (written @ ptr_bytes mem p), dst + length (written @ ptr_bytes mem p))"
proof -
  obtain t kp kl v vl w where p: "p = (t, kp, kl, v, vl, w)" by (cases p) auto
  let ?a = "written @ le_bytes 4 kl"
  let ?b = "?a @ load mem kp kl @ [t] @ le_bytes 4 vl"
  have "copy_nonoverlapping (store mem dst ?a) kp (dst + length ?a) kl = Some (store mem dst (?a @ load mem kp kl))"
    by (rule copy_into_buffer [of _ _ _ n]) (use assms p in auto)
  moreover have "store (store (store mem dst (?a @ load mem kp kl)) (dst + length ?a + kl) [t])
      (dst + length ?a + kl + 1) (le_bytes 4 vl) = store mem dst ?b"
    using store_append [of mem dst "?a @ load mem kp kl" "[t]"]
      store_append [of mem dst "?a @ load mem kp kl @ [t]" "le_bytes 4 vl"] by (simp add: ac_simps)
  moreover have "write_value (store mem dst ?b) (dst + length ?b) t v vl =
      Some (store mem dst (?b @ (if bytes_like t then load mem v vl else take vl (le_bytes 8 v))), dst + length ?b + vl)"
    by (rule write_value_buffer [of _ _ _ _ n]) (use assms p in auto)
  ultimately show ?thesis
    using length_ptr_bytes [OF assms(2)] store_append [of mem dst written "le_bytes 4 kl"]
    by (simp add: p ac_simps Let_def)
qed

lemma write_entries_buffer:
  assumes "list_all (ptr_apart dst n) ps" and "list_all ptr_inline_ok ps"
    and "length written + sum_list (map ptr_len ps) \<le> n"
  shows "write_entries (store mem dst written) (dst + length written) ps =
    Some (store mem dst (written @ concat (map (ptr_bytes mem) ps)))"
  using assms
proof (induction ps arbitrary: written)
  case (Cons p ps)
  then show ?case
    using write_entry_buffer [of dst n p written mem] Cons.IH [of "written @ ptr_bytes mem p"]
      length_ptr_bytes [of p mem] by simp
qed simp

lemma calc_entries_Inr:
  "calc_entries ps total_len = Inr n \<Longrightarrow>
   n = total_len + sum_list (map ptr_len ps) \<and> list_all ptr_inline_ok ps \<and> (total_len < u32_bound \<longrightarrow> n < u32_bound)"
proof (induction ps arbitrary: total_len)
  case (Cons p ps)
  obtain t kp kl v vl w where p: "p = (t, kp, kl, v, vl, w)" by (cases p) auto
  show ?case using Cons.IH [of "total_len + (4 + kl + 1 + 4 + vl)"] Cons.prems
    by (auto simp: p bytes_like_def checked_add_def split: if_splits)
qed simp

definition ptrs_bytes :: "memory \<Rightarrow> flat_ptr list \<Rightarrow> u8 list" where
  "ptrs_bytes mem ps = le_bytes 4 (length ps) @ concat (map (ptr_bytes mem) ps)"

lemma length_ptrs_bytes:
  "list_all ptr_inline_ok ps \<Longrightarrow> length (ptrs_bytes mem ps) = 4 + sum_list (map ptr_len ps)"
  by (induction ps) (auto simp: ptrs_bytes_def length_ptr_bytes)

text \<open>C17: The unsafe writer fills exactly the buffer whose length was computed for it: as long as no
  source overlaps the buffer it makes no forbidden access, every byte of the buffer is written with
  the encoding of the entries, and no byte outside the buffer changes.\<close>

theorem writer_fills_buffer:
  assumes "calc_flat_dict_encoded_len ptrs = Inr n" and "list_all (ptr_apart dst n) ptrs"
  shows "\<exists>mem'. write_flat_dict_ptrs_to_ptr mem dst ptrs = Some mem' \<and>
    load mem' dst n = ptrs_bytes mem ptrs \<and> length (ptrs_bytes mem ptrs) = n \<and>
    (\<forall>a. a < dst \<or> dst + n \<le> a \<longrightarrow> mem' a = mem a)"
proof -
  have n: "n = 4 + sum_list (map ptr_len ptrs)" "list_all ptr_inline_ok ptrs"
    using assms(1) calc_entries_Inr [of ptrs 4 n] by (auto simp: calc_flat_dict_encoded_len_def split: if_splits)
  have len: "length (ptrs_bytes mem ptrs) = n" using n by (simp add: length_ptrs_bytes)
  have "write_flat_dict_ptrs_to_ptr mem dst ptrs = Some (store mem dst (ptrs_bytes mem ptrs))"
    using write_entries_buffer [OF assms(2) n(2), of "le_bytes 4 (length ptrs)" mem] n
    by (simp add: write_flat_dict_ptrs_to_ptr_def ptrs_bytes_def)
  then show ?thesis using len load_store [of mem dst "ptrs_bytes mem ptrs"] by (auto simp: store_outside)
qed

definition sample_ptrs :: "flat_ptr list" where
  "sample_ptrs = [(FLAT_KV_TYPE_INT64, 10, 1, 258, 8, None), (FLAT_KV_TYPE_BYTES, 11, 1, 12, 2, None)]"

lemma sample_ptrs_len: "calc_flat_dict_encoded_len sample_ptrs = Inr 34"
  by (simp add: sample_ptrs_def calc_flat_dict_encoded_len_def checked_add_def)

lemma sample_ptrs_apart: "list_all (ptr_apart 100 34) sample_ptrs"
  by (simp add: sample_ptrs_def apart_def bytes_like_def)

theorem writer_fills_buffer_witness:
  "\<exists>mem'. write_flat_dict_ptrs_to_ptr (\<lambda>a. of_nat a) 100 sample_ptrs = Some mem' \<and>
    load mem' 100 34 = ptrs_bytes (\<lambda>a. of_nat a) sample_ptrs \<and> length (ptrs_bytes (\<lambda>a. of_nat a) sample_ptrs) = 34 \<and>
    (\<forall>a. a < 100 \<or> 100 + 34 \<le> a \<longrightarrow> mem' a = of_nat a)"
  by (rule writer_fills_buffer [OF sample_ptrs_len sample_ptrs_apart])

section \<open>The owned encoder is the dictionary encoder\<close>

fun owned_value :: "memory \<Rightarrow> owned_flat_kv_value \<Rightarrow> flat_value" where
  "owned_value mem (OvBool b) = FvBool b"
| "owned_value mem (OvInt64 i) = FvInt64 i"
| "owned_value mem (OvFloat64 f) = FvFloat64 f"
| "owned_value mem (OvString v) = FvString (load mem (vec_ptr v) (vec_len v))"
| "owned_value mem (OvBytes v) = FvBytes (load mem (vec_ptr v) (vec_len v))"

definition owned_content :: "memory \<Rightarrow> owned_flat_kv_entry \<Rightarrow> u8 list \<times> flat_value" where
  "owned_content mem e = (load mem (vec_ptr (key_utf8 e)) (vec_len (key_utf8 e)), owned_value mem (oe_value e))"

fun value_apart :: "nat \<Rightarrow> nat \<Rightarrow> owned_flat_kv_value \<Rightarrow> bool" where
  "value_apart dst n (OvString v) = (vec_ptr v < u64_bound \<and> apart (vec_ptr v) (vec_len v) dst n)"
| "value_apart dst n (OvBytes v) = (vec_ptr v < u64_bound \<and> apart (vec_ptr v) (vec_len v) dst n)"
| "value_apart dst n v = True"

definition owned_apart :: "nat \<Rightarrow> nat \<Rightarrow> owned_flat_kv_entry \<Rightarrow> bool" where
  "owned_apart dst n e \<longleftrightarrow>
     apart (vec_ptr (key_utf8 e)) (vec_len (key_utf8 e)) dst n \<and> value_apart dst n (oe_value e)"

text \<open>The types the length computation accepts.\<close>

fun ptr_typed :: "flat_ptr \<Rightarrow> bool" where
  "ptr_typed (type_id, key_ptr, key_len, val_u64, val_len, _) =
     (val_len < u32_bound \<and>
      (type_id = FLAT_KV_TYPE_BOOL \<and> val_len = 1 \<or>
       (type_id = FLAT_KV_TYPE_INT64 \<or> type_id = FLAT_KV_TYPE_FLOAT64) \<and> val_len = 8 \<or>
       bytes_like type_id \<and> val_u64 < u64_bound))"

lemma calc_entries_typed:
  "list_all ptr_typed ps \<Longrightarrow> total_len + sum_list (map ptr_len ps) < u32_bound \<Longrightarrow>
   calc_entries ps total_len = Inr (total_len + sum_list (map ptr_len ps))"
proof (induction ps arbitrary: total_len)
  case (Cons p ps)
  obtain t kp kl v vl w where p: "p = (t, kp, kl, v, vl, w)" by (cases p) auto
  show ?case using Cons.IH [of "total_len + (4 + kl + 1 + 4 + vl)"] Cons.prems
    by (auto simp: p bytes_like_def checked_add_def)
qed simp

lemma take_1_le_bytes [simp]: "take (Suc 0) (le_bytes 8 x) = [of_nat x]"
proof -
  have "le_bytes 8 x = le_bytes (Suc 7) x" by simp
  also have "take (Suc 0) \<dots> = [of_nat x]" by (simp only: le_bytes.simps take_Suc_Cons take_0)
  finally show ?thesis .
qed

lemma owned_ptr_content:
  assumes "owned_apart dst n e"
    and "length (fst (owned_content mem e)) < u32_bound"
    and "length (value_payload (snd (owned_content mem e))) < u32_bound"
  shows "\<exists>p. owned_ptr e = Inr p \<and> ptr_bytes mem p = entry_bytes (owned_content mem e) \<and>
    ptr_apart dst n p \<and> ptr_typed p"
proof (cases "oe_value e")
  case (OvBool b)
  then show ?thesis using assms
    by (simp add: owned_ptr_def owned_apart_def owned_content_def u32_try_from_def entry_bytes_def bytes_like_def)
next
  case (OvInt64 i)
  then show ?thesis using assms
    by (simp add: owned_ptr_def owned_apart_def owned_content_def u32_try_from_def entry_bytes_def bytes_like_def)
next
  case (OvFloat64 f)
  then show ?thesis using assms
    by (simp add: owned_ptr_def owned_apart_def owned_content_def u32_try_from_def entry_bytes_def bytes_like_def)
next
  case (OvString v)
  then show ?thesis using assms
    by (simp add: owned_ptr_def owned_apart_def owned_content_def u32_try_from_def entry_bytes_def bytes_like_def)
next
  case (OvBytes v)
  then show ?thesis using assms
    by (simp add: owned_ptr_def owned_apart_def owned_content_def u32_try_from_def entry_bytes_def bytes_like_def)
qed

lemma owned_ptrs_content:
  assumes "list_all (owned_apart dst n) es"
    and "list_all (\<lambda>e. length (fst (owned_content mem e)) < u32_bound \<and>
      length (value_payload (snd (owned_content mem e))) < u32_bound) es"
  shows "\<exists>ps. owned_ptrs es = Inr ps \<and> map (ptr_bytes mem) ps = map (\<lambda>e. entry_bytes (owned_content mem e)) es \<and>
    list_all (ptr_apart dst n) ps \<and> list_all ptr_typed ps"
  using assms
proof (induction es)
  case (Cons e es)
  from Cons.prems have "owned_apart dst n e" "length (fst (owned_content mem e)) < u32_bound"
    "length (value_payload (snd (owned_content mem e))) < u32_bound" by simp_all
  from owned_ptr_content [OF this] obtain p where p: "owned_ptr e = Inr p"
    "ptr_bytes mem p = entry_bytes (owned_content mem e)" "ptr_apart dst n p" "ptr_typed p" by blast
  from Cons obtain ps where "owned_ptrs es = Inr ps"
    "map (ptr_bytes mem) ps = map (\<lambda>e. entry_bytes (owned_content mem e)) es"
    "list_all (ptr_apart dst n) ps" "list_all ptr_typed ps" by auto
  with p show ?case by simp
qed simp

lemma ptr_typed_inline: "ptr_typed p \<Longrightarrow> ptr_inline_ok p"
  by (cases p) auto

text \<open>Encoding pointer entries that describe the entries of a flat dictionary.\<close>

lemma encode_ptrs_flat_bytes:
  assumes "list_all (ptr_apart dst (length (flat_bytes d))) ps" and "list_all ptr_typed ps"
    and bytes: "map (ptr_bytes mem) ps = map entry_bytes d" and small: "length (flat_bytes d) < u32_bound"
  shows "encode_ptrs mem dst ps = Some (Inr (store mem dst (flat_bytes d), \<lparr>vec_ptr = dst, vec_len = length (flat_bytes d)\<rparr>))"
proof -
  have inl: "list_all ptr_inline_ok ps" using assms(2) ptr_typed_inline by (auto simp: list_all_iff)
  have "length ps = length d" using arg_cong [OF bytes, of length] by simp
  then have eq: "ptrs_bytes mem ps = flat_bytes d" using bytes by (simp add: ptrs_bytes_def flat_bytes_def)
  then have len: "length (flat_bytes d) = 4 + sum_list (map ptr_len ps)"
    using length_ptrs_bytes [OF inl, of mem] by simp
  have "length ps \<le> sum_list (map ptr_len ps)" by (induction ps) auto
  then have calc: "calc_flat_dict_encoded_len ps = Inr (length (flat_bytes d))"
    using calc_entries_typed [OF assms(2), of 4] small len by (simp add: calc_flat_dict_encoded_len_def)
  have "write_flat_dict_ptrs_to_ptr mem dst ps = Some (store mem dst (flat_bytes d))"
    using write_entries_buffer [OF assms(1) inl, of "le_bytes 4 (length ps)" mem] len eq
    by (simp add: write_flat_dict_ptrs_to_ptr_def ptrs_bytes_def)
  then show ?thesis using calc by (simp add: encode_ptrs_def)
qed

text \<open>The length computation refuses typed entries whose encoding reaches four gibibytes.\<close>

lemma calc_entries_too_long:
  "list_all ptr_typed ps \<Longrightarrow> total_len < u32_bound \<Longrightarrow> u32_bound \<le> total_len + sum_list (map ptr_len ps) \<Longrightarrow>
   calc_entries ps total_len = Inl ApiUnknown"
proof (induction ps arbitrary: total_len)
  case (Cons p ps)
  obtain t kp kl v vl w where p: "p = (t, kp, kl, v, vl, w)" by (cases p) auto
  show ?case using Cons.IH [of "total_len + (4 + kl + 1 + 4 + vl)"] Cons.prems
    by (auto simp: p bytes_like_def checked_add_def)
qed simp

lemma encode_ptrs_too_long:
  assumes "list_all ptr_typed ps" and bytes: "map (ptr_bytes mem) ps = map entry_bytes d"
    and long: "u32_bound \<le> length (flat_bytes d)"
  shows "encode_ptrs mem dst ps = Some (Inl ApiUnknown)"
proof -
  have inl: "list_all ptr_inline_ok ps" using assms(1) ptr_typed_inline by (auto simp: list_all_iff)
  have "length ps = length d" using arg_cong [OF bytes, of length] by simp
  then have "ptrs_bytes mem ps = flat_bytes d" using bytes by (simp add: ptrs_bytes_def flat_bytes_def)
  then have "u32_bound \<le> 4 + sum_list (map ptr_len ps)"
    using length_ptrs_bytes [OF inl, of mem] long by simp
  then show ?thesis
    using calc_entries_too_long [OF assms(1), of 4] by (simp add: encode_ptrs_def calc_flat_dict_encoded_len_def)
qed

text \<open>C19: For every list of entries the dictionary encoder accepts, with the allocator's buffer apart
  from the entries, the pointer-based encoder of owned entries does one of two things. When the
  encoding is below four gibibytes it produces the very bytes of the dictionary encoder, in a vector
  of exactly their length, and touches no other memory. When the encoding reaches four gibibytes it
  returns an error, where the dictionary encoder has no such limit.\<close>

theorem encode_owned_equals_encode_dict:
  assumes "encode_flat_dict_bytes (map (owned_content mem) entries) = Inr bs"
    and "list_all (owned_apart dst (length bs)) entries"
  shows "if length bs < u32_bound
    then \<exists>mem'. flat_kv_encode_owned mem dst entries = Some (Inr (mem', \<lparr>vec_ptr = dst, vec_len = length bs\<rparr>)) \<and>
      load mem' dst (length bs) = bs \<and> (\<forall>a. a < dst \<or> dst + length bs \<le> a \<longrightarrow> mem' a = mem a)
    else flat_kv_encode_owned mem dst entries = Some (Inl ApiUnknown)"
proof -
  let ?d = "map (owned_content mem) entries"
  have bs: "bs = flat_bytes ?d" and "list_all (\<lambda>e. length (fst (owned_content mem e)) < u32_bound \<and>
      length (value_payload (snd (owned_content mem e))) < u32_bound) entries"
    using encode_flat_dict_flat_bytes [OF assms(1)] by (auto simp: list_all_iff)
  from owned_ptrs_content [OF assms(2) this(2)] obtain ps where ps: "owned_ptrs entries = Inr ps"
    "map (ptr_bytes mem) ps = map entry_bytes ?d" "list_all (ptr_apart dst (length bs)) ps" "list_all ptr_typed ps"
    by (auto simp: comp_def)
  show ?thesis
  proof (cases "length bs < u32_bound")
    case True
    with ps have "flat_kv_encode_owned mem dst entries = Some (Inr (store mem dst bs, \<lparr>vec_ptr = dst, vec_len = length bs\<rparr>))"
      using encode_ptrs_flat_bytes [of dst ?d ps mem] by (simp add: flat_kv_encode_owned_def bs)
    with True show ?thesis by (auto simp: store_outside)
  next
    case False
    with ps show ?thesis
      using encode_ptrs_too_long [OF ps(4,2)] by (simp add: flat_kv_encode_owned_def bs)
  qed
qed

definition sample_owned :: "owned_flat_kv_entry list" where
  "sample_owned = [\<lparr>key_utf8 = \<lparr>vec_ptr = 97, vec_len = 1\<rparr>, oe_value = OvBytes \<lparr>vec_ptr = 7, vec_len = 2\<rparr>\<rparr>]"

lemma le_bytes_numeral:
  "le_bytes (numeral n) x = of_nat x # le_bytes (pred_numeral n) (x div 256)"
  by (subst numeral_eq_Suc) (rule le_bytes.simps(2))

lemma sample_owned_content: "map (owned_content (\<lambda>a. of_nat a)) sample_owned = sample_field_dict"
  by (simp add: sample_owned_def sample_field_dict_def owned_content_def)

lemma sample_field_encode: "encode_flat_dict_bytes sample_field_dict = Inr sample_bytes"
  by (simp add: sample_field_dict_def encode_flat_dict_bytes_def encode_entries_spec entry_bytes_def
      sample_bytes_def le_bytes_numeral)

lemma sample_owned_encode:
  "encode_flat_dict_bytes (map (owned_content (\<lambda>a. of_nat a)) sample_owned) = Inr sample_bytes"
  by (simp add: sample_owned_content sample_field_encode)

theorem encode_owned_equals_encode_dict_witness:
  "\<exists>mem'. flat_kv_encode_owned (\<lambda>a. of_nat a) 200 sample_owned =
      Some (Inr (mem', \<lparr>vec_ptr = 200, vec_len = length sample_bytes\<rparr>)) \<and>
    load mem' 200 (length sample_bytes) = sample_bytes \<and>
    (\<forall>a. a < 200 \<or> 200 + length sample_bytes \<le> a \<longrightarrow> mem' a = of_nat a)"
  using encode_owned_equals_encode_dict [OF sample_owned_encode, of 200]
  by (simp add: sample_owned_def sample_bytes_def owned_apart_def apart_def)

end
