(* ===== verification/Flat_Dlpack.thy ===== *)
theory Flat_Dlpack
  imports Flat_Writer "HOL-Library.AList"
begin

text \<open>
  Dictionaries with tensors (\<open>fluxon_pyo3/src/flatdict_zerocopy.rs\<close>): a tensor travels as a byte
  field, and one reserved field carries the element type and shape of every tensor. The Python
  objects enter as the data the code extracts from them (a string, bytes object or tensor is an
  address and a length or shape in memory) and leave as the objects the code builds from the
  encoded value; a Python dictionary is an association list in insertion order.
\<close>

declare map_of_eq_Some_iff [simp del] Some_eq_map_of_iff [simp del]

section \<open>Data\<close>

definition INTERNAL_DLPACK_META_KEY :: "u8 list" where
  "INTERNAL_DLPACK_META_KEY = map of_char ''__fluxon_internal_dlpack_meta__''"

abbreviation DLPACK_DEVICE_CPU :: int where "DLPACK_DEVICE_CPU \<equiv> 1"

record dlpack_meta_entry =
  dm_key_utf8 :: "u8 list"
  dm_dtype_code :: u8
  dm_bits :: u8
  dm_lanes :: nat
  dm_shape :: "i64 list"

record decoded_dlpack_meta =
  dd_dtype_code :: u8
  dd_bits :: u8
  dd_lanes :: nat
  dd_shape :: "i64 list"
  dd_nbytes :: usize

record flat_dict_dlpack_view =
  vw_data_offset :: usize
  vw_nbytes :: usize
  vw_dtype_code :: u8
  vw_bits :: u8
  vw_lanes :: nat
  vw_shape :: "i64 list"

text \<open>A tensor as its exporter describes it; the shape and stride pointers are null or point to at
  least \<open>ndim\<close> numbers.\<close>

record dlpack_tensor =
  dt_data :: usize
  dt_device_type :: int
  dt_ndim :: int
  dt_code :: u8
  dt_bits :: u8
  dt_lanes :: nat
  dt_shape :: "i64 list option"
  dt_strides :: "i64 list option"
  dt_byte_offset :: u64

section \<open>Tensor sizes\<close>

fun dlpack_numel :: "kv_error \<Rightarrow> i64 list \<Rightarrow> u64 \<Rightarrow> kv_error + u64" where
  "dlpack_numel err [] numel = Inr numel"
| "dlpack_numel err (dim # shape) numel =
     (if dim < 0 then Inl err
      else case checked_mul u64_bound numel (nat dim) of
             None \<Rightarrow> Inl err
           | Some numel \<Rightarrow> dlpack_numel err shape numel)"

definition dlpack_itemsize :: "kv_error \<Rightarrow> u8 \<Rightarrow> nat \<Rightarrow> u64 \<Rightarrow> kv_error + u64" where
  "dlpack_itemsize err bits lanes numel =
     (case checked_mul u64_bound (unat bits div 8) lanes of
        None \<Rightarrow> Inl err
      | Some itemsize \<Rightarrow>
          (case checked_mul u64_bound numel itemsize of None \<Rightarrow> Inl err | Some nbytes \<Rightarrow> Inr nbytes))"

definition calc_dlpack_nbytes :: "u8 \<Rightarrow> nat \<Rightarrow> i64 list \<Rightarrow> kv_error + usize" where
  "calc_dlpack_nbytes bits lanes shape =
     (if bits = 0 \<or> unat bits mod 8 \<noteq> 0 then Inl InvalidArgument
      else if lanes = 0 then Inl InvalidArgument
      else and_then (dlpack_numel InvalidArgument shape 1) (\<lambda>numel.
        dlpack_itemsize InvalidArgument bits lanes numel))"

fun contiguous_from :: "(i64 \<times> i64) list \<Rightarrow> i64 \<Rightarrow> bool" where
  "contiguous_from [] expected = True"
| "contiguous_from ((dim, stride) # rest) expected =
     (if dim = 0 then True
      else if 1 < dim \<and> stride \<noteq> expected then False
      else if i64_ok (expected * dim) then contiguous_from rest (expected * dim)
      else False)"

definition is_c_contiguous_dlpack :: "i64 list \<Rightarrow> i64 list \<Rightarrow> bool" where
  "is_c_contiguous_dlpack shape strides =
     (if length shape \<noteq> length strides then False else contiguous_from (zip (rev shape) (rev strides)) 1)"

text \<open>The part of \<open>extract_py_dlpack_encode_field\<close> that reads the tensor of a valid capsule.\<close>

definition extract_dlpack_field ::
  "u8 list \<Rightarrow> dlpack_tensor \<Rightarrow> kv_error + usize \<times> u32 \<times> dlpack_meta_entry" where
  "extract_dlpack_field key tensor =
     (if dt_device_type tensor \<noteq> DLPACK_DEVICE_CPU then Inl ApiUnknown
      else if dt_byte_offset tensor \<noteq> 0 then Inl ApiUnknown
      else if dt_ndim tensor < 0 then Inl ApiUnknown
      else if 0 < dt_ndim tensor \<and> dt_shape tensor = None then Inl ApiUnknown
      else
        let shape = (case dt_shape tensor of None \<Rightarrow> [] | Some s \<Rightarrow> take (nat (dt_ndim tensor)) s) in
        and_then (dlpack_numel ApiUnknown shape 1) (\<lambda>numel.
        if dt_bits tensor = 0 \<or> unat (dt_bits tensor) mod 8 \<noteq> 0 then Inl ApiUnknown
        else if dt_lanes tensor = 0 then Inl ApiUnknown
        else and_then (dlpack_itemsize ApiUnknown (dt_bits tensor) (dt_lanes tensor) numel) (\<lambda>nbytes.
        if u32_bound - 1 < nbytes then Inl ApiUnknown
        else if (case dt_strides tensor of
                   None \<Rightarrow> False
                 | Some s \<Rightarrow> \<not> is_c_contiguous_dlpack shape (take (length shape) s)) then Inl ApiUnknown
        else if dt_data tensor = 0 \<and> nbytes \<noteq> 0 then Inl ApiUnknown
        else Inr (dt_data tensor, nbytes,
          \<lparr>dm_key_utf8 = key, dm_dtype_code = dt_code tensor, dm_bits = dt_bits tensor,
           dm_lanes = dt_lanes tensor, dm_shape = shape\<rparr>))))"

section \<open>The reserved field\<close>

fun encode_meta_entries :: "dlpack_meta_entry list \<Rightarrow> u8 list \<Rightarrow> kv_error + u8 list" where
  "encode_meta_entries [] out = Inr out"
| "encode_meta_entries (entry # entries) out =
     and_then (u32_try_from (length (dm_key_utf8 entry))) (\<lambda>key_len.
     and_then (u32_try_from (length (dm_shape entry))) (\<lambda>ndim.
     encode_meta_entries entries
       (out @ le_bytes 4 key_len @ dm_key_utf8 entry @ [dm_dtype_code entry] @ [dm_bits entry] @
        le_bytes 2 (dm_lanes entry) @ le_bytes 4 ndim @
        concat (map (\<lambda>dim. le_bytes 8 (i64_bits dim)) (dm_shape entry)))))"

definition encode_dlpack_meta_entries :: "dlpack_meta_entry list \<Rightarrow> kv_error + u8 list" where
  "encode_dlpack_meta_entries entries =
     and_then (u32_try_from (length entries)) (\<lambda>count. encode_meta_entries entries (le_bytes 4 count))"

definition read_dim :: "u8 list \<Rightarrow> usize \<Rightarrow> kv_error + i64 \<times> usize" where
  "read_dim data pos =
     (if length data < pos + 8 then Inl InvalidArgument
      else Inr (i64_of_bits (le_nat (data_slice data pos 8)), pos + 8))"

text \<open>One round of the decoding loop, up to the insertion. The vector of dimensions is reserved for the
  number the data claims, which has 32 bits: its capacity cannot overflow, but memory may not suffice.\<close>

definition read_meta :: "u8 list \<Rightarrow> usize \<Rightarrow> kv_error + (u8 list \<times> decoded_dlpack_meta) \<times> usize" where
  "read_meta data pos =
     (if length data < pos + 4 then Inl InvalidArgument else
      let key_len = le_nat (data_slice data pos 4); pos = pos + 4 in
      if length data < pos + key_len then Inl InvalidArgument else
      let key = data_slice data pos key_len in
      if \<not> valid_utf8 key then Inl InvalidArgument else
      let pos = pos + key_len in
      if length data < pos + 8 then Inl InvalidArgument else
      let dtype_code = data ! pos; bits = data ! (pos + 1);
          lanes = le_nat (data_slice data (pos + 2) 2); ndim = le_nat (data_slice data (pos + 4) 4) in
      and_then (read_n (read_dim data) ndim (pos + 8)) (\<lambda>(shape, pos).
      and_then (calc_dlpack_nbytes bits lanes shape) (\<lambda>nbytes.
      Inr ((key, \<lparr>dd_dtype_code = dtype_code, dd_bits = bits, dd_lanes = lanes, dd_shape = shape,
                  dd_nbytes = nbytes\<rparr>), pos))))"

primrec decode_metas ::
  "u8 list \<Rightarrow> nat \<Rightarrow> usize \<Rightarrow> (u8 list \<times> decoded_dlpack_meta) list \<Rightarrow>
   kv_error + (u8 list \<times> decoded_dlpack_meta) list \<times> usize" where
  "decode_metas data 0 pos out = Inr (out, pos)"
| "decode_metas data (Suc n) pos out =
     and_then (read_meta data pos) (\<lambda>((key, meta), pos).
     let previous = map_of out key; out = btree_insert key meta out in
     if previous \<noteq> None then Inl InvalidArgument else decode_metas data n pos out)"

definition decode_dlpack_meta :: "u8 list \<Rightarrow> kv_error + (u8 list \<times> decoded_dlpack_meta) list" where
  "decode_dlpack_meta data =
     (if length data < 4 then Inl InvalidArgument
      else and_then (decode_metas data (le_nat (data_slice data 0 4)) 4 []) (\<lambda>(out, pos).
        if pos \<noteq> length data then Inl InvalidArgument else Inr out))"

section \<open>Building and encoding a plan\<close>

datatype py_value =
    PvBool bool
  | PvInt int
  | PvFloat f64
  | PvStr vec
  | PvBytes vec
  | PvDlpack dlpack_tensor
  | PvOther

record flat_dict_encode_plan =
  pl_ptrs :: "flat_ptr list"
  pl_dlpack_meta_entries :: "dlpack_meta_entry list"

definition push_inline_entry ::
  "flat_dict_encode_plan \<Rightarrow> u8 \<Rightarrow> vec \<Rightarrow> u64 \<Rightarrow> u32 \<Rightarrow> kv_error + flat_dict_encode_plan" where
  "push_inline_entry plan type_id key inline_value value_len =
     and_then (u32_try_from (vec_len key)) (\<lambda>key_len.
     Inr (plan\<lparr>pl_ptrs := pl_ptrs plan @ [(type_id, vec_ptr key, key_len, inline_value, value_len, None)]\<rparr>))"

definition push_owned_bytes_entry ::
  "flat_dict_encode_plan \<Rightarrow> u8 \<Rightarrow> vec \<Rightarrow> vec \<Rightarrow> kv_error + flat_dict_encode_plan" where
  "push_owned_bytes_entry plan type_id key value_bytes =
     and_then (u32_try_from (vec_len key)) (\<lambda>key_len.
     and_then (u32_try_from (vec_len value_bytes)) (\<lambda>value_len.
     Inr (plan\<lparr>pl_ptrs := pl_ptrs plan @ [(type_id, vec_ptr key, key_len, vec_ptr value_bytes, value_len, None)]\<rparr>)))"

definition push_borrowed_bytes_entry ::
  "flat_dict_encode_plan \<Rightarrow> u8 \<Rightarrow> vec \<Rightarrow> usize \<Rightarrow> u32 \<Rightarrow> kv_error + flat_dict_encode_plan" where
  "push_borrowed_bytes_entry plan type_id key value_ptr value_len =
     and_then (u32_try_from (vec_len key)) (\<lambda>key_len.
     Inr (plan\<lparr>pl_ptrs := pl_ptrs plan @ [(type_id, vec_ptr key, key_len, value_ptr, value_len, None)]\<rparr>))"

definition add_py_field ::
  "memory \<Rightarrow> flat_dict_encode_plan \<Rightarrow> vec \<Rightarrow> py_value \<Rightarrow> kv_error + flat_dict_encode_plan" where
  "add_py_field mem plan key_vec value =
     (let key = load mem (vec_ptr key_vec) (vec_len key_vec) in
      if key = INTERNAL_DLPACK_META_KEY then Inl ApiUnknown
      else case value of
        PvBool b \<Rightarrow> push_inline_entry plan FLAT_KV_TYPE_BOOL key_vec (if b then 1 else 0) 1
      | PvInt i \<Rightarrow> if \<not> i64_ok i then Inl ApiUnknown
          else push_inline_entry plan FLAT_KV_TYPE_INT64 key_vec (i64_bits i) 8
      | PvFloat f \<Rightarrow> push_inline_entry plan FLAT_KV_TYPE_FLOAT64 key_vec (unat f) 8
      | PvStr s \<Rightarrow> push_owned_bytes_entry plan FLAT_KV_TYPE_STRING key_vec s
      | PvBytes b \<Rightarrow> and_then (u32_try_from (vec_len b)) (\<lambda>value_len.
          push_borrowed_bytes_entry plan FLAT_KV_TYPE_BYTES key_vec (vec_ptr b) value_len)
      | PvDlpack tensor \<Rightarrow> and_then (extract_dlpack_field key tensor) (\<lambda>(data_ptr, nbytes, meta_entry).
          push_borrowed_bytes_entry
            (plan\<lparr>pl_dlpack_meta_entries := pl_dlpack_meta_entries plan @ [meta_entry]\<rparr>)
            FLAT_KV_TYPE_BYTES key_vec data_ptr nbytes)
      | PvOther \<Rightarrow> Inl ApiUnknown)"

fun add_py_fields ::
  "memory \<Rightarrow> flat_dict_encode_plan \<Rightarrow> (vec \<times> py_value) list \<Rightarrow> kv_error + flat_dict_encode_plan" where
  "add_py_fields mem plan [] = Inr plan"
| "add_py_fields mem plan ((key, value) # py_fields) =
     and_then (add_py_field mem plan key value) (\<lambda>plan. add_py_fields mem plan py_fields)"

definition build_py_flat_dict_encode_plan ::
  "memory \<Rightarrow> (vec \<times> py_value) list \<Rightarrow> kv_error + flat_dict_encode_plan" where
  "build_py_flat_dict_encode_plan mem py_fields =
     add_py_fields mem \<lparr>pl_ptrs = [], pl_dlpack_meta_entries = []\<rparr> py_fields"

text \<open>\<open>FlatDictEncodePlan::encode\<close>: \<open>meta_key_ptr\<close>, \<open>meta_ptr\<close> and \<open>dst\<close> are the addresses of the three
  vectors it allocates, for the reserved key, its payload and the result.\<close>

definition plan_encode ::
  "memory \<Rightarrow> usize \<Rightarrow> usize \<Rightarrow> usize \<Rightarrow> flat_dict_encode_plan \<Rightarrow> (kv_error + memory \<times> vec) option" where
  "plan_encode mem meta_key_ptr meta_ptr dst plan =
     (if pl_dlpack_meta_entries plan \<noteq> [] then
        case encode_dlpack_meta_entries (pl_dlpack_meta_entries plan) of
          Inl e \<Rightarrow> Some (Inl e)
        | Inr payload \<Rightarrow>
            let mem = store (store mem meta_key_ptr INTERNAL_DLPACK_META_KEY) meta_ptr payload in
            (case push_owned_bytes_entry plan FLAT_KV_TYPE_BYTES
                    \<lparr>vec_ptr = meta_key_ptr, vec_len = length INTERNAL_DLPACK_META_KEY\<rparr>
                    \<lparr>vec_ptr = meta_ptr, vec_len = length payload\<rparr> of
               Inl e \<Rightarrow> Some (Inl e)
             | Inr plan \<Rightarrow> encode_ptrs mem dst (pl_ptrs plan))
      else encode_ptrs mem dst (pl_ptrs plan))"

section \<open>Decoding to Python objects\<close>

datatype py_object =
    PoBool bool
  | PoInt i64
  | PoFloat f64
  | PoStr "u8 list"
  | PoBytes "u8 list"
  | PoDlpackView flat_dict_dlpack_view

definition range_slice :: "u8 list \<Rightarrow> usize \<Rightarrow> usize \<Rightarrow> kv_error + u8 list" where
  "range_slice data start len =
     (case checked_add u64_bound start len of
        None \<Rightarrow> Inl InvalidArgument
      | Some e \<Rightarrow> if length data < e then Inl InvalidArgument else Inr (data_slice data start (e - start)))"

fun scan_meta ::
  "u8 list \<Rightarrow> borrowed_flat_kv_entry list \<Rightarrow> (u8 list \<times> decoded_dlpack_meta) list option \<Rightarrow>
   kv_error + (u8 list \<times> decoded_dlpack_meta) list option" where
  "scan_meta data [] dlpack_meta = Inr dlpack_meta"
| "scan_meta data (item # items) dlpack_meta =
     (if be_key item \<noteq> INTERNAL_DLPACK_META_KEY then scan_meta data items dlpack_meta
      else if dlpack_meta \<noteq> None then Inl InvalidArgument
      else case be_value item of
             BvBytesRange start len \<Rightarrow>
               and_then (range_slice data start len) (\<lambda>meta_bytes.
               and_then (decode_dlpack_meta meta_bytes) (\<lambda>meta.
               scan_meta data items (Some meta)))
           | _ \<Rightarrow> Inl InvalidArgument)"

text \<open>The \<open>match item.value\<close>: the object, and whether it is a wrapped tensor.\<close>

definition wrap_value ::
  "u8 list \<Rightarrow> (u8 list \<times> decoded_dlpack_meta) list option \<Rightarrow> u8 list \<Rightarrow> borrowed_flat_kv_value_range \<Rightarrow>
   kv_error + py_object \<times> bool" where
  "wrap_value data dlpack_meta key v =
     (case v of
        BvBool b \<Rightarrow> Inr (PoBool b, False)
      | BvInt64 i \<Rightarrow> Inr (PoInt i, False)
      | BvFloat64 f \<Rightarrow> Inr (PoFloat f, False)
      | BvString s \<Rightarrow> Inr (PoStr s, False)
      | BvBytesRange start len \<Rightarrow>
          (case Option.bind dlpack_meta (\<lambda>all_meta. map_of all_meta key) of
             Some meta \<Rightarrow>
               if len \<noteq> dd_nbytes meta then Inl InvalidArgument
               else and_then (range_slice data start len) (\<lambda>_.
                 Inr (PoDlpackView \<lparr>vw_data_offset = start, vw_nbytes = len,
                   vw_dtype_code = dd_dtype_code meta, vw_bits = dd_bits meta,
                   vw_lanes = dd_lanes meta, vw_shape = dd_shape meta\<rparr>, True))
           | None \<Rightarrow> and_then (range_slice data start len) (\<lambda>bs. Inr (PoBytes bs, False))))"

fun wrap_items ::
  "u8 list \<Rightarrow> (u8 list \<times> decoded_dlpack_meta) list option \<Rightarrow> borrowed_flat_kv_entry list \<Rightarrow>
   (u8 list \<times> py_object) list \<Rightarrow> u8 list list \<Rightarrow> kv_error + (u8 list \<times> py_object) list \<times> u8 list list" where
  "wrap_items data dlpack_meta [] dict wrapped_tensor_keys = Inr (dict, wrapped_tensor_keys)"
| "wrap_items data dlpack_meta (item # items) dict wrapped_tensor_keys =
     (if be_key item = INTERNAL_DLPACK_META_KEY
      then wrap_items data dlpack_meta items dict wrapped_tensor_keys
      else and_then (wrap_value data dlpack_meta (be_key item) (be_value item)) (\<lambda>(value_obj, wrapped).
        wrap_items data dlpack_meta items (AList.update (be_key item) value_obj dict)
          (if wrapped then List.insert (be_key item) wrapped_tensor_keys else wrapped_tensor_keys)))"

definition decode_flat_dict_to_wrapped_py_object :: "u8 list \<Rightarrow> kv_error + (u8 list \<times> py_object) list" where
  "decode_flat_dict_to_wrapped_py_object data =
     and_then (invalid_arg (flat_kv_decode_borrowed data)) (\<lambda>items.
     and_then (scan_meta data items None) (\<lambda>dlpack_meta.
     and_then (wrap_items data dlpack_meta items [] []) (\<lambda>(dict, wrapped_tensor_keys).
     case dlpack_meta of
       None \<Rightarrow> Inr dict
     | Some meta \<Rightarrow>
         if list_all (\<lambda>(meta_key, _). meta_key \<in> set wrapped_tensor_keys) meta
         then Inr dict else Inl InvalidArgument)))"

section \<open>Sizes\<close>

lemma dlpack_numel_Inr:
  "dlpack_numel err shape n = Inr r \<Longrightarrow> r = n * prod_list (map nat shape)"
proof (induction shape arbitrary: n)
  case (Cons dim shape)
  then show ?case using Cons.IH [of "n * nat dim"]
    by (auto simp: checked_mul_def mult.assoc split: if_splits)
qed simp

lemma dlpack_numel_err: "dlpack_numel err shape n = Inr r \<Longrightarrow> dlpack_numel err' shape n = Inr r"
  by (induction shape arbitrary: n) (auto split: if_splits option.splits)

lemma dlpack_itemsize_Inr:
  "dlpack_itemsize err bits lanes n = Inr r \<longleftrightarrow>
     r = n * (unat bits div 8 * lanes) \<and> unat bits div 8 * lanes < u64_bound \<and> n * (unat bits div 8 * lanes) < u64_bound"
  by (auto simp: dlpack_itemsize_def checked_mul_def)

definition tensor_shape :: "dlpack_tensor \<Rightarrow> i64 list" where
  "tensor_shape t = (case dt_shape t of None \<Rightarrow> [] | Some s \<Rightarrow> take (nat (dt_ndim t)) s)"

definition tensor_nbytes :: "dlpack_tensor \<Rightarrow> nat" where
  "tensor_nbytes t = prod_list (map nat (tensor_shape t)) * (unat (dt_bits t) div 8 * dt_lanes t)"

definition tensor_meta :: "u8 list \<Rightarrow> dlpack_tensor \<Rightarrow> dlpack_meta_entry" where
  "tensor_meta key t = \<lparr>dm_key_utf8 = key, dm_dtype_code = dt_code t, dm_bits = dt_bits t,
     dm_lanes = dt_lanes t, dm_shape = tensor_shape t\<rparr>"

lemma extract_Inr:
  assumes "extract_dlpack_field key t = Inr (ptr, n, meta)"
  shows "ptr = dt_data t \<and> n = tensor_nbytes t \<and> meta = tensor_meta key t \<and> n < u32_bound \<and>
    calc_dlpack_nbytes (dt_bits t) (dt_lanes t) (tensor_shape t) = Inr (tensor_nbytes t)"
proof -
  obtain numel where numel: "dlpack_numel ApiUnknown (tensor_shape t) 1 = Inr numel"
    and item: "dlpack_itemsize ApiUnknown (dt_bits t) (dt_lanes t) numel = Inr n"
    and ok: "dt_bits t \<noteq> 0" "unat (dt_bits t) mod 8 = 0" "dt_lanes t \<noteq> 0" "n < u32_bound"
    and res: "ptr = dt_data t" "meta = tensor_meta key t"
    using assms by (auto simp: extract_dlpack_field_def Let_def tensor_shape_def tensor_meta_def result_iff
        split: if_splits)
  have n: "n = tensor_nbytes t"
    using item dlpack_numel_Inr [OF numel] by (simp add: dlpack_itemsize_Inr tensor_nbytes_def)
  have "dlpack_itemsize InvalidArgument (dt_bits t) (dt_lanes t) numel = Inr n"
    using item by (simp add: dlpack_itemsize_Inr)
  then show ?thesis using dlpack_numel_err [OF numel, of InvalidArgument] ok res n
    by (simp add: calc_dlpack_nbytes_def)
qed

section \<open>The reserved field round trip\<close>

definition dim_bytes :: "i64 \<Rightarrow> u8 list" where
  "dim_bytes dim = le_bytes 8 (i64_bits dim)"

lemma read_dim_enc:
  "i64_ok x \<Longrightarrow> read_dim (pre @ dim_bytes x @ suf) (length pre) = Inr (x, length pre + length (dim_bytes x))"
  using i64_bits_bound [of x] by (simp add: read_dim_def dim_bytes_def data_slice_mid i64_of_bits_bits)

interpretation meta_dim: item_format dim_bytes read_dim i64_ok "\<lambda>_ x. x"
  by unfold_locales (rule read_dim_enc)

lemma meta_dim_views [simp]: "meta_dim.views pos xs = xs"
  by (induction xs arbitrary: pos) auto

definition meta_bytes :: "dlpack_meta_entry \<Rightarrow> u8 list" where
  "meta_bytes e = le_bytes 4 (length (dm_key_utf8 e)) @ dm_key_utf8 e @ [dm_dtype_code e, dm_bits e] @
     le_bytes 2 (dm_lanes e) @ le_bytes 4 (length (dm_shape e)) @ concat (map dim_bytes (dm_shape e))"

definition meta_nbytes :: "dlpack_meta_entry \<Rightarrow> nat" where
  "meta_nbytes e = prod_list (map nat (dm_shape e)) * (unat (dm_bits e) div 8 * dm_lanes e)"

definition meta_ok :: "dlpack_meta_entry \<Rightarrow> bool" where
  "meta_ok e \<longleftrightarrow> valid_utf8 (dm_key_utf8 e) \<and> length (dm_key_utf8 e) < u32_bound \<and> dm_lanes e < 65536 \<and>
     length (dm_shape e) < u32_bound \<and> list_all i64_ok (dm_shape e) \<and>
     calc_dlpack_nbytes (dm_bits e) (dm_lanes e) (dm_shape e) = Inr (meta_nbytes e)"

definition decoded_meta :: "dlpack_meta_entry \<Rightarrow> u8 list \<times> decoded_dlpack_meta" where
  "decoded_meta e = (dm_key_utf8 e, \<lparr>dd_dtype_code = dm_dtype_code e, dd_bits = dm_bits e,
     dd_lanes = dm_lanes e, dd_shape = dm_shape e, dd_nbytes = meta_nbytes e\<rparr>)"

lemma read_meta_enc:
  assumes "meta_ok e"
  shows "read_meta (pre @ meta_bytes e @ suf) (length pre) = Inr (decoded_meta e, length pre + length (meta_bytes e))"
proof -
  define k where "k = dm_key_utf8 e"
  define s where "s = dm_shape e"
  define n where "n = length pre"
  let ?t = "[dm_dtype_code e, dm_bits e]"
  let ?l = "le_bytes 2 (dm_lanes e)"
  let ?S = "concat (map dim_bytes s)"
  have ok: "valid_utf8 k" "length k < u32_bound" "dm_lanes e < 65536" "length s < u32_bound" "\<forall>x \<in> set s. i64_ok x"
    "calc_dlpack_nbytes (dm_bits e) (dm_lanes e) s = Inr (meta_nbytes e)"
    using assms by (simp_all add: meta_ok_def k_def s_def list_all_iff)
  define d where "d = pre @ le_bytes 4 (length k) @ k @ ?t @ ?l @ le_bytes 4 (length s) @ ?S @ suf"
  have eq: "pre @ meta_bytes e @ suf = d" by (simp add: d_def meta_bytes_def k_def s_def)
  have len: "n + 4 + length k + 8 \<le> length d" by (simp add: d_def n_def)
  have kl: "le_nat (data_slice d n 4) = length k"
    using data_slice_mid [of n pre 4 "le_bytes 4 (length k)"] ok by (simp add: d_def n_def)
  have key: "data_slice d (n + 4) (length k) = k"
    using data_slice_mid [of "n + 4" "pre @ le_bytes 4 (length k)" "length k" k] by (simp add: d_def n_def)
  have ty: "d ! (n + 4 + length k) = dm_dtype_code e" "d ! (n + 4 + length k + 1) = dm_bits e"
    using nth_append_length [of "pre @ le_bytes 4 (length k) @ k" "dm_dtype_code e"]
      nth_append_length [of "pre @ le_bytes 4 (length k) @ k @ [dm_dtype_code e]" "dm_bits e"]
    by (simp_all add: d_def n_def ac_simps)
  have la: "le_nat (data_slice d (n + 4 + length k + 2) 2) = dm_lanes e"
    using data_slice_mid [of "n + 4 + length k + 2" "pre @ le_bytes 4 (length k) @ k @ ?t" 2 ?l] ok
    by (simp add: d_def n_def)
  have nd: "le_nat (data_slice d (n + 4 + length k + 4) 4) = length s"
    using data_slice_mid [of "n + 4 + length k + 4" "pre @ le_bytes 4 (length k) @ k @ ?t @ ?l" 4 "le_bytes 4 (length s)"] ok
    by (simp add: d_def n_def)
  have sh: "read_n (read_dim d) (length s) (n + 4 + length k + 8) = Inr (s, n + 4 + length k + 8 + length ?S)"
    using meta_dim.read_n_enc [OF ok(5), of "pre @ le_bytes 4 (length k) @ k @ ?t @ ?l @ le_bytes 4 (length s)" suf]
    by (simp add: d_def n_def ac_simps)
  have "read_meta d n = Inr (decoded_meta e, n + 4 + length k + 8 + length ?S)"
    using len ok sh unfolding read_meta_def Let_def kl key ty la nd
    by (simp add: decoded_meta_def k_def s_def)
  moreover have "length (meta_bytes e) = 12 + length k + length ?S" by (simp add: meta_bytes_def k_def s_def)
  ultimately show ?thesis by (simp add: eq n_def ac_simps)
qed

interpretation meta_item: item_format meta_bytes read_meta meta_ok "\<lambda>_. decoded_meta"
  by unfold_locales (rule read_meta_enc)

lemma meta_item_views [simp]: "meta_item.views pos xs = map decoded_meta xs"
  by (induction xs arbitrary: pos) auto

lemma decode_metas_collect:
  assumes "read_n (read_meta data) n pos = Inr (ms, q)" and "distinct (map fst ms)"
    and "set (map fst ms) \<inter> set (map fst out) = {}"
  shows "decode_metas data n pos out = Inr (fold (\<lambda>(k, v). btree_insert k v) ms out, q)"
  using assms
proof (induction n arbitrary: pos ms out)
  case (Suc n)
  then obtain k m p ms' where r: "read_meta data pos = Inr ((k, m), p)" "read_n (read_meta data) n p = Inr (ms', q)"
    "ms = (k, m) # ms'" by (auto simp: result_iff)
  have "map_of out k = None" using Suc.prems(3) r(3) by (auto simp: map_of_eq_None_iff)
  moreover have "set (map fst ms') \<inter> set (map fst (btree_insert k m out)) = {}"
    using Suc.prems r(3) unfolding btree_insert_fst by auto
  ultimately show ?case using r Suc.IH [OF r(2), of "btree_insert k m out"] Suc.prems(2) by (simp add: Let_def)
qed simp

lemma btree_collect_lookup:
  "btree_ok m \<Longrightarrow> btree_ok (fold (\<lambda>(k, v). btree_insert k v) es m) \<and>
   map_of (fold (\<lambda>(k, v). btree_insert k v) es m) = fold (\<lambda>(k, v) f. f(k \<mapsto> v)) es (map_of m)"
proof (induction es arbitrary: m)
  case (Cons e es)
  show ?case using Cons.IH [OF btree_insert_ok [OF Cons.prems, of "fst e" "snd e"]] Cons.prems
    by (cases e) (simp add: btree_lookup_insert)
qed simp

lemma fold_fun_upd_distinct:
  "distinct (map fst es) \<Longrightarrow> fold (\<lambda>(k, v) f. f(k \<mapsto> v)) es g = g ++ map_of es"
proof (induction es arbitrary: g)
  case (Cons e es)
  then have "map_of es (fst e) = None" by (auto simp: map_of_eq_None_iff)
  then show ?case using Cons by (cases e) (auto simp: fun_eq_iff map_add_def split: option.splits)
qed simp

definition meta_payload :: "dlpack_meta_entry list \<Rightarrow> u8 list" where
  "meta_payload metas = le_bytes 4 (length metas) @ concat (map meta_bytes metas)"

lemma encode_meta_entries_spec:
  assumes "list_all (\<lambda>e. length (dm_key_utf8 e) < u32_bound \<and> length (dm_shape e) < u32_bound) es"
  shows "encode_meta_entries es out = Inr (out @ concat (map meta_bytes es))"
  using assms
proof (induction es arbitrary: out)
  case (Cons e es)
  then show ?case by (simp add: u32_try_from_def meta_bytes_def [of e] dim_bytes_def [abs_def])
qed simp

lemma decode_meta_payload:
  assumes "list_all meta_ok ms" and "distinct (map dm_key_utf8 ms)" and "length ms < u32_bound"
  shows "\<exists>out. decode_dlpack_meta (meta_payload ms) = Inr out \<and> map_of out = map_of (map decoded_meta ms) \<and>
    set (map fst out) = set (map dm_key_utf8 ms)"
proof -
  let ?d = "meta_payload ms"
  let ?out = "fold (\<lambda>(k, v). btree_insert k v) (map decoded_meta ms) []"
  have "le_nat (data_slice ?d 0 4) = length ms"
    using data_slice_mid [of 0 "[]" 4 "le_bytes 4 (length ms)"] assms(3) by (simp add: meta_payload_def)
  moreover have read: "read_n (read_meta ?d) (length ms) 4 = Inr (map decoded_meta ms, length ?d)"
    using meta_item.read_n_enc [of ms "le_bytes 4 (length ms)" "[]"] assms(1)
    by (simp add: meta_payload_def list_all_iff)
  have fst: "map fst (map decoded_meta ms) = map dm_key_utf8 ms" by (simp add: decoded_meta_def)
  have dist: "distinct (map fst (map decoded_meta ms))" unfolding fst by (rule assms(2))
  have "decode_metas ?d (length ms) 4 [] = Inr (?out, length ?d)"
    by (rule decode_metas_collect [OF read dist]) simp
  moreover have "\<not> length ?d < 4" by (simp add: meta_payload_def)
  ultimately have "decode_dlpack_meta ?d = Inr ?out" by (simp add: decode_dlpack_meta_def)
  moreover have lookup: "map_of ?out = map_of (map decoded_meta ms)"
    using btree_collect_lookup [of "[]" "map decoded_meta ms"] fold_fun_upd_distinct [OF dist, of Map.empty] by simp
  moreover have "set (map fst ?out) = set (map dm_key_utf8 ms)"
    using arg_cong [OF lookup, of dom] unfolding fst [symmetric] by (simp add: dom_map_of_conv_image_fst image_image)
  ultimately show ?thesis by blast
qed

section \<open>Fields and their entries\<close>

fun py_content :: "memory \<Rightarrow> py_value \<Rightarrow> flat_value" where
  "py_content mem (PvBool b) = FvBool b"
| "py_content mem (PvInt i) = FvInt64 i"
| "py_content mem (PvFloat f) = FvFloat64 f"
| "py_content mem (PvStr s) = FvString (load mem (vec_ptr s) (vec_len s))"
| "py_content mem (PvBytes b) = FvBytes (load mem (vec_ptr b) (vec_len b))"
| "py_content mem (PvDlpack t) = FvBytes (load mem (dt_data t) (tensor_nbytes t))"
| "py_content mem PvOther = FvBytes []"

definition field_key :: "memory \<Rightarrow> vec \<times> py_value \<Rightarrow> u8 list" where
  "field_key mem f = load mem (vec_ptr (fst f)) (vec_len (fst f))"

definition field_entry :: "memory \<Rightarrow> vec \<times> py_value \<Rightarrow> u8 list \<times> flat_value" where
  "field_entry mem f = (field_key mem f, py_content mem (snd f))"

definition field_metas :: "memory \<Rightarrow> vec \<times> py_value \<Rightarrow> dlpack_meta_entry list" where
  "field_metas mem f = (case snd f of PvDlpack t \<Rightarrow> [tensor_meta (field_key mem f) t] | _ \<Rightarrow> [])"

text \<open>The memory a value is read from: an address and a length.\<close>

fun value_source :: "py_value \<Rightarrow> nat \<times> nat" where
  "value_source (PvStr s) = (vec_ptr s, vec_len s)"
| "value_source (PvBytes b) = (vec_ptr b, vec_len b)"
| "value_source (PvDlpack t) = (dt_data t, tensor_nbytes t)"
| "value_source v = (0, 0)"

definition field_apart :: "nat \<Rightarrow> nat \<Rightarrow> vec \<times> py_value \<Rightarrow> bool" where
  "field_apart dst n f \<longleftrightarrow> apart (vec_ptr (fst f)) (vec_len (fst f)) dst n \<and>
     (case value_source (snd f) of (a, m) \<Rightarrow> apart a m dst n)"

text \<open>What Python and the tensor exporter guarantee of a field: strings are UTF-8, addresses are
  64-bit, a tensor has 16-bit lanes and 64-bit dimensions.\<close>

fun py_value_ok :: "memory \<Rightarrow> py_value \<Rightarrow> bool" where
  "py_value_ok mem (PvStr s) = (vec_ptr s < u64_bound \<and> valid_utf8 (load mem (vec_ptr s) (vec_len s)))"
| "py_value_ok mem (PvBytes b) = (vec_ptr b < u64_bound)"
| "py_value_ok mem (PvDlpack t) = (dt_data t < u64_bound \<and> dt_lanes t < 65536 \<and> list_all i64_ok (tensor_shape t))"
| "py_value_ok mem v = True"

definition py_field_ok :: "memory \<Rightarrow> vec \<times> py_value \<Rightarrow> bool" where
  "py_field_ok mem f \<longleftrightarrow> valid_utf8 (field_key mem f) \<and> py_value_ok mem (snd f)"

text \<open>An accepted field: its entry can be encoded, and its tensor description is valid.\<close>

definition field_accepted :: "memory \<Rightarrow> vec \<times> py_value \<Rightarrow> bool" where
  "field_accepted mem f \<longleftrightarrow> field_key mem f \<noteq> INTERNAL_DLPACK_META_KEY \<and> entry_ok (field_entry mem f) \<and>
     (case snd f of
        PvDlpack t \<Rightarrow> calc_dlpack_nbytes (dt_bits t) (dt_lanes t) (tensor_shape t) = Inr (tensor_nbytes t)
      | PvOther \<Rightarrow> False
      | _ \<Rightarrow> True)"

definition field_ptr :: "memory \<Rightarrow> vec \<times> py_value \<Rightarrow> flat_ptr \<Rightarrow> bool" where
  "field_ptr mem f p \<longleftrightarrow> field_accepted mem f \<and> ptr_bytes mem p = entry_bytes (field_entry mem f) \<and> ptr_typed p \<and>
     (\<forall>dst n. field_apart dst n f \<longrightarrow> ptr_apart dst n p)"

fun value_ptr :: "py_value \<Rightarrow> u8 \<times> u64 \<times> u32" where
  "value_ptr (PvBool b) = (FLAT_KV_TYPE_BOOL, if b then 1 else 0, 1)"
| "value_ptr (PvInt i) = (FLAT_KV_TYPE_INT64, i64_bits i, 8)"
| "value_ptr (PvFloat f) = (FLAT_KV_TYPE_FLOAT64, unat f, 8)"
| "value_ptr (PvStr s) = (FLAT_KV_TYPE_STRING, vec_ptr s, vec_len s)"
| "value_ptr (PvBytes b) = (FLAT_KV_TYPE_BYTES, vec_ptr b, vec_len b)"
| "value_ptr (PvDlpack t) = (FLAT_KV_TYPE_BYTES, dt_data t, tensor_nbytes t)"
| "value_ptr PvOther = (0, 0, 0)"

definition flat_ptr_of :: "vec \<times> py_value \<Rightarrow> flat_ptr" where
  "flat_ptr_of f = (case value_ptr (snd f) of (type_id, v, n) \<Rightarrow>
     (type_id, vec_ptr (fst f), vec_len (fst f), v, n, None))"

lemma field_ptr_of:
  "field_accepted mem f \<Longrightarrow> py_field_ok mem f \<Longrightarrow> field_ptr mem f (flat_ptr_of f)"
  by (cases "snd f") (auto simp: field_ptr_def flat_ptr_of_def field_accepted_def field_entry_def field_key_def
      entry_ok_def entry_bytes_def field_apart_def py_field_ok_def bytes_like_def)

lemma add_py_field_Inr:
  assumes "add_py_field mem plan key v = Inr plan'" and "py_field_ok mem (key, v)"
  shows "plan' = plan\<lparr>pl_ptrs := pl_ptrs plan @ [flat_ptr_of (key, v)],
      pl_dlpack_meta_entries := pl_dlpack_meta_entries plan @ field_metas mem (key, v)\<rparr> \<and>
    field_ptr mem (key, v) (flat_ptr_of (key, v))"
proof -
  note defs = add_py_field_def Let_def push_inline_entry_def push_owned_bytes_entry_def push_borrowed_bytes_entry_def
    u32_try_from_def field_accepted_def field_entry_def field_key_def field_metas_def entry_ok_def
    py_field_ok_def flat_ptr_of_def
  have "plan' = plan\<lparr>pl_ptrs := pl_ptrs plan @ [flat_ptr_of (key, v)],
      pl_dlpack_meta_entries := pl_dlpack_meta_entries plan @ field_metas mem (key, v)\<rparr> \<and> field_accepted mem (key, v)"
  proof (cases v)
    case (PvDlpack t)
    then obtain ptr n meta where x: "extract_dlpack_field (field_key mem (key, v)) t = Inr (ptr, n, meta)"
      using assms(1) by (auto simp: add_py_field_def Let_def result_iff field_key_def split: if_splits)
    from extract_Inr [OF x] show ?thesis using x assms PvDlpack by (auto simp: defs split: if_splits)
  qed (use assms in \<open>auto simp: defs split: if_splits\<close>)
  then show ?thesis using field_ptr_of [OF _ assms(2)] by blast
qed

lemma add_py_fields_Inr:
  assumes "add_py_fields mem plan fs = Inr plan'" and "list_all (py_field_ok mem) fs"
  shows "\<exists>ps. pl_ptrs plan' = pl_ptrs plan @ ps \<and> list_all2 (field_ptr mem) fs ps \<and>
    pl_dlpack_meta_entries plan' = pl_dlpack_meta_entries plan @ concat (map (field_metas mem) fs)"
  using assms
proof (induction fs arbitrary: plan)
  case (Cons f fs)
  obtain key v where f: "f = (key, v)" by (cases f)
  obtain plan1 where plan1: "add_py_field mem plan key v = Inr plan1" "add_py_fields mem plan1 fs = Inr plan'"
    using Cons.prems(1) by (auto simp: f result_iff)
  have p: "plan1 = plan\<lparr>pl_ptrs := pl_ptrs plan @ [flat_ptr_of f],
      pl_dlpack_meta_entries := pl_dlpack_meta_entries plan @ field_metas mem f\<rparr>" "field_ptr mem f (flat_ptr_of f)"
    using add_py_field_Inr [OF plan1(1)] Cons.prems(2) by (simp_all add: f)
  from Cons.IH [OF plan1(2)] Cons.prems(2) obtain ps where "pl_ptrs plan' = pl_ptrs plan1 @ ps"
    "list_all2 (field_ptr mem) fs ps"
    "pl_dlpack_meta_entries plan' = pl_dlpack_meta_entries plan1 @ concat (map (field_metas mem) fs)" by auto
  with p show ?case by (intro exI [of _ "flat_ptr_of f # ps"]) simp
qed auto

end
