(* ===== verification/Flat_Dlpack_Correct.thy ===== *)
theory Flat_Dlpack_Correct
  imports Flat_Dlpack
begin

text \<open>
  A dictionary with tensors survives being put and read: the plan built from its fields encodes
  them into a buffer of its own, and decoding that buffer gives every field back, a tensor as a
  view of exactly its bytes with its element type and shape.
\<close>

declare map_of_eq_Some_iff [simp del] Some_eq_map_of_iff [simp del]

section \<open>What the decoder sees of an encoded entry\<close>

definition item_holds :: "u8 list \<Rightarrow> u8 list \<times> flat_value \<Rightarrow> borrowed_flat_kv_entry \<Rightarrow> bool" where
  "item_holds data e i \<longleftrightarrow> be_key i = fst e \<and> range_value data (be_value i) = snd e \<and>
     (\<forall>start len. be_value i = BvBytesRange start len \<longrightarrow> start + len \<le> length data)"

lemma value_view_holds:
  assumes "data = q @ value_payload v @ suf"
  shows "range_value data (value_view (length q) v) = v \<and>
    (\<forall>start len. value_view (length q) v = BvBytesRange start len \<longrightarrow> start + len \<le> length data)"
  using assms by (cases v) auto

lemma entry_view_holds:
  assumes "data = pre @ entry_bytes e @ suf"
  shows "item_holds data e (entry_view (length pre) e)"
proof -
  define q where "q = pre @ le_bytes 4 (length (fst e)) @ fst e @ [value_type (snd e)] @
    le_bytes 4 (length (value_payload (snd e)))"
  have "data = q @ value_payload (snd e) @ suf" using assms by (simp add: entry_bytes_def q_def)
  note value_view_holds [OF this]
  moreover have "length q = length pre + 4 + length (fst e) + 5" by (simp add: q_def)
  ultimately show ?thesis by (simp add: item_holds_def entry_view_def)
qed

lemma views_hold:
  "data = pre @ concat (map entry_bytes es) @ suf \<Longrightarrow> list_all2 (item_holds data) es (flat_entry.views (length pre) es)"
proof (induction es arbitrary: pre)
  case (Cons e es)
  have "item_holds data e (entry_view (length pre) e)"
    using Cons.prems by (intro entry_view_holds [of _ _ _ "concat (map entry_bytes es) @ suf"]) simp
  then show ?case using Cons.IH [of "pre @ entry_bytes e"] Cons.prems by simp
qed simp

lemma decode_borrowed_holds:
  assumes "list_all entry_ok es" and "length es < u32_bound"
  shows "\<exists>items. flat_kv_decode_borrowed (flat_bytes es) = Inr items \<and> list_all2 (item_holds (flat_bytes es)) es items"
  using decode_borrowed_flat_bytes [OF assms] views_hold [of "flat_bytes es" "le_bytes 4 (length es)" es "[]"]
  by (simp add: flat_bytes_def)

lemma range_slice_ok:
  "start + len \<le> length data \<Longrightarrow> length data < u64_bound \<Longrightarrow> range_slice data start len = Inr (data_slice data start len)"
  by (simp add: range_slice_def checked_add_def)

section \<open>Objects\<close>

text \<open>An object stands for a field: the same scalar, string or bytes, or a view of the tensor.\<close>

fun represents :: "memory \<Rightarrow> u8 list \<Rightarrow> py_value \<Rightarrow> py_object \<Rightarrow> bool" where
  "represents mem data (PvBool b) w = (w = PoBool b)"
| "represents mem data (PvInt i) w = (w = PoInt i)"
| "represents mem data (PvFloat f) w = (w = PoFloat f)"
| "represents mem data (PvStr s) w = (w = PoStr (load mem (vec_ptr s) (vec_len s)))"
| "represents mem data (PvBytes b) w = (w = PoBytes (load mem (vec_ptr b) (vec_len b)))"
| "represents mem data (PvDlpack t) w =
     (\<exists>view. w = PoDlpackView view \<and> vw_dtype_code view = dt_code t \<and> vw_bits view = dt_bits t \<and>
        vw_lanes view = dt_lanes t \<and> vw_shape view = tensor_shape t \<and> vw_nbytes view = tensor_nbytes t \<and>
        vw_data_offset view + vw_nbytes view \<le> length data \<and>
        data_slice data (vw_data_offset view) (vw_nbytes view) = load mem (dt_data t) (tensor_nbytes t))"
| "represents mem data PvOther w = False"

definition is_tensor :: "vec \<times> py_value \<Rightarrow> bool" where
  "is_tensor f = (case snd f of PvDlpack t \<Rightarrow> True | _ \<Rightarrow> False)"

text \<open>The tensor descriptions the decoder looks fields up in.\<close>

definition meta_table :: "memory \<Rightarrow> (vec \<times> py_value) list \<Rightarrow> (u8 list \<times> decoded_dlpack_meta) list option \<Rightarrow> bool" where
  "meta_table mem fs meta \<longleftrightarrow> (\<forall>f \<in> set fs. Option.bind meta (\<lambda>all_meta. map_of all_meta (field_key mem f)) =
     (case snd f of PvDlpack t \<Rightarrow> Some (snd (decoded_meta (tensor_meta (field_key mem f) t))) | _ \<Rightarrow> None))"

lemma wrap_value_field:
  assumes "item_holds data (field_entry mem f) i" and "field_accepted mem f" and "length data < u64_bound"
    and "Option.bind meta (\<lambda>all_meta. map_of all_meta (field_key mem f)) =
     (case snd f of PvDlpack t \<Rightarrow> Some (snd (decoded_meta (tensor_meta (field_key mem f) t))) | _ \<Rightarrow> None)"
  shows "\<exists>w. wrap_value data meta (be_key i) (be_value i) = Inr (w, is_tensor f) \<and> represents mem data (snd f) w"
proof -
  have key: "be_key i = field_key mem f" and val: "range_value data (be_value i) = py_content mem (snd f)"
    and bnd: "\<And>start len. be_value i = BvBytesRange start len \<Longrightarrow> start + len \<le> length data"
    using assms(1) by (simp_all add: item_holds_def field_entry_def)
  show ?thesis
  proof (cases "snd f")
    case (PvDlpack t)
    then obtain start len where v: "be_value i = BvBytesRange start len"
      using val by (cases "be_value i") auto
    note b = bnd [OF v]
    have sl: "data_slice data start len = load mem (dt_data t) (tensor_nbytes t)" using val v PvDlpack by simp
    then have len: "len = tensor_nbytes t" using length_data_slice [OF b] by simp
    have nb: "meta_nbytes (tensor_meta k t) = tensor_nbytes t" for k
      by (simp add: meta_nbytes_def tensor_meta_def tensor_nbytes_def)
    show ?thesis using PvDlpack v b sl len assms(3,4) nb
      by (simp add: wrap_value_def key range_slice_ok decoded_meta_def is_tensor_def tensor_meta_def)
  next
    case (PvBytes b)
    then obtain start len where v: "be_value i = BvBytesRange start len"
      using val by (cases "be_value i") auto
    show ?thesis using PvBytes v val bnd [OF v] assms(3,4)
      by (simp add: wrap_value_def key range_slice_ok is_tensor_def)
  next
    case PvOther
    then show ?thesis using assms(2) by (simp add: field_accepted_def)
  qed (use val in \<open>cases "be_value i"; simp add: wrap_value_def is_tensor_def\<close>)+
qed

lemma alist_update_new: "k \<notin> fst ` set al \<Longrightarrow> AList.update k v al = al @ [(k, v)]"
  by (induction al) auto

lemma wrap_items_fields:
  assumes "list_all2 (item_holds data) (map (field_entry mem) fs) items"
    and "list_all (field_accepted mem) fs" and "length data < u64_bound" and "meta_table mem fs meta"
    and "distinct (map (field_key mem) fs)" and "set (map (field_key mem) fs) \<inter> fst ` set dict = {}"
  shows "\<exists>objs keys'. (\<forall>rest. wrap_items data meta (items @ rest) dict keys = wrap_items data meta rest (dict @ objs) keys') \<and>
    list_all2 (\<lambda>f (k, w). k = field_key mem f \<and> represents mem data (snd f) w) fs objs \<and>
    set keys' = set keys \<union> field_key mem ` {f \<in> set fs. is_tensor f}"
  using assms
proof (induction fs arbitrary: items dict keys)
  case (Cons f fs)
  obtain i items' where items: "items = i # items'" and i: "item_holds data (field_entry mem f) i"
    and items': "list_all2 (item_holds data) (map (field_entry mem) fs) items'"
    using Cons.prems(1) by (auto simp: list_all2_Cons1)
  have acc: "field_accepted mem f" using Cons.prems(2) by simp
  have key: "be_key i = field_key mem f" using i by (simp add: item_holds_def field_entry_def)
  have nm: "be_key i \<noteq> INTERNAL_DLPACK_META_KEY" using acc by (simp add: key field_accepted_def)
  obtain w where w: "wrap_value data meta (be_key i) (be_value i) = Inr (w, is_tensor f)" "represents mem data (snd f) w"
    using wrap_value_field [OF i acc Cons.prems(3)] Cons.prems(4) by (auto simp: meta_table_def)
  have new: "field_key mem f \<notin> fst ` set dict" using Cons.prems(6) by auto
  define keys1 where "keys1 = (if is_tensor f then List.insert (be_key i) keys else keys)"
  have fresh: "set (map (field_key mem) fs) \<inter> fst ` set (dict @ [(field_key mem f, w)]) = {}"
    using Cons.prems(5,6) by auto
  have ih: "list_all (field_accepted mem) fs" "meta_table mem fs meta" "distinct (map (field_key mem) fs)"
    using Cons.prems by (simp_all add: meta_table_def)
  from Cons.IH [OF items' ih(1) Cons.prems(3) ih(2,3) fresh, of keys1]
  obtain objs keys' where r: "\<And>rest. wrap_items data meta (items' @ rest) (dict @ [(field_key mem f, w)]) keys1 =
      wrap_items data meta rest (dict @ (field_key mem f, w) # objs) keys'"
    "list_all2 (\<lambda>f (k, w). k = field_key mem f \<and> represents mem data (snd f) w) fs objs"
    "set keys' = set keys1 \<union> field_key mem ` {f \<in> set fs. is_tensor f}" by auto
  have "wrap_items data meta (items @ rest) dict keys = wrap_items data meta rest (dict @ (field_key mem f, w) # objs) keys'" for rest
    using w(1) nm r(1) [of rest] alist_update_new [OF new, of w] by (simp add: items key keys1_def)
  moreover have "set keys' = set keys \<union> field_key mem ` {f' \<in> set (f # fs). is_tensor f'}"
    using r(3) by (auto simp: keys1_def key)
  ultimately show ?case using r(2) w(2)
    by (intro exI [of _ "(field_key mem f, w) # objs"] exI [of _ keys']) auto
qed auto

lemma scan_meta_fields:
  assumes "list_all2 (item_holds data) (map (field_entry mem) fs) items" and "list_all (field_accepted mem) fs"
  shows "scan_meta data (items @ rest) meta = scan_meta data rest meta"
  using assms
proof (induction fs arbitrary: items)
  case (Cons f fs)
  obtain i items' where items: "items = i # items'" and i: "item_holds data (field_entry mem f) i"
    and items': "list_all2 (item_holds data) (map (field_entry mem) fs) items'"
    using Cons.prems(1) by (auto simp: list_all2_Cons1)
  have "be_key i \<noteq> INTERNAL_DLPACK_META_KEY"
    using i Cons.prems(2) by (simp add: item_holds_def field_entry_def field_accepted_def)
  then show ?case using Cons.IH [OF items'] Cons.prems(2) by (simp add: items)
qed simp

section \<open>The descriptions of the tensors\<close>

definition plan_metas :: "memory \<Rightarrow> (vec \<times> py_value) list \<Rightarrow> dlpack_meta_entry list" where
  "plan_metas mem fs = concat (map (field_metas mem) fs)"

definition meta_entry :: "memory \<Rightarrow> (vec \<times> py_value) list \<Rightarrow> u8 list \<times> flat_value" where
  "meta_entry mem fs = (INTERNAL_DLPACK_META_KEY, FvBytes (meta_payload (plan_metas mem fs)))"

definition plan_entries :: "memory \<Rightarrow> (vec \<times> py_value) list \<Rightarrow> (u8 list \<times> flat_value) list" where
  "plan_entries mem fs = map (field_entry mem) fs @ (if plan_metas mem fs = [] then [] else [meta_entry mem fs])"

lemma plan_metas_keys: "map dm_key_utf8 (plan_metas mem fs) = map (field_key mem) (filter is_tensor fs)"
proof (induction fs)
  case (Cons f fs)
  have "plan_metas mem (f # fs) = field_metas mem f @ plan_metas mem fs" by (simp add: plan_metas_def)
  with Cons show ?case
    by (cases "snd f") (simp_all add: field_metas_def is_tensor_def tensor_meta_def)
qed (simp add: plan_metas_def)

lemma plan_metas_member:
  "f \<in> set fs \<Longrightarrow> snd f = PvDlpack t \<Longrightarrow> tensor_meta (field_key mem f) t \<in> set (plan_metas mem fs)"
  by (force simp: plan_metas_def field_metas_def)

lemma plan_metas_origin:
  "e \<in> set (plan_metas mem fs) \<Longrightarrow> \<exists>f \<in> set fs. \<exists>t. snd f = PvDlpack t \<and> e = tensor_meta (field_key mem f) t"
  by (force simp: plan_metas_def field_metas_def split: py_value.splits)

lemma length_meta_payload:
  assumes "e \<in> set ms"
  shows "length ms < length (meta_payload ms)" and "length (dm_shape e) < length (meta_payload ms)"
proof -
  have "length xs \<le> length (concat (map meta_bytes xs))" for xs
    by (induction xs) (auto simp: meta_bytes_def)
  from this [of ms] show "length ms < length (meta_payload ms)" by (simp add: meta_payload_def)
  have "length s \<le> length (concat (map dim_bytes s))" for s
    by (induction s) (auto simp: dim_bytes_def)
  from this [of "dm_shape e"] have "length (dm_shape e) < length (meta_bytes e)" by (simp add: meta_bytes_def)
  moreover have "length (meta_bytes e) \<le> length (concat (map meta_bytes ms))"
    using assms by (auto simp: length_concat comp_def intro!: member_le_sum_list)
  ultimately show "length (dm_shape e) < length (meta_payload ms)" by (simp add: meta_payload_def)
qed

lemma plan_metas_ok:
  assumes "list_all (field_accepted mem) fs" and "list_all (py_field_ok mem) fs"
    and "length (meta_payload (plan_metas mem fs)) < u32_bound"
  shows "list_all meta_ok (plan_metas mem fs)"
  unfolding list_all_iff
proof
  fix e assume e: "e \<in> set (plan_metas mem fs)"
  then obtain f t where f: "f \<in> set fs" "snd f = PvDlpack t" "e = tensor_meta (field_key mem f) t"
    using plan_metas_origin by blast
  have "length (dm_shape e) < u32_bound" using length_meta_payload(2) [OF e] assms(3) by simp
  moreover have "field_accepted mem f" "py_field_ok mem f" using assms f(1) by (simp_all add: list_all_iff)
  ultimately show "meta_ok e" using f
    by (simp add: meta_ok_def field_accepted_def py_field_ok_def entry_ok_def field_entry_def tensor_meta_def
        meta_nbytes_def tensor_nbytes_def)
qed

lemma meta_table_of_payload:
  assumes "distinct (map (field_key mem) fs)" and "map_of out = map_of (map decoded_meta (plan_metas mem fs))"
  shows "meta_table mem fs (Some out)"
  unfolding meta_table_def
proof
  fix f assume f: "f \<in> set fs"
  have keys: "map fst (map decoded_meta (plan_metas mem fs)) = map (field_key mem) (filter is_tensor fs)"
    using plan_metas_keys [of mem fs] by (simp add: decoded_meta_def comp_def)
  then have dist: "distinct (map fst (map decoded_meta (plan_metas mem fs)))"
    using distinct_map_filter [OF assms(1)] by metis
  show "Option.bind (Some out) (\<lambda>all_meta. map_of all_meta (field_key mem f)) =
     (case snd f of PvDlpack t \<Rightarrow> Some (snd (decoded_meta (tensor_meta (field_key mem f) t))) | _ \<Rightarrow> None)"
  proof (cases "is_tensor f")
    case True
    then obtain t where t: "snd f = PvDlpack t" by (cases "snd f") (auto simp: is_tensor_def)
    have "decoded_meta (tensor_meta (field_key mem f) t) \<in> set (map decoded_meta (plan_metas mem fs))"
      using plan_metas_member [OF f t] by simp
    then have "(field_key mem f, snd (decoded_meta (tensor_meta (field_key mem f) t))) \<in>
        set (map decoded_meta (plan_metas mem fs))" by (simp add: decoded_meta_def tensor_meta_def)
    from map_of_is_SomeI [OF dist this] show ?thesis using t assms(2) by simp
  next
    case False
    have "field_key mem f \<notin> field_key mem ` set (filter is_tensor fs)"
      using assms(1) f False by (auto simp: distinct_map dest: inj_onD)
    then have "field_key mem f \<notin> fst ` set (map decoded_meta (plan_metas mem fs))"
      using arg_cong [OF keys, of set] by (metis list.set_map)
    then have "map_of out (field_key mem f) = None" using assms(2) by (simp add: map_of_eq_None_iff)
    then show ?thesis using False by (cases "snd f") (auto simp: is_tensor_def)
  qed
qed

section \<open>Decoding\<close>

lemma meta_key_ok: "valid_utf8 INTERNAL_DLPACK_META_KEY" "length INTERNAL_DLPACK_META_KEY = 31"
  by (simp_all add: INTERNAL_DLPACK_META_KEY_def)

lemma length_flat_bytes_member: "e \<in> set d \<Longrightarrow> length (entry_bytes e) \<le> length (flat_bytes d)"
  using member_le_sum_list [of "length (entry_bytes e)" "map (length \<circ> entry_bytes) d"]
  by (auto simp: flat_bytes_def length_concat comp_def)

lemma length_flat_bytes_count: "length d \<le> length (flat_bytes d)"
proof -
  have "length d \<le> length (concat (map entry_bytes d))" by (induction d) (auto simp: entry_bytes_def)
  then show ?thesis by (simp add: flat_bytes_def)
qed

lemma plan_entries_ok:
  assumes "list_all (field_accepted mem) fs" and "length (flat_bytes (plan_entries mem fs)) < u32_bound"
  shows "list_all entry_ok (plan_entries mem fs)"
proof (cases "plan_metas mem fs = []")
  case False
  have "length (entry_bytes (meta_entry mem fs)) < u32_bound"
    using length_flat_bytes_member [of "meta_entry mem fs" "plan_entries mem fs"] assms(2) False
    by (simp add: plan_entries_def)
  then have "entry_ok (meta_entry mem fs)"
    by (simp add: entry_ok_def meta_entry_def meta_key_ok entry_bytes_def)
  then show ?thesis using assms(1) False
    by (auto simp: plan_entries_def list_all_iff field_accepted_def)
qed (use assms in \<open>auto simp: plan_entries_def list_all_iff field_accepted_def\<close>)

lemma scan_plan_meta:
  assumes holds: "list_all2 (item_holds data) (plan_entries mem fs) items" and small: "length data < u32_bound"
    and acc: "list_all (field_accepted mem) fs" and ok: "list_all (py_field_ok mem) fs"
    and dist: "distinct (map (field_key mem) fs)"
  shows "\<exists>meta items1 items2. items = items1 @ items2 \<and>
    list_all2 (item_holds data) (map (field_entry mem) fs) items1 \<and>
    scan_meta data items None = Inr meta \<and> meta_table mem fs meta \<and>
    (\<forall>dict keys. wrap_items data meta items2 dict keys = Inr (dict, keys)) \<and>
    (\<forall>m. meta = Some m \<longrightarrow> set (map fst m) \<subseteq> field_key mem ` {f \<in> set fs. is_tensor f})"
proof (cases "plan_metas mem fs = []")
  case True
  then have nt: "f \<in> set fs \<Longrightarrow> \<not> is_tensor f" for f
    using plan_metas_member [of f fs _ mem] by (cases "snd f") (auto simp: is_tensor_def)
  have "f \<in> set fs \<Longrightarrow> (case snd f of PvDlpack t \<Rightarrow> Some (g t) | _ \<Rightarrow> None) = None"
    for f and g :: "dlpack_tensor \<Rightarrow> decoded_dlpack_meta"
    using nt [of f] by (cases "snd f") (simp_all add: is_tensor_def)
  then have "meta_table mem fs None" by (simp add: meta_table_def)
  moreover have h: "list_all2 (item_holds data) (map (field_entry mem) fs) items"
    using holds True by (simp add: plan_entries_def)
  moreover have "scan_meta data items None = Inr None" using scan_meta_fields [OF h acc, of "[]" None] by simp
  ultimately show ?thesis by (intro exI [of _ None] exI [of _ items] exI [of _ "[]"]) simp
next
  case False
  let ?ms = "plan_metas mem fs"
  obtain items1 i where items: "items = items1 @ [i]"
    and h: "list_all2 (item_holds data) (map (field_entry mem) fs) items1" and i: "item_holds data (meta_entry mem fs) i"
    using holds False by (auto simp: plan_entries_def list_all2_append1 list_all2_Cons1)
  from i obtain start len where v: "be_value i = BvBytesRange start len"
    by (cases "be_value i") (auto simp: item_holds_def meta_entry_def)
  have key: "be_key i = INTERNAL_DLPACK_META_KEY" and payload: "data_slice data start len = meta_payload ?ms"
    and bnd: "start + len \<le> length data" using i v by (auto simp: item_holds_def meta_entry_def)
  have len: "length (meta_payload ?ms) < u32_bound"
    using length_data_slice [OF bnd] payload bnd small by simp
  obtain e where "e \<in> set ?ms" using False by (cases ?ms) auto
  then have "length ?ms < u32_bound" using length_meta_payload(1) len by fastforce
  moreover have keys: "distinct (map dm_key_utf8 ?ms)"
    unfolding plan_metas_keys using dist by (rule distinct_map_filter)
  ultimately obtain out where out: "decode_dlpack_meta (meta_payload ?ms) = Inr out"
    "map_of out = map_of (map decoded_meta ?ms)" "set (map fst out) = set (map dm_key_utf8 ?ms)"
    using decode_meta_payload [OF plan_metas_ok [OF acc ok len]] by blast
  have "scan_meta data items None = Inr (Some out)"
    unfolding items scan_meta_fields [OF h acc]
    using key v payload out(1) bnd small by (simp add: range_slice_ok)
  moreover have "meta_table mem fs (Some out)" by (rule meta_table_of_payload [OF dist out(2)])
  moreover have "set (map fst out) \<subseteq> field_key mem ` {f \<in> set fs. is_tensor f}"
    using out(3) plan_metas_keys [of mem fs] by auto
  ultimately show ?thesis using items h key
    by (intro exI [of _ "Some out"] exI [of _ items1] exI [of _ "[i]"]) simp
qed

lemma decode_plan:
  assumes acc: "list_all (field_accepted mem) fs" and ok: "list_all (py_field_ok mem) fs"
    and dist: "distinct (map (field_key mem) fs)" and small: "length (flat_bytes (plan_entries mem fs)) < u32_bound"
  shows "\<exists>dict. decode_flat_dict_to_wrapped_py_object (flat_bytes (plan_entries mem fs)) = Inr dict \<and>
    list_all2 (\<lambda>f (k, w). k = field_key mem f \<and> represents mem (flat_bytes (plan_entries mem fs)) (snd f) w) fs dict"
proof -
  let ?d = "plan_entries mem fs" and ?data = "flat_bytes (plan_entries mem fs)"
  have "length ?d < u32_bound" using length_flat_bytes_count [of ?d] small by simp
  from decode_borrowed_holds [OF plan_entries_ok [OF acc small] this] obtain items where
    items: "flat_kv_decode_borrowed ?data = Inr items" "list_all2 (item_holds ?data) ?d items" by blast
  from scan_plan_meta [OF items(2) small acc ok dist] obtain meta items1 items2 where
    s: "items = items1 @ items2" "list_all2 (item_holds ?data) (map (field_entry mem) fs) items1"
      "scan_meta ?data items None = Inr meta" "meta_table mem fs meta"
      "\<And>dict keys. wrap_items ?data meta items2 dict keys = Inr (dict, keys)"
      "\<And>m. meta = Some m \<Longrightarrow> set (map fst m) \<subseteq> field_key mem ` {f \<in> set fs. is_tensor f}" by blast
  from wrap_items_fields [OF s(2) acc _ s(4) dist, of "[]" "[]"] small obtain objs keys where
    w: "\<And>rest. wrap_items ?data meta (items1 @ rest) [] [] = wrap_items ?data meta rest objs keys"
      "list_all2 (\<lambda>f (k, w). k = field_key mem f \<and> represents mem ?data (snd f) w) fs objs"
      "set keys = field_key mem ` {f \<in> set fs. is_tensor f}" by auto
  have "wrap_items ?data meta items [] [] = Inr (objs, keys)" using w(1) [of items2] s(1,5) by simp
  moreover have "meta = Some m \<Longrightarrow> list_all (\<lambda>(meta_key, _). meta_key \<in> set keys) m" for m
    using s(6) [of m] w(3) by (force simp: list_all_iff)
  ultimately have "decode_flat_dict_to_wrapped_py_object ?data = Inr objs"
    using items(1) s(3) by (cases meta) (simp_all add: decode_flat_dict_to_wrapped_py_object_def invalid_arg_def)
  then show ?thesis using w(2) by blast
qed

section \<open>Encoding\<close>

text \<open>The vectors that \<open>encode\<close> allocates are apart from each other and from the memory of the fields.\<close>

definition buffers_apart :: "memory \<Rightarrow> usize \<Rightarrow> usize \<Rightarrow> usize \<Rightarrow> (vec \<times> py_value) list \<Rightarrow> bool" where
  "buffers_apart mem meta_key_ptr meta_ptr dst fs \<longleftrightarrow>
     (let n = length (flat_bytes (plan_entries mem fs)); m = length (meta_payload (plan_metas mem fs));
          k = length INTERNAL_DLPACK_META_KEY in
      list_all (field_apart dst n) fs \<and> list_all (field_apart meta_key_ptr k) fs \<and> list_all (field_apart meta_ptr m) fs \<and>
      apart meta_key_ptr k meta_ptr m \<and> apart meta_key_ptr k dst n \<and> apart meta_ptr m dst n \<and> meta_ptr < u64_bound)"

lemma ptr_bytes_apart: "ptr_apart a (length bs) p \<Longrightarrow> ptr_bytes (store mem a bs) p = ptr_bytes mem p"
  by (cases p) (auto simp: load_store_apart)

lemma field_ptrs_bytes:
  assumes "list_all2 (field_ptr mem) fs ps" and "list_all (field_apart a (length bs)) fs"
    and "list_all (field_apart b (length cs)) fs"
  shows "map (ptr_bytes (store (store mem a bs) b cs)) ps = map entry_bytes (map (field_entry mem) fs)"
  using assms
proof (induction fs arbitrary: ps)
  case (Cons f fs)
  obtain p ps' where ps: "ps = p # ps'" "field_ptr mem f p" "list_all2 (field_ptr mem) fs ps'"
    using Cons.prems(1) by (auto simp: list_all2_Cons1)
  then have "ptr_apart a (length bs) p" "ptr_apart b (length cs) p"
    using Cons.prems(2,3) unfolding field_ptr_def by simp_all
  then have "ptr_bytes (store (store mem a bs) b cs) p = ptr_bytes mem p" by (simp only: ptr_bytes_apart)
  then show ?case using Cons.IH [OF ps(3)] Cons.prems(2,3) ps(1,2) by (simp add: field_ptr_def del: ptr_bytes.simps)
qed simp

lemma field_ptrs_ok:
  assumes "list_all2 (field_ptr mem) fs ps"
  shows "list_all ptr_typed ps" and "list_all (field_accepted mem) fs"
    and "list_all (field_apart a n) fs \<Longrightarrow> list_all (ptr_apart a n) ps"
  using assms by (induction rule: list_all2_induct) (auto simp: field_ptr_def)

lemma encode_plan:
  assumes ptrs: "list_all2 (field_ptr mem) fs (pl_ptrs plan)" and metas: "pl_dlpack_meta_entries plan = plan_metas mem fs"
    and small: "length (flat_bytes (plan_entries mem fs)) < u32_bound"
    and buffers: "buffers_apart mem meta_key_ptr meta_ptr dst fs"
    and ok: "list_all meta_ok (plan_metas mem fs)"
  shows "\<exists>mem'. plan_encode mem meta_key_ptr meta_ptr dst plan =
    Some (Inr (mem', \<lparr>vec_ptr = dst, vec_len = length (flat_bytes (plan_entries mem fs))\<rparr>)) \<and>
    load mem' dst (length (flat_bytes (plan_entries mem fs))) = flat_bytes (plan_entries mem fs)"
proof (cases "plan_metas mem fs = []")
  case True
  have "map (ptr_bytes mem) (pl_ptrs plan) = map entry_bytes (plan_entries mem fs)"
    using field_ptrs_bytes [OF ptrs, of 0 "[]" 0 "[]"] True
    by (simp add: plan_entries_def list_all_iff field_apart_def apart_def split: prod.splits)
  moreover have "list_all (ptr_apart dst (length (flat_bytes (plan_entries mem fs)))) (pl_ptrs plan)"
    using field_ptrs_ok(3) [OF ptrs] buffers by (simp add: buffers_apart_def Let_def)
  ultimately show ?thesis using encode_ptrs_flat_bytes [OF _ field_ptrs_ok(1) [OF ptrs]] small True metas
    by (simp add: plan_encode_def)
next
  case False
  let ?k = INTERNAL_DLPACK_META_KEY and ?p = "meta_payload (plan_metas mem fs)" and ?d = "plan_entries mem fs"
  let ?mem = "store (store mem meta_key_ptr ?k) meta_ptr ?p"
  let ?q = "(FLAT_KV_TYPE_BYTES, meta_key_ptr, length ?k, meta_ptr, length ?p, None) :: flat_ptr"
  have b: "list_all (field_apart dst (length (flat_bytes ?d))) fs" "list_all (field_apart meta_key_ptr (length ?k)) fs"
    "list_all (field_apart meta_ptr (length ?p)) fs" "apart meta_key_ptr (length ?k) meta_ptr (length ?p)"
    "apart meta_key_ptr (length ?k) dst (length (flat_bytes ?d))" "apart meta_ptr (length ?p) dst (length (flat_bytes ?d))"
    "meta_ptr < u64_bound" using buffers by (simp_all add: buffers_apart_def Let_def)
  have d: "?d = map (field_entry mem) fs @ [meta_entry mem fs]" using False by (simp add: plan_entries_def)
  have "length (entry_bytes (meta_entry mem fs)) < u32_bound"
    using length_flat_bytes_member [of "meta_entry mem fs" ?d] small d by simp
  then have p: "length ?p < u32_bound" by (simp add: meta_entry_def entry_bytes_def)
  obtain e where "e \<in> set (plan_metas mem fs)" using False by (cases "plan_metas mem fs") auto
  then have "length (plan_metas mem fs) < u32_bound" using length_meta_payload(1) p by fastforce
  moreover have "list_all (\<lambda>e. length (dm_key_utf8 e) < u32_bound \<and> length (dm_shape e) < u32_bound) (plan_metas mem fs)"
    using ok by (auto simp: list_all_iff meta_ok_def)
  ultimately have enc: "encode_dlpack_meta_entries (plan_metas mem fs) = Inr ?p"
    by (simp add: encode_dlpack_meta_entries_def u32_try_from_def encode_meta_entries_spec meta_payload_def)
  have "load ?mem meta_key_ptr (length ?k) = ?k"
    using load_store_apart [OF b(4), of "store mem meta_key_ptr ?k"] by simp
  then have "ptr_bytes ?mem ?q = entry_bytes (meta_entry mem fs)"
    by (simp add: bytes_like_def entry_bytes_def meta_entry_def)
  then have "map (ptr_bytes ?mem) (pl_ptrs plan @ [?q]) = map entry_bytes ?d"
    using field_ptrs_bytes [OF ptrs b(2,3)] by (simp only: d map_append list.map)
  moreover have "list_all (ptr_apart dst (length (flat_bytes ?d))) (pl_ptrs plan @ [?q])"
    using field_ptrs_ok(3) [OF ptrs b(1)] b(5,6) by simp
  moreover have "list_all ptr_typed (pl_ptrs plan @ [?q])"
    using field_ptrs_ok(1) [OF ptrs] p b(7) by (simp add: bytes_like_def)
  ultimately have "encode_ptrs ?mem dst (pl_ptrs plan @ [?q]) =
      Some (Inr (store ?mem dst (flat_bytes ?d), \<lparr>vec_ptr = dst, vec_len = length (flat_bytes ?d)\<rparr>))"
    using small by (intro encode_ptrs_flat_bytes)
  then have "plan_encode mem meta_key_ptr meta_ptr dst plan =
      Some (Inr (store ?mem dst (flat_bytes ?d), \<lparr>vec_ptr = dst, vec_len = length (flat_bytes ?d)\<rparr>))"
    using False metas enc p
    by (simp add: plan_encode_def push_owned_bytes_entry_def u32_try_from_def meta_key_ok Let_def)
  then show ?thesis by simp
qed

text \<open>C16: Every dictionary with tensors that the plan accepts is encoded, without a forbidden memory access,
  when the encoding is below four gibibytes, and decoding it gives back every field in order: the
  same scalars, strings and bytes, and for a tensor a view of exactly its bytes inside the encoded
  value, with its element type and shape.\<close>

theorem tensor_dict_round_trip:
  assumes "build_py_flat_dict_encode_plan mem fs = Inr plan" and "list_all (py_field_ok mem) fs"
    and "distinct (map (field_key mem) fs)" and "length (flat_bytes (plan_entries mem fs)) < u32_bound"
    and "buffers_apart mem meta_key_ptr meta_ptr dst fs"
  shows "\<exists>mem' n dict. plan_encode mem meta_key_ptr meta_ptr dst plan = Some (Inr (mem', \<lparr>vec_ptr = dst, vec_len = n\<rparr>)) \<and>
    decode_flat_dict_to_wrapped_py_object (load mem' dst n) = Inr dict \<and>
    list_all2 (\<lambda>f (k, w). k = field_key mem f \<and> represents mem (load mem' dst n) (snd f) w) fs dict"
proof -
  from add_py_fields_Inr [OF assms(1) [unfolded build_py_flat_dict_encode_plan_def] assms(2)]
  have ptrs: "list_all2 (field_ptr mem) fs (pl_ptrs plan)" and metas: "pl_dlpack_meta_entries plan = plan_metas mem fs"
    by (auto simp: plan_metas_def)
  note acc = field_ptrs_ok(2) [OF ptrs]
  have "length (meta_payload (plan_metas mem fs)) < u32_bound"
  proof (cases "plan_metas mem fs = []")
    case False
    then show ?thesis
      using length_flat_bytes_member [of "meta_entry mem fs" "plan_entries mem fs"] assms(4)
      by (simp add: plan_entries_def meta_entry_def entry_bytes_def)
  qed (simp add: meta_payload_def)
  from encode_plan [OF ptrs metas assms(4,5) plan_metas_ok [OF acc assms(2) this]] obtain mem' where
    mem': "plan_encode mem meta_key_ptr meta_ptr dst plan =
        Some (Inr (mem', \<lparr>vec_ptr = dst, vec_len = length (flat_bytes (plan_entries mem fs))\<rparr>))"
      "load mem' dst (length (flat_bytes (plan_entries mem fs))) = flat_bytes (plan_entries mem fs)" by blast
  show ?thesis
    by (rule exI [of _ mem'], rule exI [of _ "length (flat_bytes (plan_entries mem fs))"], unfold mem')
      (use decode_plan [OF acc assms(2,3,4)] in simp)
qed

text \<open>A dictionary with an integer and a tensor of two bytes, in a memory that holds at every address
  the address itself.\<close>

definition sample_fields :: "(vec \<times> py_value) list" where
  "sample_fields = [(\<lparr>vec_ptr = 97, vec_len = 1\<rparr>, PvInt 7),
     (\<lparr>vec_ptr = 98, vec_len = 1\<rparr>, PvDlpack \<lparr>dt_data = 10, dt_device_type = 1, dt_ndim = 1, dt_code = 0,
        dt_bits = 8, dt_lanes = 1, dt_shape = Some [2], dt_strides = None, dt_byte_offset = 0\<rparr>)]"

definition sample_plan :: flat_dict_encode_plan where
  "sample_plan = \<lparr>pl_ptrs = [(FLAT_KV_TYPE_INT64, 97, 1, 7, 8, None), (FLAT_KV_TYPE_BYTES, 98, 1, 10, 2, None)],
     pl_dlpack_meta_entries = [\<lparr>dm_key_utf8 = [98], dm_dtype_code = 0, dm_bits = 8, dm_lanes = 1, dm_shape = [2]\<rparr>]\<rparr>"

lemma sample_plan_build: "build_py_flat_dict_encode_plan (\<lambda>a. of_nat a) sample_fields = Inr sample_plan"
  by (simp add: build_py_flat_dict_encode_plan_def sample_fields_def sample_plan_def add_py_field_def Let_def
      INTERNAL_DLPACK_META_KEY_def push_inline_entry_def push_borrowed_bytes_entry_def u32_try_from_def i64_ok_def
      i64_bits_def extract_dlpack_field_def checked_mul_def dlpack_itemsize_def)

lemma sample_plan_len:
  "length (flat_bytes (plan_entries (\<lambda>a. of_nat a) sample_fields)) = 99"
  "length (meta_payload (plan_metas (\<lambda>a. of_nat a) sample_fields)) = 25"
  by (simp_all add: flat_bytes_def plan_entries_def plan_metas_def field_metas_def tensor_meta_def meta_entry_def
      meta_payload_def meta_bytes_def dim_bytes_def entry_bytes_def sample_fields_def field_entry_def field_key_def
      meta_key_ok tensor_nbytes_def tensor_shape_def)

theorem tensor_dict_round_trip_witness:
  "\<exists>mem' n dict. plan_encode (\<lambda>a. of_nat a) 1000 2000 3000 sample_plan = Some (Inr (mem', \<lparr>vec_ptr = 3000, vec_len = n\<rparr>)) \<and>
    decode_flat_dict_to_wrapped_py_object (load mem' 3000 n) = Inr dict \<and>
    list_all2 (\<lambda>f (k, w). k = field_key (\<lambda>a. of_nat a) f \<and>
      represents (\<lambda>a. of_nat a) (load mem' 3000 n) (snd f) w) sample_fields dict"
proof (rule tensor_dict_round_trip [OF sample_plan_build])
  show "list_all (py_field_ok (\<lambda>a. of_nat a)) sample_fields"
    by (simp add: sample_fields_def py_field_ok_def field_key_def tensor_shape_def i64_ok_def)
  show "distinct (map (field_key (\<lambda>a. of_nat a)) sample_fields)"
    by (simp add: sample_fields_def field_key_def)
  show "buffers_apart (\<lambda>a. of_nat a) 1000 2000 3000 sample_fields"
    unfolding buffers_apart_def sample_plan_len meta_key_ok Let_def
    by (simp add: sample_fields_def field_apart_def apart_def tensor_nbytes_def tensor_shape_def)
qed (simp add: sample_plan_len)

end
