(* ===== verification/Spec2Isabelle.thy ===== *)
theory Spec2Isabelle
  imports Prefix_Index Key_Activity Owner_Pool_Budget Owner_Service_Correct Owner_Put_Correct Flat_Dlpack_Correct
begin

text \<open>
  A verification of the memory core of Fluxon, a distributed key-value cache for large values
  (\<open>src/fluxon_rs\<close>).

  \<^bold>\<open>The program.\<close> A cluster has one \<^emph>\<open>master\<close> (\<open>fluxon_kv/src/master_kv_router\<close>), which knows
  for every key where its replicas are, and \<^emph>\<open>owners\<close> (\<open>fluxon_kv/src/client_kv_api\<close>), each of
  which registers one DRAM segment and hands out slots of it. A value is written by preparing a
  slot at a target owner, moving the bytes and committing the slot; it is read under a source
  lease, which keeps the slot from being recycled while a remote owner copies from it. Owners talk
  to each other in batches of items that may be retried, and a retried item must not take effect
  twice. Slots are regions of an offset allocator (\<open>vendor/offset-allocator\<close>).

  \<^bold>\<open>Conventions\<close> (theory \<open>Fluxon_Prelude\<close>). A Rust panic is \<open>None\<close> of an option, a \<open>Result\<close> is
  a sum with the error on the left, an unsigned integer is a natural number whose arithmetic is
  \<open>checked_add\<close>, \<open>saturating_add\<close>, \<open>wrapping_add\<close> and so on at its width. A map that the code
  iterates is an association list, any other a partial function. A mutex-protected object is a
  record, each of its methods one function from the old to the new record: the lock makes a method
  one step. The build is one with overflow checks and debug assertions: a failing \<open>debug_assert\<close>
  is a panic like a failing \<open>assert\<close>. The address of a fresh allocation is an argument; a vector of
  more than \<open>isize::MAX\<close> bytes is a panic (\<open>vec_with_capacity\<close>) where the requested number is not
  bounded by data in memory or by a 32-bit field, while running out of memory, which aborts the
  process, is not modelled. Error values keep their code and leave out the human-readable detail.

  \<^bold>\<open>The parts.\<close>

  \<^item> \<open>Prefix_Index\<close> (\<open>master_kv_router/count_prefix_index.rs\<close>): the master's counting trie over the
    published keys. Balanced sequences of publish and reclaim events are processed without a panic,
    after any sequence the counts are those of the abstract set of keys, and no node is left behind.

  \<^item> \<open>Key_Activity\<close> (\<open>ActivityTable\<close>, \<open>PreparedGetRequesterTable\<close> of \<open>master_kv_router/mod.rs\<close>):
    the leases that readers and writers hold on a key and the fence under which a key is reclaimed,
    with the concurrent release of a lease split at its atomic operations. A fence and a lease
    exclude each other in every interleaving, and a fence persists until its holder drops it.

  \<^item> \<open>Small_Float\<close>, \<open>Offset_Allocator\<close> (\<open>vendor/offset-allocator/src\<close>): the size classes, the bins,
    bitmaps, neighbour lists and node stack, every operation with every index, subtraction and
    debug assertion checked and the decoding of a size class truncated to 32 bits; \<open>class_size\<close> is the
    untruncated size of a class, which the proofs use for the 240 classes that fit. \<open>Offset_Allocator_Correct\<close> has the representation invariant and its preservation;
    \<open>Region_Allocator\<close> states what a client may rely on as the locale \<open>region_allocator\<close>, which
    the offset allocator interprets: regions are disjoint and inside the range, nothing panics, and
    freeing everything restores the empty allocator.

  \<^item> \<open>Owner_Segment\<close>, \<open>Owner_Transfer\<close> (\<open>fluxon_kv/src/owner_segment.rs\<close>): the vocabulary of the
    owner-to-owner protocol (generations, slot descriptors, capabilities, items and outcomes), the
    caller's acknowledgement window, and its replay loop. The watermark is exactly the recorded
    prefix, terminal sequences are issued once, and the loop ends at the first definitive answer.

  \<^item> \<open>Owner_Slots\<close> (\<open>OwnerSegmentState\<close> of \<open>client_kv_api/mod.rs\<close>): the physical slots of one
    segment, its manifest, its source leases and its demotion reservations. \<open>Owner_Slots_Inv\<close> and
    \<open>Owner_Slots_Ops\<close> have its invariant and the effect of every operation.

  \<^item> \<open>Owner_Pool\<close> (\<open>OwnerSegmentAllocator\<close> of \<open>client_kv_api/mod.rs\<close>): the authority over the
    segment, with the target and source sides of a transfer, the scopes of committed values, the
    demotion budget and the counters. \<open>Owner_Pool_Inv\<close> has the invariant, the step relation
    \<open>pool_step\<close> with one rule per method and the reachable states \<open>pool_reach\<close>;
    \<open>Owner_Pool_Correct\<close> and \<open>Owner_Pool_Budget\<close> have the properties: live slots are disjoint,
    aligned and inside the segment, a lease pins its slot, the counters and bytes are exact, claims
    do not panic, retried requests have no second effect, the global share stays within its budget
    and capacity reports are exact. \<open>Owner_Pool_Sample\<close> is a concrete run that shows the
    hypotheses of these properties can hold.

  \<^item> \<open>Owner_Service\<close> (\<open>client_kv_api/mod.rs\<close>, from \<open>apply_owner_transfer_terminal_ack\<close> to
    \<open>handle_owner_segment_transfer\<close>): the receiving side of the transfer protocol, with the maps of
    shared operations, the acknowledgement watermarks, the item handler and the executions of reads
    and route commits, each asynchronous function split where it waits. \<open>Owner_Service_Correct\<close>
    composes it with the coordinator's tracker over a network that reorders and repeats requests: an
    operation whose answer is not recorded is started at most once, and a late copy of a request with
    watermark zero is not stopped afterwards. \<open>Owner_Put\<close> is the execution of a put at its target;
    \<open>Owner_Put_Correct\<close> shows that a read gives its source back and that a put publishes its target or
    leaves nothing of it.

  \<^item> \<open>Byte_Codec\<close>, \<open>Flat_Dict\<close> (\<open>user_api/flat_dict.rs\<close>, \<open>user_api/codec_flat_dict.rs\<close>,
    \<open>memholder/kvclient_encode.rs\<close>): the wire format of a value, a dictionary of scalars, strings and
    bytes. \<open>Byte_Codec\<close> has little-endian bytes, UTF-8 validity, the ordered map and the locale
    \<open>item_format\<close>, an encoder with a cursor-based decoder, which the entries, the tensor descriptions
    and their dimensions interpret. Decoding inverts encoding, decoded entries are well typed, and the
    lookup of one field agrees with decoding the whole value. \<open>Flat_Writer\<close> has the pointer-based
    encoder over an explicit memory: the unsafe writer fills exactly the computed length, with the
    bytes of the dictionary encoder, for encodings below four gibibytes; larger ones are refused.

  \<^item> \<open>Flat_Dlpack\<close>, \<open>Flat_Dlpack_Correct\<close> (\<open>fluxon_pyo3/src/flatdict_zerocopy.rs\<close>): dictionaries with
    tensors, from the fields a Python dictionary gives to the objects that decoding builds, and that
    every field comes back, again below four gibibytes.

  \<^bold>\<open>Loops.\<close> Every loop is a structural recursion on the list it walks or on the number of slots
  still wanted, a function with a termination proof, or, for the replay loop, the route commit loop and the
  walk along the chain of a bin, a partial function in the option monad whose return is proved; no definition uses fuel that can run out.

  \<^bold>\<open>Not modelled.\<close> The asynchronous handlers of master and owner beyond the objects and the
  owner-to-owner transfers above (they
  combine remote calls, timers and third-party concurrent maps and caches), the SSD tier and the
  transfer engine (device input and output through native libraries), membership and transport (a
  closed binary library), the calls of the Python bindings into the Python runtime, the message queue,
  the file-system and S3 layers, and the operations, metrics and command-line tools.
\<close>

end
